(* ===== verification/Prelude.thy ===== *)
theory Prelude
  imports Main "HOL-Library.Word"
begin

text \<open>
  Shared vocabulary of the development: the fixed-width integers of the firmware as words,
  the saturating and checked additions the sources write by hand, and the generic facts on
  words, lists and options that the component theories use.

  A C++ \<open>std::uint64_t\<close> is a \<open>64 word\<close>: \<open>+\<close>, \<open>-\<close> and \<open>*\<close> wrap, \<open><\<close> and \<open>\<le>\<close> compare
  unsigned values, \<open>div\<close> and \<open>mod\<close> are the unsigned operations. A \<open>std::int32_t\<close> is a
  \<open>32 word\<close> read with \<^const>\<open>sint\<close>. A function that returns \<open>bool\<close> and an out parameter
  is a function into \<open>option\<close>.
\<close>

unbundle bit_operations_syntax

type_synonym u8 = "8 word"
type_synonym u16 = "16 word"
type_synonym u32 = "32 word"
type_synonym u64 = "64 word"
type_synonym i32 = "32 word"
type_synonym bytes = "u8 list"

named_theorems word_nat "facts that move word comparisons and operations to natural numbers"

section \<open>Bounded additions\<close>

definition u64_max :: u64 where
  "u64_max = - 1"

definition saturating_add :: "u64 \<Rightarrow> u64 \<Rightarrow> u64" where
  "saturating_add left right =
     (if right > u64_max - left then u64_max else left + right)"

lemma unat_u64_max [simp]: "unat u64_max = 18446744073709551615"
  by (simp add: u64_max_def unsigned_minus_1_eq_mask mask_eq_exp_minus_1)

lemma u64_max_top [simp]: "x \<le> u64_max"
  by (simp add: u64_max_def)

lemma u64_less_iff [word_nat]: "(x :: u64) < y \<longleftrightarrow> unat x < unat y"
  by (rule word_less_nat_alt)

lemma u64_le_iff [word_nat]: "(x :: u64) \<le> y \<longleftrightarrow> unat x \<le> unat y"
  by (rule word_le_nat_alt)

lemma u64_eq_iff: "(x :: u64) = y \<longleftrightarrow> unat x = unat y"
  by (rule word_unat_eq_iff)

lemma unat_u64_le: "unat (x :: u64) \<le> 18446744073709551615"
  using unsigned_less [of x, where ?'a = nat] by simp

lemma unat_u64_less: "unat (x :: u64) < 18446744073709551616"
  using unsigned_less [of x, where ?'a = nat] by simp

lemma unat_u64_max_minus [simp]: "unat (u64_max - x) = 18446744073709551615 - unat x"
  using unat_sub [OF u64_max_top [of x]] by simp

lemma unat_u64_minus: "y \<le> x \<Longrightarrow> unat (x - y :: u64) = unat x - unat y"
  by (rule unat_sub)

lemma unat_u64_plus: "unat x + unat y < 18446744073709551616 \<Longrightarrow>
    unat (x + y :: u64) = unat x + unat y"
  by (simp add: unat_word_ariths)

lemma unat_u64_times: "unat x * unat y < 18446744073709551616 \<Longrightarrow>
    unat (x * y :: u64) = unat x * unat y"
  by (simp add: unat_word_ariths)

lemma unat_guarded_plus:
  assumes "\<not> y > u64_max - x"
  shows "unat (x + y) = unat x + unat y"
proof -
  have "unat x + unat y < 18446744073709551616"
    using assms unat_u64_le [of x] by (simp add: word_nat)
  then show ?thesis by (rule unat_u64_plus)
qed

lemma unat_saturating_add:
  "unat (saturating_add x y) = min (unat x + unat y) 18446744073709551615"
proof (cases "y > u64_max - x")
  case True
  then have "unat x + unat y > 18446744073709551615"
    by (simp add: word_nat)
  with True show ?thesis by (simp add: saturating_add_def)
next
  case False
  then have "unat x + unat y \<le> 18446744073709551615"
    using unat_u64_le [of x] by (simp add: word_nat)
  with False show ?thesis by (simp add: saturating_add_def unat_u64_plus)
qed

lemma saturating_add_ge [simp]: "x \<le> saturating_add x y"
  using unat_u64_le [of x] by (simp add: word_nat unat_saturating_add)

section \<open>Bounded searches and erasures\<close>

text \<open>
  \<open>std::find_if\<close> over a vector, deque or list gives the first element that satisfies the
  predicate, or the end iterator: here \<open>List.find\<close>. \<open>std::erase_if\<close> is \<open>filter\<close> with the
  negated predicate.
\<close>

lemma find_Some_mem: "List.find P xs = Some x \<Longrightarrow> x \<in> set xs \<and> P x"
  by (auto simp: find_Some_iff in_set_conv_nth)

lemma find_None_all: "List.find P xs = None \<longleftrightarrow> (\<forall>x \<in> set xs. \<not> P x)"
  by (auto simp: find_None_iff)

lemma length_filter_Cons_le: "length (filter P (x # xs)) \<le> Suc (length (filter P xs))"
  by simp

end
