(* ===== verification/Time_Mapping.thy ===== *)
theory Time_Mapping
  imports Prelude
begin

text \<open>
  \<open>src/time/mapping.hpp\<close>: the integer arithmetic that maps the Pico's monotonic counter to
  UTC and back, with the clock snapshot of \<open>src/wtp/job_service.hpp\<close> it reads. Every
  function that reports success and writes an out parameter is a function into \<open>option\<close>.
\<close>

section \<open>Clock snapshots\<close>

datatype clock_state = Unsynchronized | Synchronized | Holdover

datatype leap_state = LeapNormal | InsertPending | DeletePending | LeapUnknown

record clock_snapshot =
  clock_state :: clock_state
  utc_now_ns :: u64
  monotonic_now_ns :: u64
  uncertainty_ns :: u64
  sync_age_ns :: u64
  leap :: leap_state
  leap_transition_utc_ns :: "u64 option"
  rate_ppb :: i32
  rate_uncertainty_ppb :: u32
  model_generation :: u64
  rate_until_monotonic_ns :: u64
  subsequent_rate_ppb :: i32
  valid_until_utc_ns :: u64

section \<open>Rational scaling\<close>

definition scale :: "u64 \<Rightarrow> u64 \<Rightarrow> u64 \<Rightarrow> bool \<Rightarrow> u64 option" where
  "scale val numerator denominator ceil =
     (if denominator = 0 \<or> numerator > 2000000000 \<or> denominator > 2000000000 then None
      else
        let q = val div denominator; r = val mod denominator in
        if numerator \<noteq> 0 \<and> q > u64_max div numerator then None
        else
          let product = r * numerator;
              fraction = product div denominator
                + (if ceil \<and> product mod denominator \<noteq> 0 then 1 else 0);
              whole = q * numerator
          in if whole > u64_max - fraction then None else Some (whole + fraction))"

definition utc_max_rate_ppb :: int where
  "utc_max_rate_ppb = 100000000"

definition utc_max_rate_uncertainty_ppb :: u32 where
  "utc_max_rate_uncertainty_ppb = 200000000"

definition legal_rate :: "i32 \<Rightarrow> bool" where
  "legal_rate rate \<longleftrightarrow> \<not> (sint rate < - utc_max_rate_ppb \<or> sint rate > utc_max_rate_ppb)"

definition rate_scale :: "i32 \<Rightarrow> u64" where
  "rate_scale rate = word_of_int (1000000000 + sint rate)"

definition elapsed_utc :: "u64 \<Rightarrow> i32 \<Rightarrow> bool \<Rightarrow> u64 option" where
  "elapsed_utc raw rate ceil =
     (if \<not> legal_rate rate then None
      else scale raw (rate_scale rate) 1000000000 ceil)"

definition growth :: "u64 \<Rightarrow> u64 \<Rightarrow> u64 option" where
  "growth age ppb = scale age ppb 1000000000 True"

section \<open>Projection and inversion\<close>

text \<open>
  Both functions call themselves once with the horizon \<open>rate_until_monotonic_ns\<close> replaced by
  \<open>UINT64_MAX\<close>, so the recursion has depth at most two.
\<close>

definition horizon_ahead :: "clock_snapshot \<Rightarrow> bool" where
  "horizon_ahead anchor \<longleftrightarrow>
     rate_until_monotonic_ns anchor \<noteq> u64_max \<and>
     rate_until_monotonic_ns anchor \<ge> monotonic_now_ns anchor"

function project :: "clock_snapshot \<Rightarrow> u64 \<Rightarrow> u64 option" where
  "project anchor raw =
     (if horizon_ahead anchor \<and> raw > rate_until_monotonic_ns anchor then
        let boundary = anchor\<lparr>rate_until_monotonic_ns := u64_max\<rparr> in
        (case project boundary (rate_until_monotonic_ns anchor) of
           None \<Rightarrow> None
         | Some utc_boundary \<Rightarrow>
             project (boundary\<lparr>utc_now_ns := utc_boundary,
                monotonic_now_ns := rate_until_monotonic_ns anchor,
                rate_ppb := subsequent_rate_ppb anchor\<rparr>) raw)
      else
        let future = raw \<ge> monotonic_now_ns anchor;
            delta = (if future then raw - monotonic_now_ns anchor
                     else monotonic_now_ns anchor - raw)
        in (case elapsed_utc delta (rate_ppb anchor) (\<not> future) of
              None \<Rightarrow> None
            | Some elapsed \<Rightarrow>
                if future then
                  if elapsed > u64_max - utc_now_ns anchor then None
                  else Some (utc_now_ns anchor + elapsed)
                else if elapsed > utc_now_ns anchor then None
                else Some (utc_now_ns anchor - elapsed)))"
  by pat_completeness auto
termination
  by (relation "measure (\<lambda>(anchor, raw).
        if rate_until_monotonic_ns anchor = u64_max then 0 else 1)")
     (auto simp: horizon_ahead_def)

function inverse_utc :: "clock_snapshot \<Rightarrow> u64 \<Rightarrow> u64 option" where
  "inverse_utc anchor utc =
     (if \<not> legal_rate (rate_ppb anchor) then None
      else
        let straight =
          (let future = utc \<ge> utc_now_ns anchor;
               delta = (if future then utc - utc_now_ns anchor else utc_now_ns anchor - utc)
           in (case scale delta 1000000000 (rate_scale (rate_ppb anchor)) future of
                 None \<Rightarrow> None
               | Some elapsed \<Rightarrow>
                   if future then
                     if elapsed > u64_max - monotonic_now_ns anchor then None
                     else Some (monotonic_now_ns anchor + elapsed)
                   else if elapsed > monotonic_now_ns anchor then None
                   else Some (monotonic_now_ns anchor - elapsed)))
        in if horizon_ahead anchor then
             let boundary = anchor\<lparr>rate_until_monotonic_ns := u64_max\<rparr> in
             (case project boundary (rate_until_monotonic_ns anchor) of
                None \<Rightarrow> None
              | Some utc_boundary \<Rightarrow>
                  if utc > utc_boundary then
                    inverse_utc (boundary\<lparr>utc_now_ns := utc_boundary,
                       monotonic_now_ns := rate_until_monotonic_ns anchor,
                       rate_ppb := subsequent_rate_ppb anchor\<rparr>) utc
                  else straight)
           else straight)"
  by pat_completeness auto
termination
  by (relation "measure (\<lambda>(anchor, utc).
        if rate_until_monotonic_ns anchor = u64_max then 0 else 1)")
     (auto simp: horizon_ahead_def)

declare project.simps [simp del] inverse_utc.simps [simp del]

definition duration_utc_bound :: "u64 \<Rightarrow> clock_snapshot \<Rightarrow> u64 option" where
  "duration_utc_bound raw clock =
     (if \<not> legal_rate (rate_ppb clock) \<or> \<not> legal_rate (subsequent_rate_ppb clock) \<or>
         rate_uncertainty_ppb clock > utc_max_rate_uncertainty_ppb
      then None
      else
        let upper = max 0 (max (sint (rate_ppb clock)) (sint (subsequent_rate_ppb clock))
              + uint (rate_uncertainty_ppb clock))
        in scale raw (word_of_int (1000000000 + upper)) 1000000000 True)"

section \<open>Scaling computes the exact quotient or refuses\<close>

definition quotient :: "nat \<Rightarrow> nat \<Rightarrow> nat \<Rightarrow> bool \<Rightarrow> nat" where
  "quotient v n d ceil = (if ceil then (v * n + (d - 1)) div d else v * n div d)"

lemma split_quotient:
  assumes "0 < (d :: nat)"
  shows "v * n div d = (v div d) * n + (v mod d) * n div d"
    and "(v * n + (d - 1)) div d = (v div d) * n + (v mod d) * n div d
           + (if (v mod d) * n mod d = 0 then 0 else 1)"
proof -
  have v: "v * n = (v mod d) * n + (v div d) * n * d"
  proof -
    have "v * n = (v mod d + v div d * d) * n" by simp
    also have "\<dots> = (v mod d) * n + (v div d) * n * d"
      by (simp only: add_mult_distrib add_mult_distrib2 ac_simps)
    finally show ?thesis .
  qed
  show "v * n div d = (v div d) * n + (v mod d) * n div d"
    by (subst v) (use assms in simp)
  have up: "(m + (d - 1)) div d = m div d + (if m mod d = 0 then 0 else 1)" for m
  proof -
    have "m + (d - 1) = (m mod d + (d - 1)) + (m div d) * d"
      using mod_div_mult_eq [of m d] by linarith
    moreover have "((m mod d + (d - 1)) + (m div d) * d) div d
        = m div d + (m mod d + (d - 1)) div d"
      by (rule div_mult_self1) (use assms in simp)
    ultimately have "(m + (d - 1)) div d = m div d + (m mod d + (d - 1)) div d"
      by (simp only:)
    moreover have "(m mod d + (d - 1)) div d = (if m mod d = 0 then 0 else 1)"
    proof (cases "m mod d = 0")
      case False
      have "m mod d < d" using assms by simp
      with False have eq: "m mod d + (d - 1) = (m mod d - 1) + d" and less: "m mod d - 1 < d"
        by linarith+
      have "((m mod d - 1) + d) div d = (m mod d - 1) div d + 1"
        by (rule div_add_self2) (use assms in simp)
      with False less show ?thesis by (simp only: eq div_less if_False add_0)
    qed (use assms in simp)
    ultimately show ?thesis by simp
  qed
  have "(v * n + (d - 1)) div d = v * n div d + (if v * n mod d = 0 then 0 else 1)"
    by (rule up)
  moreover have "v * n mod d = (v mod d) * n mod d"
    by (simp add: mod_mult_left_eq)
  ultimately show "(v * n + (d - 1)) div d = (v div d) * n + (v mod d) * n div d
           + (if (v mod d) * n mod d = 0 then 0 else 1)"
    using \<open>v * n div d = (v div d) * n + (v mod d) * n div d\<close> by simp
qed

text \<open>
  The product \<open>r * numerator\<close> never wraps: both factors are below \<open>2 * 10 ^ 9\<close>. The other
  two additions and products are guarded by the tests of the code.
\<close>

lemma scale_product_fits:
  assumes "d \<noteq> 0" "d \<le> 2000000000" "n \<le> 2000000000"
  shows "unat ((v mod d) * n :: u64) = (unat v mod unat d) * unat n"
    and "(unat v mod unat d) * unat n < 4000000000000000000"
proof -
  have d: "0 < unat d" "unat d \<le> 2000000000" and n: "unat n \<le> 2000000000"
    using assms by (simp_all add: word_nat unat_gt_0)
  have "unat v mod unat d < 2000000000"
    using d by (meson mod_less_divisor order_less_le_trans)
  then have "(unat v mod unat d) * unat n \<le> 1999999999 * 2000000000"
    using n by (intro mult_le_mono) simp_all
  then show less: "(unat v mod unat d) * unat n < 4000000000000000000" by simp
  show "unat ((v mod d) * n) = (unat v mod unat d) * unat n"
    using less by (simp add: unat_u64_times unat_mod)
qed

lemma scale_iff:
  "scale v n d c = Some r \<longleftrightarrow>
     d \<noteq> 0 \<and> n \<le> 2000000000 \<and> d \<le> 2000000000 \<and> unat r = quotient (unat v) (unat n) (unat d) c"
proof (cases "d \<noteq> 0 \<and> n \<le> 2000000000 \<and> d \<le> 2000000000")
  case False
  then show ?thesis by (auto simp: scale_def not_less)
next
  case True
  define q where "q = v div d"
  define fraction where "fraction = (v mod d) * n div d
      + (if c \<and> (v mod d) * n mod d \<noteq> 0 then 1 else 0)"
  have d: "0 < unat d" using True by (simp add: unat_gt_0)
  have product: "unat ((v mod d) * n) = (unat v mod unat d) * unat n"
    and small: "(unat v mod unat d) * unat n < 4000000000000000000"
    using True by (simp_all add: scale_product_fits)
  have div_small: "(unat v mod unat d) * unat n div unat d < 4000000000000000000"
    by (rule le_less_trans [OF div_le_dividend small])
  have fraction: "unat fraction = (unat v mod unat d) * unat n div unat d
      + (if c \<and> (unat v mod unat d) * unat n mod unat d \<noteq> 0 then 1 else 0)"
    using div_small unfolding fraction_def
    by (simp add: unat_u64_plus unat_div unat_mod product word_unat_eq_iff [of _ "0 :: u64"])
  have total: "quotient (unat v) (unat n) (unat d) c = unat q * unat n + unat fraction"
    using split_quotient [OF d, of "unat v" "unat n"]
    by (simp add: quotient_def q_def unat_div fraction)
  have code: "scale v n d c =
     (if n \<noteq> 0 \<and> q > u64_max div n then None
      else if q * n > u64_max - fraction then None else Some (q * n + fraction))"
  proof -
    have "(d = 0 \<or> 2000000000 < n \<or> 2000000000 < d) = False"
      using True by (simp add: not_less)
    then show ?thesis by (simp only: scale_def Let_def q_def fraction_def if_False)
  qed
  have guard1: "n \<noteq> 0 \<and> q > u64_max div n \<longleftrightarrow> unat q * unat n > 18446744073709551615"
  proof (cases "n = 0")
    case False
    then have "0 < unat n" by (simp add: unat_gt_0)
    then have "18446744073709551615 div unat n < unat q \<longleftrightarrow> 18446744073709551615 < unat q * unat n"
      by (rule div_less_iff_less_mult)
    with False show ?thesis by (simp add: word_nat unat_div)
  qed simp
  show ?thesis
  proof (cases "unat q * unat n > 18446744073709551615")
    case True
    moreover have "unat r \<le> 18446744073709551615" by (rule unat_u64_le)
    ultimately show ?thesis using guard1 total code by auto
  next
    case False
    then have whole: "unat (q * n) = unat q * unat n" by (simp add: unat_u64_times)
    have guard2: "q * n > u64_max - fraction \<longleftrightarrow> unat q * unat n + unat fraction > 18446744073709551615"
      using unat_u64_le [of fraction] by (simp add: word_nat whole less_diff_conv2)
    show ?thesis
    proof (cases "unat q * unat n + unat fraction > 18446744073709551615")
      case True
      moreover have "unat r \<le> 18446744073709551615" by (rule unat_u64_le)
      ultimately show ?thesis using False guard1 guard2 total code by auto
    next
      case sum: False
      then have "unat (q * n + fraction) = unat q * unat n + unat fraction"
        by (simp add: unat_u64_plus whole)
      then show ?thesis using False True sum guard1 guard2 total code
        by (auto simp: u64_eq_iff)
    qed
  qed
qed


section \<open>First instants: an interface between the clock model and its clients\<close>

locale utc_model =
  fixes fwd :: "'c \<Rightarrow> u64 \<Rightarrow> u64 option"
    and bwd :: "'c \<Rightarrow> u64 \<Rightarrow> u64 option"
  assumes galois: "fwd a x = Some u \<Longrightarrow> bwd a y = Some r \<Longrightarrow> y \<le> u \<longleftrightarrow> r \<le> x"
begin

lemma not_early: "bwd a y = Some r \<Longrightarrow> fwd a r = Some u \<Longrightarrow> y \<le> u"
  using galois by blast

lemma first: "bwd a y = Some r \<Longrightarrow> x < r \<Longrightarrow> fwd a x = Some u \<Longrightarrow> u < y"
  using galois by (meson linorder_not_le)

lemma fwd_mono:
  "fwd a x = Some u \<Longrightarrow> fwd a x' = Some u' \<Longrightarrow> bwd a u = Some r \<Longrightarrow> x \<le> x' \<Longrightarrow> u \<le> u'"
  using galois by (meson order.refl order.trans)

end

definition advance :: "int \<Rightarrow> int \<Rightarrow> int \<Rightarrow> int" where
  "advance n d x = x * n div d"

definition reach :: "int \<Rightarrow> int \<Rightarrow> int \<Rightarrow> int" where
  "reach n d y = - ((- y) * d div n)"

lemma le_div_iff: "0 < (d :: int) \<Longrightarrow> y \<le> a div d \<longleftrightarrow> y * d \<le> a"
proof -
  assume d: "0 < d"
  show ?thesis
  proof
  assume le: "y * d \<le> a"
  have "y * d div d \<le> a div d" by (rule zdiv_mono1 [OF le d])
  then show "y \<le> a div d" using d by simp
  next
  assume le: "y \<le> a div d"
  have "y * d \<le> a div d * d" using d le by (simp add: mult_right_mono)
  also have "\<dots> \<le> a" using d div_mult_mod_eq [of a d] pos_mod_sign [of d a] by linarith
  finally show "y * d \<le> a" .
  qed
qed

lemma advance_reach:
  assumes "0 < n" "0 < d"
  shows "y \<le> advance n d x \<longleftrightarrow> reach n d y \<le> x"
proof -
  have "y \<le> x * n div d \<longleftrightarrow> y * d \<le> x * n" by (rule le_div_iff [OF assms(2)])
  moreover have "- x \<le> (- y) * d div n \<longleftrightarrow> (- x) * n \<le> (- y) * d"
    by (rule le_div_iff [OF assms(1)])
  ultimately show ?thesis by (auto simp: advance_def reach_def)
qed

lemma advance_mono: "0 < n \<Longrightarrow> 0 < d \<Longrightarrow> x \<le> y \<Longrightarrow> advance n d x \<le> advance n d y"
  by (simp add: advance_def zdiv_mono1)

lemma quotient_floor: "int (quotient v n d False) = int v * int n div int d"
  by (simp add: quotient_def zdiv_int)

lemma quotient_ceil:
  assumes "0 < d"
  shows "int (quotient v n d True) = - ((- int v) * int n div int d)"
proof -
  have q: "int (quotient v n d True) = (int v * int n + (int d - 1)) div int d"
    using assms by (simp add: quotient_def zdiv_int of_nat_diff add_diff_eq)
  have "k \<le> (int v * int n + (int d - 1)) div int d - 1 \<longleftrightarrow> k < - ((- int v) * int n div int d)" for k
  proof -
    have "k + 1 \<le> (int v * int n + (int d - 1)) div int d \<longleftrightarrow> (k + 1) * int d \<le> int v * int n + (int d - 1)"
      using assms by (simp add: le_div_iff)
    also have "\<dots> \<longleftrightarrow> \<not> (- k * int d \<le> (- int v) * int n)"
      using assms by (simp add: algebra_simps) linarith
    also have "\<dots> \<longleftrightarrow> \<not> (- k \<le> (- int v) * int n div int d)"
      using assms by (simp add: le_div_iff)
    finally show ?thesis by linarith
  qed
  from this [of "- ((- int v) * int n div int d)"] this [of "- ((- int v) * int n div int d) - 1"]
  show ?thesis using q by linarith
qed

lemma rate_scale_value:
  assumes "legal_rate r"
  shows "unat (rate_scale r) = nat (1000000000 + sint r)"
    and "900000000 \<le> 1000000000 + sint r" and "1000000000 + sint r \<le> 1100000000"
proof -
  show b: "900000000 \<le> 1000000000 + sint r" "1000000000 + sint r \<le> 1100000000"
    using assms by (auto simp: legal_rate_def utc_max_rate_ppb_def)
  then have "(1000000000 + sint r) mod 18446744073709551616 = 1000000000 + sint r"
    by (intro mod_pos_pos_trivial) linarith+
  then have "uint (rate_scale r) = 1000000000 + sint r"
    unfolding rate_scale_def by (subst uint_word_of_int) simp
  then show "unat (rate_scale r) = nat (1000000000 + sint r)"
    by (simp only: nat_uint_eq [symmetric])
qed


section \<open>Straight segments\<close>

lemma elapsed_utc_iff:
  "elapsed_utc x r c = Some e \<longleftrightarrow>
     legal_rate r \<and> unat e = quotient (unat x) (nat (1000000000 + sint r)) 1000000000 c"
proof (cases "legal_rate r")
  case True
  then have "rate_scale r \<le> 2000000000"
    using rate_scale_value [OF True] by (simp add: word_nat)
  with True show ?thesis
    using rate_scale_value [OF True] by (simp add: elapsed_utc_def scale_iff)
qed (simp add: elapsed_utc_def)

lemma project_straight:
  assumes "\<not> (horizon_ahead a \<and> raw > rate_until_monotonic_ns a)" "project a raw = Some u"
  shows "legal_rate (rate_ppb a)"
    and "int (unat u) = int (unat (utc_now_ns a)) + advance (1000000000 + sint (rate_ppb a))
           1000000000 (int (unat raw) - int (unat (monotonic_now_ns a)))"
proof -
  let ?n = "1000000000 + sint (rate_ppb a)"
  define future where "future \<longleftrightarrow> raw \<ge> monotonic_now_ns a"
  define delta where "delta = (if future then raw - monotonic_now_ns a else monotonic_now_ns a - raw)"
  obtain e where e: "elapsed_utc delta (rate_ppb a) (\<not> future) = Some e"
    and u: "if future then \<not> e > u64_max - utc_now_ns a \<and> u = utc_now_ns a + e
            else \<not> e > utc_now_ns a \<and> u = utc_now_ns a - e"
    using assms unfolding project.simps [of a raw] future_def delta_def Let_def
    by (auto split: option.splits if_splits)
  then have legal: "legal_rate (rate_ppb a)"
    and v: "unat e = quotient (unat delta) (nat ?n) 1000000000 (\<not> future)"
    by (simp_all add: elapsed_utc_iff)
  show "legal_rate (rate_ppb a)" by (rule legal)
  have n: "0 < ?n" using rate_scale_value [OF legal] by simp
  show "int (unat u) = int (unat (utc_now_ns a)) + advance ?n 1000000000
      (int (unat raw) - int (unat (monotonic_now_ns a)))"
  proof (cases future)
    case True
    then have "int (unat delta) = int (unat raw) - int (unat (monotonic_now_ns a))"
      by (simp add: delta_def future_def unat_u64_minus word_nat of_nat_diff)
    moreover have "unat u = unat (utc_now_ns a) + unat e"
      using True u by (simp add: unat_guarded_plus)
    ultimately show ?thesis
      using True v n by (simp add: quotient_floor advance_def)
  next
    case False
    then have "int (unat delta) = int (unat (monotonic_now_ns a)) - int (unat raw)"
      by (simp add: delta_def future_def unat_u64_minus word_nat of_nat_diff)
    moreover have "int (unat u) = int (unat (utc_now_ns a)) - int (unat e)"
      using False u by (simp add: word_nat unat_u64_minus of_nat_diff)
    ultimately show ?thesis
      using False v n by (simp add: quotient_ceil advance_def)
  qed
qed

definition inverse_straight :: "clock_snapshot \<Rightarrow> u64 \<Rightarrow> u64 option" where
  "inverse_straight a utc =
     (let future = utc \<ge> utc_now_ns a;
          delta = (if future then utc - utc_now_ns a else utc_now_ns a - utc)
      in (case scale delta 1000000000 (rate_scale (rate_ppb a)) future of
            None \<Rightarrow> None
          | Some elapsed \<Rightarrow>
              if future then
                if elapsed > u64_max - monotonic_now_ns a then None
                else Some (monotonic_now_ns a + elapsed)
              else if elapsed > monotonic_now_ns a then None
              else Some (monotonic_now_ns a - elapsed)))"

lemma inverse_straight_Some:
  assumes "legal_rate (rate_ppb a)" "inverse_straight a utc = Some raw"
  shows "int (unat raw) = int (unat (monotonic_now_ns a)) + reach (1000000000 + sint (rate_ppb a))
           1000000000 (int (unat utc) - int (unat (utc_now_ns a)))"
proof -
  let ?n = "1000000000 + sint (rate_ppb a)"
  define future where "future \<longleftrightarrow> utc \<ge> utc_now_ns a"
  define delta where "delta = (if future then utc - utc_now_ns a else utc_now_ns a - utc)"
  obtain e where e: "scale delta 1000000000 (rate_scale (rate_ppb a)) future = Some e"
    and u: "if future then \<not> e > u64_max - monotonic_now_ns a \<and> raw = monotonic_now_ns a + e
            else \<not> e > monotonic_now_ns a \<and> raw = monotonic_now_ns a - e"
    using assms(2) unfolding inverse_straight_def future_def delta_def Let_def
    by (auto split: option.splits if_splits)
  note n = rate_scale_value [OF assms(1)]
  from e n have v: "unat e = quotient (unat delta) 1000000000 (nat ?n) future"
    by (simp add: scale_iff)
  show ?thesis
  proof (cases future)
    case True
    then have "int (unat delta) = int (unat utc) - int (unat (utc_now_ns a))"
      by (simp add: delta_def future_def unat_u64_minus word_nat of_nat_diff)
    moreover have "unat raw = unat (monotonic_now_ns a) + unat e"
      using True u by (simp add: unat_guarded_plus)
    ultimately show ?thesis
      using True v n by (simp add: quotient_ceil reach_def)
  next
    case False
    then have "int (unat delta) = int (unat (utc_now_ns a)) - int (unat utc)"
      by (simp add: delta_def future_def unat_u64_minus word_nat of_nat_diff)
    moreover have "int (unat raw) = int (unat (monotonic_now_ns a)) - int (unat e)"
      using False u by (simp add: word_nat unat_u64_minus of_nat_diff)
    ultimately show ?thesis
      using False v n by (simp add: quotient_floor reach_def)
  qed
qed


section \<open>Both segments\<close>

definition second_segment :: "clock_snapshot \<Rightarrow> u64 \<Rightarrow> clock_snapshot" where
  "second_segment a utc_boundary =
     a\<lparr>rate_until_monotonic_ns := u64_max, utc_now_ns := utc_boundary,
       monotonic_now_ns := rate_until_monotonic_ns a, rate_ppb := subsequent_rate_ppb a\<rparr>"

lemma no_horizon [simp]: "\<not> horizon_ahead (a\<lparr>rate_until_monotonic_ns := u64_max\<rparr>)"
  and no_horizon_second [simp]: "\<not> horizon_ahead (second_segment a b)"
  by (simp_all add: horizon_ahead_def second_segment_def)

lemma project_second:
  assumes "horizon_ahead a" "raw > rate_until_monotonic_ns a" "project a raw = Some u"
  obtains b where "project (a\<lparr>rate_until_monotonic_ns := u64_max\<rparr>) (rate_until_monotonic_ns a) = Some b"
    and "project (second_segment a b) raw = Some u"
  using assms unfolding project.simps [of a raw]
  by (auto simp: Let_def second_segment_def split: option.splits)

lemma inverse_cases:
  assumes "inverse_utc a y = Some r"
  shows "legal_rate (rate_ppb a)" and
    "if horizon_ahead a then
       \<exists>b. project (a\<lparr>rate_until_monotonic_ns := u64_max\<rparr>) (rate_until_monotonic_ns a) = Some b
         \<and> (if y > b then inverse_utc (second_segment a b) y = Some r
            else inverse_straight a y = Some r)
     else inverse_straight a y = Some r"
  using assms unfolding inverse_utc.simps [of a y]
  by (auto simp: Let_def second_segment_def inverse_straight_def split: option.splits if_splits)

lemma galois_straight:
  assumes "\<not> (horizon_ahead a \<and> x > rate_until_monotonic_ns a)" "project a x = Some u"
    and "inverse_straight a y = Some r"
  shows "y \<le> u \<longleftrightarrow> r \<le> x"
proof -
  note p = project_straight [OF assms(1,2)]
  note i = inverse_straight_Some [OF p(1) assms(3)]
  have n: "0 < 1000000000 + sint (rate_ppb a)" using rate_scale_value [OF p(1)] by simp
  show ?thesis
    using p(2) i advance_reach [OF n, of 1000000000 "int (unat y) - int (unat (utc_now_ns a))"
        "int (unat x) - int (unat (monotonic_now_ns a))"]
    by (auto simp: word_le_def word_less_def)
qed

lemma galois_second:
  assumes "project (second_segment a b) x = Some u" "inverse_utc (second_segment a b) y = Some r"
  shows "y \<le> u \<longleftrightarrow> r \<le> x"
  using galois_straight [of "second_segment a b" x u y r] inverse_cases [OF assms(2)] assms(1)
  by simp

lemma project_below_boundary:
  assumes "horizon_ahead a" "x \<le> rate_until_monotonic_ns a" "project a x = Some u"
    and "project (a\<lparr>rate_until_monotonic_ns := u64_max\<rparr>) (rate_until_monotonic_ns a) = Some b"
  shows "u \<le> b"
proof -
  have px: "legal_rate (rate_ppb a)" "int (unat u) = int (unat (utc_now_ns a))
      + advance (1000000000 + sint (rate_ppb a)) 1000000000
          (int (unat x) - int (unat (monotonic_now_ns a)))"
    using project_straight [OF _ assms(3)] assms(2) by (simp_all add: leD)
  have pb: "int (unat b) = int (unat (utc_now_ns a))
      + advance (1000000000 + sint (rate_ppb a)) 1000000000
          (int (unat (rate_until_monotonic_ns a)) - int (unat (monotonic_now_ns a)))"
    using project_straight(2) [OF _ assms(4)] by simp
  have "0 < 1000000000 + sint (rate_ppb a)" using rate_scale_value [OF px(1)] by simp
  then show ?thesis
    using px(2) pb assms(2) advance_mono [of "1000000000 + sint (rate_ppb a)" 1000000000
      "int (unat x) - int (unat (monotonic_now_ns a))"
      "int (unat (rate_until_monotonic_ns a)) - int (unat (monotonic_now_ns a))"]
    by (simp add: word_le_def word_less_def)
qed

lemma inverse_before_boundary:
  assumes "horizon_ahead a" "inverse_straight a y = Some r" "y \<le> b"
    and "project (a\<lparr>rate_until_monotonic_ns := u64_max\<rparr>) (rate_until_monotonic_ns a) = Some b"
  shows "r \<le> rate_until_monotonic_ns a"
proof -
  have "inverse_straight (a\<lparr>rate_until_monotonic_ns := u64_max\<rparr>) y = Some r"
    using assms(2) by (auto simp: inverse_straight_def Let_def split: option.splits if_splits)
  then show ?thesis using galois_straight [OF _ assms(4)] assms(3) by simp
qed

lemma second_segment_ends:
  assumes "project (second_segment a b) x = Some u" "x > rate_until_monotonic_ns a"
  shows "b \<le> u"
proof -
  note p = project_straight [OF _ assms(1), simplified]
  have "0 < 1000000000 + sint (subsequent_rate_ppb a)"
    using rate_scale_value [OF p(1)] by (simp add: second_segment_def)
  then have "0 \<le> advance (1000000000 + sint (subsequent_rate_ppb a)) 1000000000
      (int (unat x) - int (unat (rate_until_monotonic_ns a)))"
    using assms(2) by (simp add: advance_def word_le_def word_less_def pos_imp_zdiv_nonneg_iff)
  then show ?thesis using p(2) by (simp add: second_segment_def word_le_def word_less_def)
qed

lemma second_inverse_after:
  assumes "inverse_utc (second_segment a b) y = Some r" "b < y"
  shows "rate_until_monotonic_ns a < r"
proof -
  note i = inverse_cases [OF assms(1), simplified]
  note v = inverse_straight_Some [OF i]
  have n: "0 < 1000000000 + sint (subsequent_rate_ppb a)"
    using rate_scale_value [OF i(1)] by (simp add: second_segment_def)
  have "\<not> reach (1000000000 + sint (subsequent_rate_ppb a)) 1000000000
      (int (unat y) - int (unat b)) \<le> 0"
    using assms(2) advance_reach [OF n, of 1000000000 "int (unat y) - int (unat b)" 0]
    by (simp add: advance_def word_le_def word_less_def)
  then show ?thesis using v by (simp add: second_segment_def word_le_def word_less_def)
qed

lemma project_inverse_galois:
  assumes p: "project a x = Some u" and i: "inverse_utc a y = Some r"
  shows "y \<le> u \<longleftrightarrow> r \<le> x"
proof (cases "horizon_ahead a")
  case False
  then have "inverse_straight a y = Some r" using inverse_cases(2) [OF i] by simp
  then show ?thesis by (rule galois_straight [OF _ p, rotated]) (use False in simp)
next
  case A: True
  then obtain b
    where b: "project (a\<lparr>rate_until_monotonic_ns := u64_max\<rparr>) (rate_until_monotonic_ns a) = Some b"
      and inv: "if y > b then inverse_utc (second_segment a b) y = Some r
                else inverse_straight a y = Some r"
    using inverse_cases(2) [OF i] by auto
  show ?thesis
  proof (cases "x \<le> rate_until_monotonic_ns a")
    case True
    then have "u \<le> b" using project_below_boundary A p b by blast
    then show ?thesis
      using True inv galois_straight [OF _ p] second_inverse_after
      by (cases "y > b") (fastforce simp: leD)+
  next
    case False
    then have px: "project (second_segment a b) x = Some u"
      using project_second [OF A _ p] b by (auto simp: not_le)
    then have "b \<le> u" using second_segment_ends False by (simp add: not_le)
    then show ?thesis
      using False inv galois_second [OF px] inverse_before_boundary [OF A _ _ b]
      by (cases "y > b") (fastforce simp: not_less)+
  qed
qed

interpretation utc: utc_model project inverse_utc
  by unfold_locales (rule project_inverse_galois)


section \<open>Properties\<close>

text \<open>The scaling routine multiplies a counter by a rational exactly. It returns the floor
  (or, with \<open>ceil\<close>, the ceiling) of \<open>value * numerator / denominator\<close> whenever that quotient
  fits 64 bits, and refuses in every other case: a zero denominator, a factor above
  \<open>2 * 10 ^ 9\<close>, or a quotient that would not fit. No intermediate product wraps.\<close>

theorem scale_exact:
  "scale v n d c =
     (if d = 0 \<or> n > 2000000000 \<or> d > 2000000000 \<or>
         quotient (unat v) (unat n) (unat d) c \<ge> 2 ^ 64
      then None else Some (of_nat (quotient (unat v) (unat n) (unat d) c)))"
proof (cases "scale v n d c")
  case None
  have "quotient (unat v) (unat n) (unat d) c \<ge> 2 ^ 64"
    if ok: "d \<noteq> 0" "n \<le> 2000000000" "d \<le> 2000000000"
  proof (rule ccontr)
    assume "\<not> quotient (unat v) (unat n) (unat d) c \<ge> 2 ^ 64"
    then have "unat (of_nat (quotient (unat v) (unat n) (unat d) c) :: u64)
        = quotient (unat v) (unat n) (unat d) c"
      by (simp add: unat_of_nat)
    with ok have "scale v n d c = Some (of_nat (quotient (unat v) (unat n) (unat d) c))"
      by (simp add: scale_iff)
    with None show False by simp
  qed
  with None show ?thesis by (auto simp: not_less)
next
  case (Some r)
  then have r: "d \<noteq> 0" "n \<le> 2000000000" "d \<le> 2000000000"
    "quotient (unat v) (unat n) (unat d) c = unat r"
    by (simp_all add: scale_iff)
  moreover have "\<not> unat r \<ge> 2 ^ 64" using unat_u64_less [of r] by simp
  ultimately show ?thesis using Some by (auto simp: not_less)
qed

text \<open>C12: the inverse of the clock model is the first monotonic nanosecond at or after a UTC
  instant, across both rate segments: the projection of the returned instant is not before the
  requested UTC time, and every earlier instant that projects at all projects strictly before
  it.\<close>

theorem inverse_first_instant:
  assumes "inverse_utc a utc = Some raw"
  shows "(\<forall>u. project a raw = Some u \<longrightarrow> utc \<le> u) \<and>
     (\<forall>x < raw. \<forall>u. project a x = Some u \<longrightarrow> u < utc)"
  using utc.not_early utc.first assms by blast

definition two_rate_anchor :: clock_snapshot where
  "two_rate_anchor = \<lparr>clock_state = Synchronized, utc_now_ns = 1000000000000, monotonic_now_ns = 5000000000,
     uncertainty_ns = 1000, sync_age_ns = 0, leap = LeapNormal, leap_transition_utc_ns = None,
     rate_ppb = 100, rate_uncertainty_ppb = 0, model_generation = 1, rate_until_monotonic_ns = 6000000000,
     subsequent_rate_ppb = 0, valid_until_utc_ns = u64_max\<rparr>"

lemma two_rate_inverse: "inverse_utc two_rate_anchor 1002000000000 = Some 6999999900"
  by code_simp

lemma two_rate_projections:
  "project two_rate_anchor 6999999900 = Some 1002000000000"
  "project two_rate_anchor 6999999899 = Some 1001999999999"
  by code_simp+

theorem inverse_first_instant_witness:
  "inverse_utc two_rate_anchor 1002000000000 = Some 6999999900 \<and>
   1002000000000 \<le> the (project two_rate_anchor 6999999900) \<and>
   the (project two_rate_anchor 6999999899) < 1002000000000"
proof -
  have "(6999999899 :: u64) < 6999999900" by simp
  then show ?thesis
    using inverse_first_instant [OF two_rate_inverse] two_rate_inverse two_rate_projections
    by (metis option.sel)
qed

end
