(* ===== verification/Sha256.thy ===== *)
theory Sha256
  imports Prelude
begin

text \<open>
  \<open>src/wtp/sha256.cpp\<close>: the incremental SHA-256 of the firmware. A state holds the eight hash
  words, the 64-byte block buffer, the number of buffered bytes and the 64-bit byte counter;
  \<open>sha_update\<close> absorbs bytes, \<open>sha_finish\<close> pads a copy of the state. The reference
  \<open>sha256_spec\<close> pads the whole message first and folds the compression function over its
  64-byte blocks; the theory shows that every way of cutting the message into updates computes
  it.
\<close>

section \<open>Compression\<close>

definition round_constants :: "u32 list" where
  "round_constants =
    concat
     [[0x428a2f98, 0x71374491, 0xb5c0fbcf, 0xe9b5dba5, 0x3956c25b, 0x59f111f1, 0x923f82a4],
      [0xab1c5ed5, 0xd807aa98, 0x12835b01, 0x243185be, 0x550c7dc3, 0x72be5d74, 0x80deb1fe],
      [0x9bdc06a7, 0xc19bf174, 0xe49b69c1, 0xefbe4786, 0x0fc19dc6, 0x240ca1cc, 0x2de92c6f],
      [0x4a7484aa, 0x5cb0a9dc, 0x76f988da, 0x983e5152, 0xa831c66d, 0xb00327c8, 0xbf597fc7],
      [0xc6e00bf3, 0xd5a79147, 0x06ca6351, 0x14292967, 0x27b70a85, 0x2e1b2138, 0x4d2c6dfc],
      [0x53380d13, 0x650a7354, 0x766a0abb, 0x81c2c92e, 0x92722c85, 0xa2bfe8a1, 0xa81a664b],
      [0xc24b8b70, 0xc76c51a3, 0xd192e819, 0xd6990624, 0xf40e3585, 0x106aa070, 0x19a4c116],
      [0x1e376c08, 0x2748774c, 0x34b0bcb5, 0x391c0cb3, 0x4ed8aa4a, 0x5b9cca4f, 0x682e6ff3],
      [0x748f82ee, 0x78a5636f, 0x84c87814, 0x8cc70208, 0x90befffa, 0xa4506ceb, 0xbef9a3f7],
      [0xc67178f2]]"

definition initial_hash :: "u32 list" where
  "initial_hash =
    [0x6a09e667, 0xbb67ae85, 0x3c6ef372, 0xa54ff53a, 0x510e527f, 0x9b05688c, 0x1f83d9ab,
     0x5be0cd19]"

definition rotate_right :: "u32 \<Rightarrow> nat \<Rightarrow> u32" where
  "rotate_right v n = drop_bit n v OR push_bit (32 - n) v"

definition read_u32_be :: "bytes \<Rightarrow> u32" where
  "read_u32_be input =
     push_bit 24 (ucast (input ! 0)) OR push_bit 16 (ucast (input ! 1)) OR
     push_bit 8 (ucast (input ! 2)) OR ucast (input ! 3)"

text \<open>The message schedule: sixteen words of the block, then forty-eight derived words.\<close>

definition schedule_word :: "u32 list \<Rightarrow> nat \<Rightarrow> u32" where
  "schedule_word ws i =
     (let s0 = rotate_right (ws ! (i - 15)) 7 XOR rotate_right (ws ! (i - 15)) 18 XOR
               drop_bit 3 (ws ! (i - 15));
          s1 = rotate_right (ws ! (i - 2)) 17 XOR rotate_right (ws ! (i - 2)) 19 XOR
               drop_bit 10 (ws ! (i - 2))
      in ws ! (i - 16) + s0 + ws ! (i - 7) + s1)"

fun extend_schedule :: "nat \<Rightarrow> u32 list \<Rightarrow> u32 list" where
  "extend_schedule 0 ws = ws"
| "extend_schedule (Suc n) ws = extend_schedule n (ws @ [schedule_word ws (length ws)])"

definition message_schedule :: "bytes \<Rightarrow> u32 list" where
  "message_schedule block =
     extend_schedule 48 (map (\<lambda>i. read_u32_be (drop (i * 4) block)) [0..<16])"

fun sha_round ::
  "u32 \<times> u32 \<times> u32 \<times> u32 \<times> u32 \<times> u32 \<times> u32 \<times> u32 \<Rightarrow> u32 \<times> u32 \<Rightarrow>
   u32 \<times> u32 \<times> u32 \<times> u32 \<times> u32 \<times> u32 \<times> u32 \<times> u32" where
  "sha_round (a, b, c, d, e, f, g, h) (k, w) =
     (let sum1 = rotate_right e 6 XOR rotate_right e 11 XOR rotate_right e 25;
          choice = (e AND f) XOR ((NOT e) AND g);
          temporary1 = h + sum1 + choice + k + w;
          sum0 = rotate_right a 2 XOR rotate_right a 13 XOR rotate_right a 22;
          majority = (a AND b) XOR (a AND c) XOR (b AND c);
          temporary2 = sum0 + majority
      in (temporary1 + temporary2, a, b, c, d + temporary1, e, f, g))"

definition sha_compress :: "u32 list \<Rightarrow> bytes \<Rightarrow> u32 list" where
  "sha_compress hash block =
     (case foldl sha_round (hash ! 0, hash ! 1, hash ! 2, hash ! 3, hash ! 4, hash ! 5, hash ! 6,
        hash ! 7) (zip round_constants (message_schedule block)) of
        (a, b, c, d, e, f, g, h) \<Rightarrow>
          [hash ! 0 + a, hash ! 1 + b, hash ! 2 + c, hash ! 3 + d, hash ! 4 + e, hash ! 5 + f,
           hash ! 6 + g, hash ! 7 + h])"

section \<open>The incremental state\<close>

record sha_state =
  sha_hash :: "u32 list"
  sha_tail :: bytes
  sha_pending :: nat
  sha_bytes :: u64

definition sha_init :: sha_state where
  "sha_init = \<lparr>sha_hash = initial_hash, sha_tail = replicate 64 0, sha_pending = 0, sha_bytes = 0\<rparr>"

text \<open>
  The loop of \<open>Sha256::update\<close>. The buffer never holds 64 pending bytes between iterations, so
  \<open>count\<close> is positive and every iteration consumes input; the first branch names the
  unreachable case in which it would not.
\<close>

definition overwrite :: "'a list \<Rightarrow> nat \<Rightarrow> 'a list \<Rightarrow> 'a list" where
  "overwrite xs at ys = take at xs @ ys @ drop (at + length ys) xs"

function sha_absorb :: "sha_state \<Rightarrow> bytes \<Rightarrow> sha_state" where
  "sha_absorb s bs =
     (if bs = [] \<or> sha_pending s \<ge> 64 then s
      else if sha_pending s = 0 \<and> length bs \<ge> 64 then
        sha_absorb (s\<lparr>sha_hash := sha_compress (sha_hash s) (take 64 bs)\<rparr>) (drop 64 bs)
      else
        let count = min (length bs) (64 - sha_pending s);
            s = s\<lparr>sha_tail := overwrite (sha_tail s) (sha_pending s) (take count bs),
                  sha_pending := sha_pending s + count\<rparr>;
            s = (if sha_pending s = 64
                 then s\<lparr>sha_hash := sha_compress (sha_hash s) (sha_tail s), sha_pending := 0\<rparr>
                 else s)
        in sha_absorb s (drop count bs))"
  by pat_completeness auto
termination
  by (relation "measure (\<lambda>(s, bs). length bs)") (auto simp: not_le)

declare sha_absorb.simps [simp del]

definition sha_update :: "sha_state \<Rightarrow> bytes \<Rightarrow> sha_state" where
  "sha_update s bs = sha_absorb (s\<lparr>sha_bytes := sha_bytes s + of_nat (length bs)\<rparr>) bs"

definition be_bytes64 :: "u64 \<Rightarrow> bytes" where
  "be_bytes64 v = map (\<lambda>i. ucast (drop_bit (8 * (7 - i)) v)) [0..<8]"

definition be_bytes32 :: "u32 \<Rightarrow> bytes" where
  "be_bytes32 v = map (\<lambda>j. ucast (drop_bit (24 - j * 8) v)) [0..<4]"

definition sha_finish :: "sha_state \<Rightarrow> bytes" where
  "sha_finish s =
     (let tail = overwrite (sha_tail s) (sha_pending s) [0x80];
          pending = sha_pending s + 1;
          tail = overwrite tail pending (replicate (64 - pending) 0);
          (hash, tail) =
            (if pending > 56 then (sha_compress (sha_hash s) tail, replicate 64 0)
             else (sha_hash s, tail));
          bits = sha_bytes s * 8;
          tail = overwrite tail 56 (be_bytes64 bits);
          hash = sha_compress hash tail
      in concat (map be_bytes32 hash))"

definition sha256 :: "bytes \<Rightarrow> bytes" where
  "sha256 bs = sha_finish (sha_update sha_init bs)"

section \<open>Reference: pad, cut into blocks, compress\<close>

definition sha_padding :: "nat \<Rightarrow> bytes" where
  "sha_padding n =
     0x80 # replicate (if n mod 64 < 56 then 55 - n mod 64 else 119 - n mod 64) 0
       @ be_bytes64 (of_nat n * 8)"

fun compress_blocks :: "u32 list \<Rightarrow> bytes \<Rightarrow> u32 list \<times> bytes" where
  "compress_blocks h bs =
     (if length bs < 64 then (h, bs)
      else compress_blocks (sha_compress h (take 64 bs)) (drop 64 bs))"

declare compress_blocks.simps [simp del]

definition sha256_spec :: "bytes \<Rightarrow> bytes" where
  "sha256_spec message =
     concat (map be_bytes32
       (fst (compress_blocks initial_hash (message @ sha_padding (length message)))))"

section \<open>The state represents the message absorbed so far\<close>

definition sha_represents :: "sha_state \<Rightarrow> bytes \<Rightarrow> bool" where
  "sha_represents s m \<longleftrightarrow>
     length (sha_tail s) = 64 \<and> sha_pending s < 64 \<and> sha_bytes s = of_nat (length m) \<and>
     compress_blocks initial_hash m = (sha_hash s, take (sha_pending s) (sha_tail s))"

lemma compress_blocks_append:
  "compress_blocks h m = (h', t) \<Longrightarrow> compress_blocks h (m @ b) = compress_blocks h' (t @ b)"
proof (induction h m rule: compress_blocks.induct)
  case (1 h m)
  show ?case
  proof (cases "length m < 64")
    case True
    then show ?thesis using "1.prems" by (simp add: compress_blocks.simps [of h m])
  next
    case False
    then have "compress_blocks h (m @ b)
        = compress_blocks (sha_compress h (take 64 m)) (drop 64 m @ b)"
      by (simp add: compress_blocks.simps [of h "m @ b"])
    then show ?thesis
      using False "1.IH" "1.prems" by (simp add: compress_blocks.simps [of h m])
  qed
qed

lemma compress_blocks_rest_length: "compress_blocks h m = (h', t) \<Longrightarrow> length t = length m mod 64"
proof (induction h m rule: compress_blocks.induct)
  case (1 h m)
  show ?case
  proof (cases "length m < 64")
    case True
    then show ?thesis using "1.prems" by (simp add: compress_blocks.simps [of h m])
  next
    case False
    then have "length t = length (drop 64 m) mod 64"
      using "1.IH" "1.prems" by (simp add: compress_blocks.simps [of h m])
    with False show ?thesis by (simp add: le_mod_geq)
  qed
qed

lemma sha_init_represents: "sha_represents sha_init []"
  by (simp add: sha_represents_def sha_init_def compress_blocks.simps)

lemma length_overwrite: "at + length ys \<le> length xs \<Longrightarrow> length (overwrite xs at ys) = length xs"
  by (simp add: overwrite_def)

lemma take_overwrite:
  "at + length ys \<le> length xs \<Longrightarrow> take (at + length ys) (overwrite xs at ys) = take at xs @ ys"
  by (simp add: overwrite_def)

lemma sha_absorb_Nil [simp]: "sha_absorb s [] = s"
  by (simp add: sha_absorb.simps)

text \<open>What the buffer stands for: the state of the reference after the bytes absorbed.\<close>

lemma sha_absorb_blocks:
  assumes "length (sha_tail s) = 64" "sha_pending s < 64"
  shows "length (sha_tail (sha_absorb s bs)) = 64 \<and> sha_pending (sha_absorb s bs) < 64 \<and>
    sha_bytes (sha_absorb s bs) = sha_bytes s \<and>
    compress_blocks (sha_hash s) (take (sha_pending s) (sha_tail s) @ bs)
      = (sha_hash (sha_absorb s bs),
         take (sha_pending (sha_absorb s bs)) (sha_tail (sha_absorb s bs)))"
  using assms
proof (induction s bs rule: sha_absorb.induct)
  case (1 s bs)
  let ?t = "take (sha_pending s) (sha_tail s)"
  consider (stop) "bs = []" | (block) "bs \<noteq> []" "sha_pending s = 0" "length bs \<ge> 64"
    | (tail) "bs \<noteq> []" "\<not> (sha_pending s = 0 \<and> length bs \<ge> 64)"
    by fastforce
  then show ?case
  proof cases
    case stop
    then show ?thesis
      using "1.prems" by (simp add: compress_blocks.simps)
  next
    case block
    have "compress_blocks (sha_hash s) bs
        = compress_blocks (sha_compress (sha_hash s) (take 64 bs)) (drop 64 bs)"
      using block by (simp add: compress_blocks.simps [of "sha_hash s" bs])
    then show ?thesis
      using block "1.IH"(1) "1.prems" by (simp add: sha_absorb.simps [of s bs])
  next
    case tail
    define count where "count = min (length bs) (64 - sha_pending s)"
    define s1 where "s1 = s\<lparr>sha_tail := overwrite (sha_tail s) (sha_pending s) (take count bs),
        sha_pending := sha_pending s + count\<rparr>"
    define s2 where "s2 = (if sha_pending s1 = 64
        then s1\<lparr>sha_hash := sha_compress (sha_hash s1) (sha_tail s1), sha_pending := 0\<rparr> else s1)"
    have step: "sha_absorb s bs = sha_absorb s2 (drop count bs)"
      using tail "1.prems"
      by (auto simp: sha_absorb.simps [of s bs] Let_def s2_def s1_def count_def not_le)
    have fits: "sha_pending s + count \<le> 64" "length (take count bs) = count"
      using "1.prems" by (simp_all add: count_def)
    have tl: "length (sha_tail s1) = 64" "sha_pending s1 \<le> 64"
      "take (sha_pending s1) (sha_tail s1) = ?t @ take count bs"
      using fits "1.prems" take_overwrite [of "sha_pending s" "take count bs" "sha_tail s"]
      by (simp_all add: s1_def length_overwrite)
    have "compress_blocks (sha_hash s) (?t @ bs)
        = compress_blocks (sha_hash s2) (take (sha_pending s2) (sha_tail s2) @ drop count bs)"
    proof (cases "sha_pending s1 = 64")
      case True
      then have count: "64 - sha_pending s = count" "count \<le> length bs"
        by (auto simp: s1_def count_def)
      have "sha_tail s1 = take 64 (?t @ bs)" "drop 64 (?t @ bs) = drop count bs"
        and "64 \<le> length (?t @ bs)"
        using True tl count fits "1.prems" by (simp_all add: s1_def)
      with True show ?thesis
        by (simp add: s2_def compress_blocks.simps [of "sha_hash s" "?t @ bs"]) (simp add: s1_def)
    next
      case False
      then show ?thesis using tl by (simp add: s2_def) (simp add: s1_def)
    qed
    moreover have "length (sha_tail s2) = 64" "sha_pending s2 < 64" "sha_bytes s2 = sha_bytes s"
      using tl by (auto simp: s2_def) (auto simp: s1_def)
    ultimately show ?thesis
      using "1.IH"(2) [OF _ tail(2) count_def s1_def s2_def] tail step "1.prems"
      by simp
  qed
qed

lemma sha_update_represents:
  assumes "sha_represents s m"
  shows "sha_represents (sha_update s bs) (m @ bs)"
proof -
  let ?s = "s\<lparr>sha_bytes := sha_bytes s + of_nat (length bs)\<rparr>"
  have "compress_blocks initial_hash (m @ bs)
      = compress_blocks (sha_hash s) (take (sha_pending s) (sha_tail s) @ bs)"
    using assms by (intro compress_blocks_append) (simp add: sha_represents_def)
  then show ?thesis
    using assms sha_absorb_blocks [of ?s bs] by (simp add: sha_represents_def sha_update_def)
qed


section \<open>Padding\<close>

lemma length_be_bytes64 [simp]: "length (be_bytes64 v) = 8"
  by (simp add: be_bytes64_def)

lemma overwrite_at:
  "length a = k \<Longrightarrow> length c = length d \<Longrightarrow> overwrite (a @ c) k d = a @ d"
  by (simp add: overwrite_def)

lemma compress_blocks_short: "length bs < 64 \<Longrightarrow> compress_blocks h bs = (h, bs)"
  by (simp add: compress_blocks.simps)

lemma compress_blocks_block:
  "length b = 64 \<Longrightarrow> compress_blocks h (b @ bs) = compress_blocks (sha_compress h b) bs"
  by (simp add: compress_blocks.simps [of h "b @ bs"])

definition padded_tail :: "sha_state \<Rightarrow> bytes" where
  "padded_tail s = take (sha_pending s) (sha_tail s) @ 0x80 # replicate (63 - sha_pending s) 0"

lemma padded_tail_code:
  assumes "length (sha_tail s) = 64" "sha_pending s < 64"
  shows "overwrite (overwrite (sha_tail s) (sha_pending s) [0x80]) (sha_pending s + 1)
      (replicate (64 - (sha_pending s + 1)) 0) = padded_tail s"
    and "length (padded_tail s) = 64"
  using assms by (simp_all add: overwrite_def padded_tail_def min_def)

lemma sha_finish_represents:
  assumes "sha_represents s m"
  shows "sha_finish s = sha256_spec m"
proof -
  let ?t = "take (sha_pending s) (sha_tail s)" and ?len = "be_bytes64 (of_nat (length m) * 8)"
  have tail: "length (sha_tail s) = 64" "sha_pending s < 64"
    and n: "sha_bytes s = of_nat (length m)"
    and blocks: "compress_blocks initial_hash m = (sha_hash s, ?t)"
    using assms by (simp_all add: sha_represents_def)
  have p: "length m mod 64 = sha_pending s"
    using compress_blocks_rest_length [OF blocks] tail by simp
  have spec: "compress_blocks initial_hash (m @ sha_padding (length m))
      = compress_blocks (sha_hash s) (?t @ sha_padding (length m))"
    by (rule compress_blocks_append [OF blocks])
  note padded = padded_tail_code [OF tail, simplified]
  show ?thesis
  proof (cases "sha_pending s < 56")
    case True
    have eq: "padded_tail s = (?t @ 0x80 # replicate (55 - sha_pending s) 0) @ replicate 8 0"
      using True by (simp add: padded_tail_def replicate_add [symmetric])
    have "overwrite (padded_tail s) 56 ?len = (?t @ 0x80 # replicate (55 - sha_pending s) 0) @ ?len"
      unfolding eq by (rule overwrite_at) (use True tail in simp_all)
    then have "overwrite (padded_tail s) 56 ?len = ?t @ sha_padding (length m)"
      using True p by (simp add: sha_padding_def)
    moreover have "length (?t @ sha_padding (length m)) = 64"
      using True tail by (simp add: sha_padding_def p)
    ultimately show ?thesis
      using True compress_blocks_block [of "?t @ sha_padding (length m)" "sha_hash s" "[]"]
      by (simp add: sha_finish_def Let_def padded n sha256_spec_def spec compress_blocks_short)
  next
    case False
    have "replicate (119 - sha_pending s) (0 :: u8)
        = replicate (63 - sha_pending s) 0 @ replicate 56 0"
      using tail by (simp add: replicate_add [symmetric])
    then have "?t @ sha_padding (length m) = padded_tail s @ (replicate 56 0 @ ?len)"
      using False by (simp add: sha_padding_def p padded_tail_def)
    moreover have "overwrite (replicate 64 0) 56 ?len = replicate 56 0 @ ?len"
      by (simp add: overwrite_def)
    ultimately show ?thesis
      using False padded compress_blocks_block [of "replicate 56 0 @ ?len" _ "[]"]
      by (simp add: sha_finish_def Let_def n sha256_spec_def spec compress_blocks_short
          compress_blocks_block)
  qed
qed

lemma sha_foldl_represents:
  "sha_represents s m \<Longrightarrow> sha_represents (foldl sha_update s chunks) (m @ concat chunks)"
proof (induction chunks arbitrary: s m)
  case (Cons a chunks)
  show ?case using Cons.IH [OF sha_update_represents [OF Cons.prems]] by simp
qed simp

section \<open>Properties\<close>

text \<open>C40: the incremental hash is independent of how the input is cut. Absorbing any list of
  chunks, of any lengths, and finishing gives the SHA-256 of their concatenation as the padded
  one-pass reference computes it.\<close>

theorem sha256_streaming:
  "sha_finish (foldl sha_update sha_init chunks) = sha256_spec (concat chunks)"
  using sha_finish_represents [OF sha_foldl_represents [OF sha_init_represents]] by simp

lemma sha256_correct: "sha256 bs = sha256_spec bs"
  using sha_finish_represents [OF sha_foldl_represents [OF sha_init_represents, of "[bs]"]]
  by (simp add: sha256_def)

lemma length_sha_compress [simp]: "length (sha_compress h b) = 8"
  by (simp add: sha_compress_def split: prod.splits)

lemma length_sha_finish [simp]: "length (sha_finish s) = 32"
  by (simp add: sha_finish_def Let_def length_concat be_bytes32_def comp_def
      sum_list_triv split: prod.splits)

end
