(* ===== verification/Frame_Codec.thy ===== *)
theory Frame_Codec
  imports Sha256
begin

text \<open>
  \<open>src/wtp/frame_parser.cpp\<close>: the WTP frame format (magic, version and flag bytes, big-endian
  length, CRC-32C, payload) and the resynchronising stream parser. The paged \<open>FrameBuffer\<close> is
  the list of its bytes together with its capacity; the memory budget and the nullable
  allocator are the parameter \<open>memory\<close>.
\<close>

section \<open>Constants and checksums\<close>

definition frame_magic :: bytes where
  "frame_magic = [0x57, 0x54, 0x50, 0x46]"

definition frame_header_bytes :: nat where
  "frame_header_bytes = 16"

definition maximum_payload_bytes :: nat where
  "maximum_payload_bytes = 65536"

definition feed_chunk_bytes :: nat where
  "feed_chunk_bytes = 4096"

definition maximum_resync_discard_bytes :: nat where
  "maximum_resync_discard_bytes = 131072"

definition maximum_invalid_frames :: nat where
  "maximum_invalid_frames = 3"

definition partial_frame_timeout_ms :: u64 where
  "partial_frame_timeout_ms = 5000"

definition frame_buffer_maximum :: nat where
  "frame_buffer_maximum = 65536 + 16 + 4096"

lemmas frame_limits =
  frame_header_bytes_def maximum_payload_bytes_def feed_chunk_bytes_def
  maximum_resync_discard_bytes_def maximum_invalid_frames_def frame_buffer_maximum_def

definition write_u32_be :: "u32 \<Rightarrow> bytes" where
  "write_u32_be v =
     [ucast (drop_bit 24 v), ucast (drop_bit 16 v), ucast (drop_bit 8 v), ucast v]"

definition crc_bit :: "u32 \<Rightarrow> u32" where
  "crc_bit crc = drop_bit 1 crc XOR (if crc AND 1 \<noteq> 0 then 0x82f63b78 else 0)"

definition crc_byte :: "u32 \<Rightarrow> u8 \<Rightarrow> u32" where
  "crc_byte crc byte = (crc_bit ^^ 8) (crc XOR ucast byte)"

definition crc32c :: "bytes \<Rightarrow> u32 \<Rightarrow> u32" where
  "crc32c bs previous = foldl crc_byte (previous XOR 0xffffffff) bs XOR 0xffffffff"

section \<open>Encoding\<close>

definition encode_frame_header :: "nat \<Rightarrow> u32 \<Rightarrow> bytes" where
  "encode_frame_header payload_bytes checksum =
     (if payload_bytes = 0 \<or> payload_bytes > maximum_payload_bytes then replicate 16 0
      else frame_magic @ [1, 1, 0, 0] @ write_u32_be (of_nat payload_bytes) @ write_u32_be checksum)"

definition encode_frame :: "bytes \<Rightarrow> bytes" where
  "encode_frame payload =
     (if payload = [] \<or> length payload > maximum_payload_bytes then []
      else encode_frame_header (length payload) (crc32c payload 0) @ payload)"

section \<open>The parser\<close>

datatype frame_event = Payload bytes | InvalidFrame | Closed

record memory =
  input_admitted :: "nat \<Rightarrow> bool"
  input_allocated :: "nat \<Rightarrow> bool"

record frame_parser =
  buffer :: bytes
  capacity :: nat
  consecutive_invalid_frames :: nat
  resync_discard_bytes :: nat
  last_progress_ms :: u64
  partial :: bool
  closed :: bool

definition fresh_parser :: frame_parser where
  "fresh_parser = \<lparr>buffer = [], capacity = 0, consecutive_invalid_frames = 0,
     resync_discard_bytes = 0, last_progress_ms = 0, partial = False, closed = False\<rparr>"

text \<open>\<open>FrameBuffer::reserve\<close>: the new capacity, or failure.\<close>

definition reserve_buffer :: "memory \<Rightarrow> nat \<Rightarrow> nat \<Rightarrow> nat option" where
  "reserve_buffer mem cap n =
     (if n \<le> cap then Some cap
      else if n > frame_buffer_maximum then None
      else if input_allocated mem n then Some n
      else None)"

definition close_parser :: "frame_parser \<Rightarrow> frame_parser \<times> frame_event list" where
  "close_parser p =
     (if closed p then (p, [])
      else (p\<lparr>closed := True, buffer := [], capacity := 0, partial := False\<rparr>, [Closed]))"

definition discard_prefix :: "nat \<Rightarrow> frame_parser \<Rightarrow> frame_parser \<times> frame_event list" where
  "discard_prefix count p =
     (if count = 0 then (p, [])
      else
        let p = p\<lparr>buffer := drop count (buffer p)\<rparr>;
            p = p\<lparr>resync_discard_bytes :=
              (if count > maximum_resync_discard_bytes
                    - min (resync_discard_bytes p) maximum_resync_discard_bytes
               then maximum_resync_discard_bytes
               else resync_discard_bytes p + count)\<rparr>
        in if resync_discard_bytes p \<ge> maximum_resync_discard_bytes then close_parser p
           else (p, []))"

definition invalid_frame :: "frame_parser \<Rightarrow> frame_parser \<times> frame_event list" where
  "invalid_frame p =
     (let p = p\<lparr>consecutive_invalid_frames := consecutive_invalid_frames p + 1\<rparr>
      in if consecutive_invalid_frames p \<ge> maximum_invalid_frames
         then (case close_parser p of (p, events) \<Rightarrow> (p, InvalidFrame # events))
         else (p, [InvalidFrame]))"

text \<open>\<open>std::search\<close> for the magic: its first position, if any.\<close>

fun find_magic :: "bytes \<Rightarrow> nat option" where
  "find_magic [] = None"
| "find_magic (b # bs) =
     (if take 4 (b # bs) = frame_magic then Some 0 else map_option Suc (find_magic bs))"

definition valid_header :: "bytes \<Rightarrow> bool" where
  "valid_header buf \<longleftrightarrow>
     (let len = unat (read_u32_be (drop 8 buf)) in
      buf ! 4 = 1 \<and> buf ! 5 = 1 \<and> buf ! 6 = 0 \<and> buf ! 7 = 0 \<and>
      len \<ge> 1 \<and> len \<le> maximum_payload_bytes)"

text \<open>
  The branches of one iteration of the loop of \<open>FrameParser::process\<close>, on a buffer that starts
  with the magic. Each gives the new state, the events appended and whether the loop goes on.
\<close>

definition reject_header :: "frame_parser \<Rightarrow> frame_parser \<times> frame_event list \<times> bool" where
  "reject_header p =
     (case invalid_frame p of (p, events) \<Rightarrow>
        if closed p then (p, events, True)
        else (case discard_prefix 1 p of (p, further) \<Rightarrow> (p, events @ further, True)))"

definition reject_checksum ::
  "nat \<Rightarrow> frame_parser \<Rightarrow> frame_parser \<times> frame_event list \<times> bool" where
  "reject_checksum frame_size p =
     (case invalid_frame p of (p, events) \<Rightarrow>
        (if closed p then p else p\<lparr>buffer := drop frame_size (buffer p)\<rparr>, events, True))"

definition settle_frame :: "frame_parser \<Rightarrow> frame_parser" where
  "settle_frame p =
     p\<lparr>consecutive_invalid_frames := 0, resync_discard_bytes := 0, partial := False\<rparr>"

definition deliver_frame ::
  "memory \<Rightarrow> nat \<Rightarrow> frame_parser \<Rightarrow> frame_parser \<times> frame_event list \<times> bool" where
  "deliver_frame mem len p =
     (let frame_size = frame_header_bytes + len;
          payload = take len (drop frame_header_bytes (buffer p))
      in if length (buffer p) = frame_size then
           (settle_frame (p\<lparr>buffer := [], capacity := 0\<rparr>), [Payload payload], True)
         else if \<not> input_admitted mem len \<or> reserve_buffer mem 0 len = None then
           (case close_parser p of (p, events) \<Rightarrow> (p, events, False))
         else
           (settle_frame (p\<lparr>buffer := drop frame_size (buffer p)\<rparr>), [Payload payload], True))"

definition process_frame ::
  "memory \<Rightarrow> frame_parser \<Rightarrow> frame_parser \<times> frame_event list \<times> bool" where
  "process_frame mem p =
     (if length (buffer p) < frame_header_bytes then (p\<lparr>partial := buffer p \<noteq> []\<rparr>, [], False)
      else if \<not> valid_header (buffer p) then reject_header p
      else
        let len = unat (read_u32_be (drop 8 (buffer p)));
            frame_size = frame_header_bytes + len
        in if length (buffer p) < frame_size then (p\<lparr>partial := True\<rparr>, [], False)
           else if crc32c (take len (drop frame_header_bytes (buffer p))) 0
                     \<noteq> read_u32_be (drop 12 (buffer p))
           then reject_checksum frame_size p
           else deliver_frame mem len p)"

definition process_iteration ::
  "memory \<Rightarrow> frame_parser \<Rightarrow> frame_parser \<times> frame_event list \<times> bool" where
  "process_iteration mem p =
     (case find_magic (buffer p) of
        None \<Rightarrow>
          if buffer p = [] then process_frame mem p
          else
            let keep = min 3 (length (buffer p)) in
            (case discard_prefix (length (buffer p) - keep) p of (p, events) \<Rightarrow>
               (p\<lparr>partial := buffer p \<noteq> []\<rparr>, events, False))
      | Some at \<Rightarrow>
          (case discard_prefix at p of (p, events) \<Rightarrow>
             if closed p then (p, events, False)
             else (case process_frame mem p of (p, further, again) \<Rightarrow> (p, events @ further, again))))"

text \<open>Every iteration that goes on closes the parser or shortens the buffer.\<close>

lemma discard_prefix_shrinks:
  "discard_prefix n p = (p', es) \<Longrightarrow> \<not> closed p' \<Longrightarrow> buffer p' = drop n (buffer p)"
  by (auto simp: discard_prefix_def Let_def close_parser_def split: if_splits)

lemma invalid_frame_buffer:
  "invalid_frame p = (p', es) \<Longrightarrow> \<not> closed p' \<Longrightarrow> buffer p' = buffer p"
  by (auto simp: invalid_frame_def Let_def close_parser_def split: if_splits prod.splits)

lemma reject_header_progress:
  "reject_header p = (p', es, c) \<Longrightarrow> \<not> closed p' \<Longrightarrow> buffer p \<noteq> [] \<Longrightarrow>
     length (buffer p') < length (buffer p)"
  by (auto simp: reject_header_def dest!: discard_prefix_shrinks invalid_frame_buffer
      split: if_splits prod.splits)

lemma reject_checksum_progress:
  "reject_checksum n p = (p', es, c) \<Longrightarrow> \<not> closed p' \<Longrightarrow> buffer p \<noteq> [] \<Longrightarrow> 0 < n \<Longrightarrow>
     length (buffer p') < length (buffer p)"
  by (auto simp: reject_checksum_def dest!: invalid_frame_buffer split: if_splits prod.splits)

lemma deliver_frame_progress:
  "deliver_frame mem n p = (p', es, True) \<Longrightarrow> buffer p \<noteq> [] \<Longrightarrow>
     length (buffer p') < length (buffer p)"
  by (auto simp: deliver_frame_def settle_frame_def frame_header_bytes_def Let_def
      split: if_splits prod.splits)

lemma process_frame_progress:
  assumes "process_frame mem p = (p', es, True)" "\<not> closed p'"
  shows "length (buffer p') < length (buffer p)"
proof -
  have "buffer p \<noteq> []"
  proof
    assume "buffer p = []"
    then have "process_frame mem p = (p\<lparr>partial := False\<rparr>, [], False)"
      by (simp add: process_frame_def frame_header_bytes_def)
    with assms(1) show False by simp
  qed
  then show ?thesis
    using assms reject_header_progress reject_checksum_progress deliver_frame_progress
    by (auto simp: process_frame_def Let_def frame_header_bytes_def split: if_splits)
qed

lemma process_iteration_progress:
  assumes "process_iteration mem p = (p', es, True)" "\<not> closed p'"
  shows "length (buffer p') < length (buffer p)"
proof (cases "find_magic (buffer p)")
  case None
  with assms show ?thesis
    by (auto simp: process_iteration_def Let_def dest: process_frame_progress
        split: if_splits prod.splits)
next
  case (Some at)
  obtain q qs where q: "discard_prefix at p = (q, qs)" by fastforce
  with Some assms have "\<not> closed q" and r: "\<exists>rs. process_frame mem q = (p', rs, True)"
    by (auto simp: process_iteration_def split: if_splits prod.splits)
  then have "buffer q = drop at (buffer p)" using discard_prefix_shrinks q by blast
  moreover have "length (buffer p') < length (buffer q)"
    using r assms(2) process_frame_progress by blast
  ultimately show ?thesis by simp
qed

function process_loop :: "memory \<Rightarrow> frame_parser \<Rightarrow> frame_parser \<times> frame_event list" where
  "process_loop mem p =
     (if closed p then (p, [])
      else
        (case process_iteration mem p of (p', events, again) \<Rightarrow>
           if again then (case process_loop mem p' of (p'', further) \<Rightarrow> (p'', events @ further))
           else (p', events)))"
  by pat_completeness auto
termination
  by (relation "measure (\<lambda>(mem, p). if closed p then 0 else Suc (length (buffer p)))")
     (auto dest!: sym [of "(_, _, _)"] dest: process_iteration_progress)

declare process_loop.simps [simp del]

text \<open>\<open>check_timeout\<close>, \<open>end_of_stream\<close> and \<open>feed\<close>.\<close>

definition check_timeout :: "u64 \<Rightarrow> frame_parser \<Rightarrow> frame_parser \<times> frame_event list" where
  "check_timeout now_ms p =
     (if \<not> closed p \<and> partial p \<and> now_ms \<ge> last_progress_ms p \<and>
         now_ms - last_progress_ms p \<ge> partial_frame_timeout_ms
      then close_parser p else (p, []))"

definition end_of_stream :: "frame_parser \<Rightarrow> frame_parser" where
  "end_of_stream p = p\<lparr>buffer := [], capacity := 0, partial := False, closed := True\<rparr>"

definition grown_capacity :: "frame_parser \<Rightarrow> nat \<Rightarrow> nat" where
  "grown_capacity p count =
     (if length (buffer p) \<ge> frame_header_bytes then
        max (length (buffer p) + count)
          (frame_header_bytes + unat (read_u32_be (drop 8 (buffer p))))
      else
        min (maximum_payload_bytes + frame_header_bytes + feed_chunk_bytes)
          (max (length (buffer p) + count) (capacity p * 2)))"

definition make_room :: "memory \<Rightarrow> nat \<Rightarrow> frame_parser \<Rightarrow> nat option" where
  "make_room mem count p =
     (if length (buffer p) + count > capacity p then
        let wanted = grown_capacity p count in
        if input_admitted mem wanted then reserve_buffer mem (capacity p) wanted else None
      else Some (capacity p))"

function feed_chunks ::
  "memory \<Rightarrow> u64 \<Rightarrow> bytes \<Rightarrow> frame_parser \<Rightarrow> frame_parser \<times> frame_event list" where
  "feed_chunks mem now_ms bs p =
     (if bs = [] \<or> closed p then (p, [])
      else
        let count = min feed_chunk_bytes (length bs) in
        (case make_room mem count p of
           None \<Rightarrow> close_parser p
         | Some cap \<Rightarrow>
             (case process_loop mem (p\<lparr>capacity := cap, buffer := buffer p @ take count bs,
                     last_progress_ms := now_ms\<rparr>) of
                (p', events) \<Rightarrow>
                  (case feed_chunks mem now_ms (drop count bs) p' of
                     (p'', further) \<Rightarrow> (p'', events @ further)))))"
  by pat_completeness auto
termination
  by (relation "measure (\<lambda>(mem, now_ms, bs, p). length bs)") (auto simp: feed_chunk_bytes_def)

declare feed_chunks.simps [simp del]

definition feed :: "memory \<Rightarrow> u64 \<Rightarrow> bytes \<Rightarrow> frame_parser \<Rightarrow> frame_parser \<times> frame_event list" where
  "feed mem now_ms bs p =
     (if closed p then (p, [])
      else if bs = [] then check_timeout now_ms p
      else feed_chunks mem now_ms bs p)"

end
