(* ===== verification/Frame_Stream.thy ===== *)
theory Frame_Stream
  imports Frame_Codec
begin

text \<open>
  What the frame parser of \<^theory_text>\<open>Frame_Codec\<close> guarantees: bounded counters and buffer after
  every call, no write beyond the reserved capacity, and the round trip of a stream of encoded
  frames under every way of cutting it into reads.
\<close>

section \<open>Invariant: bounded counters, no overrun\<close>

definition counters_ok :: "frame_parser \<Rightarrow> bool" where
  "counters_ok p \<longleftrightarrow>
     (if closed p then buffer p = []
      else consecutive_invalid_frames p < maximum_invalid_frames \<and>
           resync_discard_bytes p < maximum_resync_discard_bytes \<and>
           length (buffer p) \<le> capacity p)"

definition parser_ok :: "frame_parser \<Rightarrow> bool" where
  "parser_ok p \<longleftrightarrow>
     counters_ok p \<and> length (buffer p) < frame_header_bytes + maximum_payload_bytes \<and>
     (length (buffer p) \<ge> frame_header_bytes \<longrightarrow> valid_header (buffer p))"

lemma fresh_parser_ok: "parser_ok fresh_parser"
  by (simp add: parser_ok_def counters_ok_def fresh_parser_def frame_limits)

lemma close_parser_ok: "close_parser p = (p', es) \<Longrightarrow> counters_ok p \<Longrightarrow> counters_ok p' \<and> closed p'"
  by (auto simp: close_parser_def counters_ok_def split: if_splits)

lemma discard_prefix_ok: "discard_prefix n p = (p', es) \<Longrightarrow> counters_ok p \<Longrightarrow> counters_ok p'"
  by (auto simp: discard_prefix_def Let_def counters_ok_def close_parser_def split: if_splits)

lemma invalid_frame_ok: "invalid_frame p = (p', es) \<Longrightarrow> counters_ok p \<Longrightarrow> counters_ok p'"
  by (auto simp: invalid_frame_def Let_def counters_ok_def close_parser_def
      split: if_splits prod.splits)

lemma settle_frame_ok:
  "counters_ok p \<Longrightarrow> \<not> closed p \<Longrightarrow> counters_ok (settle_frame (p\<lparr>buffer := drop n (buffer p)\<rparr>))"
  "\<not> closed p \<Longrightarrow> counters_ok (settle_frame (p\<lparr>buffer := [], capacity := c\<rparr>))"
  by (auto simp: settle_frame_def counters_ok_def frame_limits)

lemma reject_header_ok: "reject_header p = (p', es, c) \<Longrightarrow> counters_ok p \<Longrightarrow> counters_ok p'"
  by (auto simp: reject_header_def dest!: invalid_frame_ok dest: discard_prefix_ok
      split: if_splits prod.splits)

lemma reject_checksum_ok: "reject_checksum n p = (p', es, c) \<Longrightarrow> counters_ok p \<Longrightarrow> counters_ok p'"
  by (auto simp: reject_checksum_def counters_ok_def dest!: invalid_frame_ok
      split: if_splits prod.splits)

lemma deliver_frame_ok:
  "deliver_frame mem n p = (p', es, c) \<Longrightarrow> counters_ok p \<Longrightarrow> \<not> closed p \<Longrightarrow> counters_ok p'"
  by (auto simp: deliver_frame_def Let_def settle_frame_ok dest: close_parser_ok
      split: if_splits prod.splits)

lemma process_frame_ok:
  "process_frame mem p = (p', es, c) \<Longrightarrow> counters_ok p \<Longrightarrow> \<not> closed p \<Longrightarrow> counters_ok p'"
  by (auto simp: process_frame_def Let_def
      dest: reject_header_ok reject_checksum_ok deliver_frame_ok split: if_splits)
     (auto simp: counters_ok_def)

lemma counters_ok_partial [simp]: "counters_ok (p\<lparr>partial := b\<rparr>) = counters_ok p"
  by (simp add: counters_ok_def)

lemma process_iteration_ok:
  assumes "process_iteration mem p = (p', es, c)" "counters_ok p" "\<not> closed p"
  shows "counters_ok p'"
proof (cases "find_magic (buffer p)")
  case None
  show ?thesis
  proof (cases "buffer p = []")
    case True
    with None assms show ?thesis
      using process_frame_ok [of mem p p' es c] by (simp add: process_iteration_def)
  next
    case False
    with None assms show ?thesis
      by (auto simp: process_iteration_def Let_def dest: discard_prefix_ok split: prod.splits)
  qed
next
  case (Some at)
  obtain q qs where q: "discard_prefix at p = (q, qs)" by fastforce
  then have "counters_ok q" using discard_prefix_ok assms by blast
  with Some q assms show ?thesis
    by (auto simp: process_iteration_def dest: process_frame_ok split: if_splits prod.splits)
qed

text \<open>When the loop stops without closing, the buffer holds less than one frame.\<close>

lemma reject_header_goes_on: "reject_header p \<noteq> (p', es, False)"
  by (auto simp: reject_header_def split: if_splits prod.splits)

lemma reject_checksum_goes_on: "reject_checksum n p \<noteq> (p', es, False)"
  by (auto simp: reject_checksum_def split: if_splits prod.splits)

lemma close_parser_closes: "close_parser p = (p', es) \<Longrightarrow> closed p'"
  by (auto simp: close_parser_def split: if_splits)

lemma deliver_frame_stops: "deliver_frame mem n p = (p', es, False) \<Longrightarrow> closed p'"
  by (auto simp: deliver_frame_def Let_def dest: close_parser_closes split: if_splits prod.splits)

lemma valid_header_length:
  "valid_header b \<Longrightarrow> unat (read_u32_be (drop 8 b)) \<le> maximum_payload_bytes"
  by (simp add: valid_header_def Let_def)

lemma process_frame_stops:
  assumes "process_frame mem p = (p', es, False)" "\<not> closed p'"
  shows "buffer p' = buffer p"
    and "length (buffer p) \<ge> frame_header_bytes \<Longrightarrow> valid_header (buffer p)"
    and "length (buffer p) < frame_header_bytes + maximum_payload_bytes"
proof -
  let ?len = "unat (read_u32_be (drop 8 (buffer p)))"
  have "length (buffer p) < frame_header_bytes \<or>
      (valid_header (buffer p) \<and> length (buffer p) < frame_header_bytes + ?len)"
    using assms reject_header_goes_on reject_checksum_goes_on deliver_frame_stops
    by (auto simp: process_frame_def Let_def split: if_splits)
  then show "buffer p' = buffer p"
    and "length (buffer p) \<ge> frame_header_bytes \<Longrightarrow> valid_header (buffer p)"
    and "length (buffer p) < frame_header_bytes + maximum_payload_bytes"
    using assms valid_header_length [of "buffer p"]
    by (auto simp: process_frame_def Let_def frame_limits split: if_splits)
qed

lemma process_iteration_stops:
  assumes "process_iteration mem p = (p', es, False)" "\<not> closed p'"
  shows "(length (buffer p') \<ge> frame_header_bytes \<longrightarrow> valid_header (buffer p')) \<and>
     length (buffer p') < frame_header_bytes + maximum_payload_bytes"
proof (cases "find_magic (buffer p)")
  case None
  show ?thesis
  proof (cases "buffer p = []")
    case True
    with None assms show ?thesis
      using process_frame_stops [of mem p p' es] by (simp add: process_iteration_def frame_limits)
  next
    case False
    with None assms obtain q qs
      where q: "discard_prefix (length (buffer p) - min 3 (length (buffer p))) p = (q, qs)"
        and p': "p' = q\<lparr>partial := buffer q \<noteq> []\<rparr>"
      by (auto simp: process_iteration_def Let_def split: prod.splits)
    then have "length (buffer p') \<le> 3"
      using assms(2) by (auto dest!: discard_prefix_shrinks)
    then show ?thesis by (simp add: frame_limits)
  qed
next
  case (Some at)
  with assms obtain q qs where q: "process_frame mem q = (p', qs, False)"
    by (auto simp: process_iteration_def split: prod.splits if_splits)
  show ?thesis using process_frame_stops [OF q assms(2)] by simp
qed

lemma process_loop_ok:
  "process_loop mem p = (p', es) \<Longrightarrow> counters_ok p \<Longrightarrow> \<not> closed p \<Longrightarrow> parser_ok p'"
proof (induction mem p arbitrary: p' es rule: process_loop.induct)
  case (1 mem p)
  obtain q qs again where it: "process_iteration mem p = (q, qs, again)" by (cases "process_iteration mem p")
  have q: "counters_ok q" using process_iteration_ok it "1.prems" by blast
  show ?case
  proof (cases again)
    case False
    then have p': "p' = q" using it "1.prems" by (simp add: process_loop.simps [of mem p])
    show ?thesis
    proof (cases "closed q")
      case True
      then show ?thesis using p' q by (simp add: parser_ok_def counters_ok_def frame_limits)
    next
      case live: False
      then show ?thesis
        using process_iteration_stops [of mem p q qs] it False p' q by (simp add: parser_ok_def)
    qed
  next
    case True
    obtain r rs where rec: "process_loop mem q = (r, rs)" by fastforce
    have p': "p' = r" using it rec True "1.prems" by (simp add: process_loop.simps [of mem p])
    show ?thesis
    proof (cases "closed q")
      case True
      then have "r = q" using rec by (simp add: process_loop.simps [of mem q])
      then show ?thesis using True p' q by (simp add: parser_ok_def counters_ok_def frame_limits)
    next
      case False
      then show ?thesis using "1.IH" it True rec p' q "1.prems" by auto
    qed
  qed
qed

text \<open>The room made for a chunk holds the buffered bytes and the chunk.\<close>

lemma reserve_buffer_ge: "reserve_buffer mem cap n = Some c \<Longrightarrow> n \<le> c \<and> cap \<le> c"
  by (auto simp: reserve_buffer_def split: if_splits)

lemma make_room_fits:
  assumes "make_room mem count p = Some cap" "count \<le> feed_chunk_bytes"
  shows "length (buffer p) + count \<le> cap"
proof (cases "length (buffer p) + count > capacity p")
  case True
  then have "grown_capacity p count \<le> cap"
    using assms(1) by (auto simp: make_room_def Let_def dest: reserve_buffer_ge split: if_splits)
  moreover have "length (buffer p) + count \<le> grown_capacity p count"
    using assms(2) by (auto simp: grown_capacity_def frame_limits)
  ultimately show ?thesis by simp
next
  case False
  then show ?thesis using assms(1) by (simp add: make_room_def)
qed

lemma feed_chunks_ok:
  "feed_chunks mem now bs p = (p', es) \<Longrightarrow> parser_ok p \<Longrightarrow> parser_ok p'"
proof (induction mem now bs p arbitrary: p' es rule: feed_chunks.induct)
  case (1 mem now bs p)
  show ?case
  proof (cases "bs = [] \<or> closed p")
    case True
    then show ?thesis using "1.prems" by (auto simp: feed_chunks.simps [of mem now bs p])
  next
    case False
    define count where "count = min feed_chunk_bytes (length bs)"
    show ?thesis
    proof (cases "make_room mem count p")
      case None
      then have "close_parser p = (p', es)"
        using False "1.prems" by (auto simp: feed_chunks.simps [of mem now bs p] count_def)
      then show ?thesis
        using "1.prems" close_parser_ok [of p p' es]
        by (auto simp: parser_ok_def counters_ok_def frame_limits)
    next
      case (Some cap)
      let ?q = "p\<lparr>capacity := cap, buffer := buffer p @ take count bs, last_progress_ms := now\<rparr>"
      obtain r rs where r: "process_loop mem ?q = (r, rs)" by fastforce
      obtain t ts where t: "feed_chunks mem now (drop count bs) r = (t, ts)" by fastforce
      have "p' = t" using "1.prems" False Some r t
        by (auto simp: feed_chunks.simps [of mem now bs p] count_def)
      moreover have "counters_ok ?q"
        using "1.prems" False make_room_fits [OF Some]
        by (auto simp: parser_ok_def counters_ok_def count_def)
      then have "parser_ok r" using process_loop_ok [OF r] False by simp
      ultimately show ?thesis using "1.IH" False Some r t by (auto simp: count_def)
    qed
  qed
qed



section \<open>Decoding an encoded header\<close>

lemma read_write_u32: "read_u32_be (write_u32_be v @ rest) = v"
proof (rule bit_word_eqI)
  fix n assume "n < LENGTH(32)"
  consider "n < 8" | "8 \<le> n" "n < 16" | "16 \<le> n" "n < 24" | "24 \<le> n" by linarith
  then show "bit (read_u32_be (write_u32_be v @ rest)) n = bit v n"
    using \<open>n < LENGTH(32)\<close>
    by cases (auto simp: read_u32_be_def write_u32_be_def bit_simps nth_append less_diff_conv2)
qed

lemma crc32c_append: "crc32c (a @ b) p = crc32c b (crc32c a p)"
  by (simp add: crc32c_def xor.assoc)

definition good_payload :: "bytes \<Rightarrow> bool" where
  "good_payload p \<longleftrightarrow> p \<noteq> [] \<and> length p \<le> maximum_payload_bytes"

lemma encode_frame_parts:
  assumes "good_payload p"
  shows "encode_frame p = frame_magic @ [1, 1, 0, 0] @ write_u32_be (of_nat (length p))
      @ write_u32_be (crc32c p 0) @ p"
  using assms by (simp add: encode_frame_def encode_frame_header_def good_payload_def)

lemma length_write_u32 [simp]: "length (write_u32_be v) = 4"
  by (simp add: write_u32_be_def)

lemma length_magic [simp]: "length frame_magic = 4"
  by (simp add: frame_magic_def)

lemma length_encode_frame: "good_payload p \<Longrightarrow> length (encode_frame p) = 16 + length p"
  by (simp add: encode_frame_parts)

lemma frame_fields:
  assumes "good_payload p" "buf = take n (encode_frame p) @ rest" "n \<ge> 16" "n \<le> 16 + length p"
  shows "take 4 buf = frame_magic" and "valid_header buf"
    and "unat (read_u32_be (drop 8 buf)) = length p"
    and "read_u32_be (drop 12 buf) = crc32c p 0"
    and "drop 16 buf = take (n - 16) p @ rest"
proof -
  have len: "unat (of_nat (length p) :: u32) = length p"
    using assms(1) by (simp add: good_payload_def frame_limits unat_of_nat)
  have buf: "buf = frame_magic @ [1, 1, 0, 0] @ write_u32_be (of_nat (length p))
      @ write_u32_be (crc32c p 0) @ (take (n - 16) p @ rest)"
  proof -
    define h where "h = frame_magic @ [1, 1, 0, 0] @ write_u32_be (of_nat (length p))
        @ write_u32_be (crc32c p 0)"
    have "encode_frame p = h @ p" "length h = 16"
      using encode_frame_parts [OF assms(1)] by (simp_all add: h_def)
    then have "buf = h @ take (n - 16) p @ rest" using assms(2,3) by simp
    then show ?thesis by (simp add: h_def)
  qed
  show "take 4 buf = frame_magic" by (simp add: buf)
  have "drop 8 buf = write_u32_be (of_nat (length p)) @ write_u32_be (crc32c p 0) @ (take (n - 16) p @ rest)"
    by (simp add: buf)
  then show l: "unat (read_u32_be (drop 8 buf)) = length p"
    by (simp add: read_write_u32 len)
  have "drop 12 buf = write_u32_be (crc32c p 0) @ (take (n - 16) p @ rest)"
    by (simp add: buf)
  then show "read_u32_be (drop 12 buf) = crc32c p 0"
    by (simp add: read_write_u32)
  show "drop 16 buf = take (n - 16) p @ rest" by (simp add: buf)
  show "valid_header buf"
    using assms(1) l by (simp add: valid_header_def Let_def good_payload_def Suc_le_eq)
       (simp add: buf frame_magic_def)
qed

definition ample_memory :: "memory \<Rightarrow> bool" where
  "ample_memory mem \<longleftrightarrow> (\<forall>n \<le> frame_buffer_maximum. input_admitted mem n \<and> input_allocated mem n)"

lemma find_magic_head: "take 4 buf = frame_magic \<Longrightarrow> find_magic buf = Some 0"
  by (cases buf) (simp_all add: frame_magic_def)

lemma iteration_whole_frame:
  assumes "good_payload p" "ample_memory mem" "buffer s = encode_frame p @ rest" "\<not> closed s"
  shows "\<exists>s'. process_iteration mem s = (s', [Payload p], True) \<and> buffer s' = rest \<and>
    \<not> closed s'"
proof -
  have b: "buffer s = take (16 + length p) (encode_frame p) @ rest"
    using assms by (simp add: length_encode_frame)
  note f = frame_fields [OF assms(1) b]
  have big: "\<not> length (buffer s) < 16 + length p"
    using assms by (simp add: length_encode_frame)
  have p: "take (length p) (drop 16 (buffer s)) = p" using f(5) by simp
  have n: "length p \<le> 65536" using assms(1) by (simp add: good_payload_def frame_limits)
  have "process_iteration mem s = deliver_frame mem (length p) s"
    using f(1) [THEN find_magic_head] f(2,3,4) big p assms(4)
    by (simp add: process_iteration_def discard_prefix_def process_frame_def Let_def frame_limits
        split: prod.splits)
  moreover have "length (buffer s) = 16 + length p \<longleftrightarrow> rest = []"
    using assms by (simp add: length_encode_frame)
  moreover have "drop (16 + length p) (buffer s) = rest"
    using assms by (simp add: length_encode_frame)
  ultimately show ?thesis
    using assms(2,4) n p
    by (simp add: deliver_frame_def Let_def frame_limits settle_frame_def ample_memory_def
        reserve_buffer_def)
qed

lemma iteration_partial_frame:
  assumes "good_payload p" "buffer s = take n (encode_frame p)" "n < 16 + length p"
  shows "\<exists>s'. process_iteration mem s = (s', [], False) \<and> buffer s' = buffer s \<and>
    closed s' = closed s"
proof -
  have len: "length (buffer s) = n" using assms by (simp add: length_encode_frame)
  consider (few) "n < 4" | (head) "4 \<le> n" "n < 16" | (body) "16 \<le> n" by linarith
  then show ?thesis
  proof cases
    case few
    then have "buffer s = take n frame_magic"
      using assms by (simp add: encode_frame_parts)
    moreover have "find_magic (take n frame_magic) = None"
    proof -
      have "n = 0 \<or> n = 1 \<or> n = 2 \<or> n = 3" using few by linarith
      then show ?thesis by (elim disjE) (simp_all add: frame_magic_def)
    qed
    ultimately show ?thesis using few len
      by (simp add: process_iteration_def process_frame_def frame_limits discard_prefix_def
          Let_def split: prod.splits)
  next
    case head
    have "take 4 (buffer s) = frame_magic"
      using head assms by (simp add: encode_frame_parts)
    then show ?thesis using head len
      by (simp add: process_iteration_def find_magic_head discard_prefix_def process_frame_def
          frame_limits split: prod.splits)
  next
    case body
    note f = frame_fields [OF assms(1), of "buffer s" n "[]", simplified]
    show ?thesis using body len assms f
      by (simp add: process_iteration_def find_magic_head discard_prefix_def process_frame_def
          frame_limits Let_def split: prod.splits)
  qed
qed

definition frame_stream :: "bytes list \<Rightarrow> bytes" where
  "frame_stream ps = concat (map encode_frame ps)"

definition incomplete :: "bytes \<Rightarrow> bool" where
  "incomplete b \<longleftrightarrow> (\<exists>p n. good_payload p \<and> b = take n (encode_frame p) \<and> n < 16 + length p)"

lemma loop_stream:
  assumes "\<forall>p \<in> set ps. good_payload p" "ample_memory mem" "incomplete b"
    and "buffer s = frame_stream ps @ b" "\<not> closed s"
  shows "\<exists>s'. process_loop mem s = (s', map Payload ps) \<and> buffer s' = b \<and> \<not> closed s'"
  using assms(1,4,5)
proof (induction ps arbitrary: s)
  case Nil
  then obtain p n where "good_payload p" "buffer s = take n (encode_frame p)" "n < 16 + length p"
    and b: "buffer s = b" using assms(3) by (auto simp: incomplete_def frame_stream_def)
  then obtain s' where "process_iteration mem s = (s', [], False)" "buffer s' = b" "\<not> closed s'"
    using iteration_partial_frame [of p s n mem] Nil.prems by auto
  then show ?case using Nil.prems by (simp add: process_loop.simps [of mem s])
next
  case (Cons p ps)
  then have "buffer s = encode_frame p @ (frame_stream ps @ b)"
    by (simp add: frame_stream_def)
  then obtain s' where s': "process_iteration mem s = (s', [Payload p], True)"
      "buffer s' = frame_stream ps @ b" "\<not> closed s'"
    using iteration_whole_frame [of p mem s] Cons.prems assms(2) by auto
  then obtain t where "process_loop mem s' = (t, map Payload ps)" "buffer t = b" "\<not> closed t"
    using Cons.IH [of s'] Cons.prems by auto
  then show ?case using s' Cons.prems by (simp add: process_loop.simps [of mem s])
qed


section \<open>Any cut of a frame stream\<close>

lemma incomplete_Nil [simp]: "incomplete []"
  by (auto simp: incomplete_def good_payload_def frame_limits intro!: exI [of _ "[0]"] exI [of _ 0])

lemma split_stream:
  assumes "\<forall>p \<in> set ps. good_payload p" "x @ y = frame_stream ps"
  shows "\<exists>qs rs b. ps = qs @ rs \<and> x = frame_stream qs @ b \<and> b @ y = frame_stream rs \<and> incomplete b"
  using assms
proof (induction ps arbitrary: x)
  case Nil
  then show ?case by (intro exI [of _ "[]"]) (simp add: frame_stream_def)
next
  case (Cons p ps)
  then have xy: "x @ y = encode_frame p @ frame_stream ps" and p: "good_payload p"
    by (simp_all add: frame_stream_def)
  show ?case
  proof (cases "length x < length (encode_frame p)")
    case True
    moreover have "take (length x) (x @ y) = take (length x) (encode_frame p @ frame_stream ps)"
      by (simp only: xy)
    ultimately have "x = take (length x) (encode_frame p)" by simp
    then have "incomplete x"
      using True p length_encode_frame unfolding incomplete_def by metis
    then show ?thesis using Cons.prems(2) by (intro exI [of _ "[]"] exI [of _ "p # ps"] exI [of _ x])
        (simp add: frame_stream_def)
  next
    case False
    then obtain z where z: "x = encode_frame p @ z" "z @ y = frame_stream ps"
    proof -
      have "take (length (encode_frame p)) (x @ y) = encode_frame p" by (simp only: xy) simp
      then have x: "x = encode_frame p @ drop (length (encode_frame p)) x"
        using False append_take_drop_id [of "length (encode_frame p)" x] by simp
      have "encode_frame p @ (drop (length (encode_frame p)) x @ y)
          = (encode_frame p @ drop (length (encode_frame p)) x) @ y"
        by (simp only: append_assoc)
      also have "\<dots> = encode_frame p @ frame_stream ps"
        by (simp only: x [symmetric] xy)
      finally show thesis using that [OF x] by simp
    qed
    then obtain qs rs b where "ps = qs @ rs" "z = frame_stream qs @ b" "b @ y = frame_stream rs"
      "incomplete b" using Cons.IH [of z] Cons.prems by auto
    then show ?thesis using z by (intro exI [of _ "p # qs"] exI [of _ rs] exI [of _ b])
        (simp add: frame_stream_def)
  qed
qed

lemma make_room_ample:
  assumes "ample_memory mem" "parser_ok s" "count \<le> feed_chunk_bytes"
  shows "\<exists>cap. make_room mem count s = Some cap"
proof -
  have "grown_capacity s count \<le> frame_buffer_maximum"
    using assms(2,3) valid_header_length [of "buffer s"]
    by (auto simp: grown_capacity_def parser_ok_def frame_limits)
  then show ?thesis
    using assms(1) by (simp add: make_room_def Let_def ample_memory_def reserve_buffer_def)
qed

lemma feed_chunks_stream:
  assumes "ample_memory mem" "\<forall>p \<in> set ps. good_payload p"
    and "parser_ok s" "\<not> closed s" "buffer s @ bs @ rest = frame_stream ps"
    and "incomplete (buffer s)"
  shows "\<exists>s' qs rs. feed_chunks mem now bs s = (s', map Payload qs) \<and> ps = qs @ rs \<and>
    parser_ok s' \<and> \<not> closed s' \<and> buffer s' @ rest = frame_stream rs \<and> incomplete (buffer s')"
  using assms(2-6)
proof (induction "length bs" arbitrary: bs s ps rule: less_induct)
  case less
  show ?case
  proof (cases "bs = []")
    case True
    then show ?thesis using less.prems
      by (intro exI [of _ s] exI [of _ "[]"] exI [of _ ps]) (simp add: feed_chunks.simps)
  next
    case False
    define count where "count = min feed_chunk_bytes (length bs)"
    have count: "0 < count" "count \<le> feed_chunk_bytes" "count \<le> length bs"
      using False by (simp_all add: count_def feed_chunk_bytes_def)
    obtain cap where cap: "make_room mem count s = Some cap"
      using make_room_ample [OF assms(1) less.prems(2) count(2)] by blast
    let ?q = "s\<lparr>capacity := cap, buffer := buffer s @ take count bs, last_progress_ms := now\<rparr>"
    have "(buffer s @ take count bs) @ (drop count bs @ rest) = frame_stream ps"
      using less.prems(4) by (simp flip: append_assoc) (simp add: append_assoc)
    then obtain qs rs b where qs: "ps = qs @ rs" "buffer s @ take count bs = frame_stream qs @ b"
      "b @ (drop count bs @ rest) = frame_stream rs" "incomplete b"
      using split_stream [OF less.prems(1)] by blast
    then obtain t where t: "process_loop mem ?q = (t, map Payload qs)" "buffer t = b" "\<not> closed t"
      using loop_stream [of qs mem b ?q] assms(1) less.prems by auto
    have "counters_ok ?q"
      using less.prems make_room_fits [OF cap count(2)] count
      by (auto simp: parser_ok_def counters_ok_def)
    then have "parser_ok t" using process_loop_ok [OF t(1)] less.prems(3) by simp
    moreover have "length (drop count bs) < length bs" using count by simp
    moreover have "\<forall>p \<in> set rs. good_payload p" using less.prems(1) qs(1) by simp
    moreover have "buffer t @ drop count bs @ rest = frame_stream rs" "incomplete (buffer t)"
      using t(2) qs(3,4) by simp_all
    ultimately obtain u qs' rs' where "feed_chunks mem now (drop count bs) t = (u, map Payload qs')"
      "rs = qs' @ rs'" "parser_ok u" "\<not> closed u" "buffer u @ rest = frame_stream rs'"
      "incomplete (buffer u)"
      using less.hyps t(3) by blast
    then show ?thesis
      using False less.prems(3) cap t(1) qs(1)
      by (intro exI [of _ u] exI [of _ "qs @ qs'"] exI [of _ rs'])
         (simp add: feed_chunks.simps [of mem now bs s] count_def)
  qed
qed

text \<open>A reader of a connection: the pieces arrive one after another, each with its time.\<close>

fun feed_all ::
  "memory \<Rightarrow> (u64 \<times> bytes) list \<Rightarrow> frame_parser \<Rightarrow> frame_parser \<times> frame_event list" where
  "feed_all mem [] p = (p, [])"
| "feed_all mem ((now, bs) # pieces) p =
     (case feed mem now bs p of (p, events) \<Rightarrow>
        (case feed_all mem pieces p of (p, further) \<Rightarrow> (p, events @ further)))"

lemma incomplete_stream:
  assumes "incomplete (frame_stream ps)" "\<forall>p \<in> set ps. good_payload p"
  shows "ps = []"
proof (rule ccontr)
  assume "ps \<noteq> []"
  then obtain p ps' where ps: "ps = p # ps'" by (cases ps) auto
  let ?b = "frame_stream ps"
  have p: "good_payload p" and b: "?b = encode_frame p @ frame_stream ps'"
    using ps assms(2) by (auto simp: frame_stream_def)
  obtain q n where q: "good_payload q" "?b = take n (encode_frame q)" "n < 16 + length q"
    using assms(1) by (auto simp: incomplete_def)
  have len: "length ?b = n" using q by (simp add: length_encode_frame)
  have ge: "length ?b \<ge> 16 + length p" using p b by (simp add: length_encode_frame)
  have "unat (read_u32_be (drop 8 ?b)) = length p"
    using frame_fields(3) [OF p, of ?b "16 + length p" "frame_stream ps'"] b p
    by (simp add: length_encode_frame)
  moreover have "unat (read_u32_be (drop 8 ?b)) = length q"
    using frame_fields(3) [OF q(1), of ?b n "[]"] q len ge by simp
  ultimately show False using len ge q(3) by simp
qed

lemma feed_all_stream:
  assumes "ample_memory mem" "\<forall>p \<in> set ps. good_payload p"
    and "parser_ok s" "\<not> closed s" "incomplete (buffer s)"
    and "\<forall>bs \<in> snd ` set pieces. bs \<noteq> []"
    and "buffer s @ concat (map snd pieces) = frame_stream ps"
  shows "\<exists>s'. feed_all mem pieces s = (s', map Payload ps) \<and> parser_ok s' \<and> \<not> closed s' \<and>
    buffer s' = []"
  using assms(2-7)
proof (induction pieces arbitrary: s ps)
  case Nil
  then have "incomplete (frame_stream ps)" by simp
  then have "ps = []" using incomplete_stream Nil.prems by blast
  then show ?case using Nil.prems by (simp add: frame_stream_def)
next
  case (Cons piece pieces)
  obtain now bs where piece: "piece = (now, bs)" by fastforce
  then have bs: "bs \<noteq> []" using Cons.prems by simp
  have "buffer s @ bs @ concat (map snd pieces) = frame_stream ps"
    using Cons.prems piece by simp
  then obtain t qs rs where t: "feed_chunks mem now bs s = (t, map Payload qs)" "ps = qs @ rs"
    "parser_ok t" "\<not> closed t" "buffer t @ concat (map snd pieces) = frame_stream rs"
    "incomplete (buffer t)"
    using feed_chunks_stream [OF assms(1)] Cons.prems by blast
  moreover obtain u where "feed_all mem pieces t = (u, map Payload rs)" "parser_ok u" "\<not> closed u"
    "buffer u = []"
    using Cons.IH [of rs t] Cons.prems t by auto
  ultimately show ?case
    using piece bs Cons.prems(3) by (auto simp: feed_def)
qed

section \<open>Properties\<close>

text \<open>C15: round trip of the wire format. A stream of encoded frames, cut into any non-empty pieces
  that arrive at any times, is parsed into exactly the payloads that were encoded, in order; the
  parser stays open and is left with an empty buffer. Memory is assumed ample up to the largest
  buffer the parser can ask for.\<close>

theorem frame_stream_roundtrip:
  assumes "ample_memory mem"
    and "\<forall>p \<in> set ps. good_payload p"
    and "\<forall>bs \<in> snd ` set pieces. bs \<noteq> []"
    and "concat (map snd pieces) = concat (map encode_frame ps)"
  shows "\<exists>s. feed_all mem pieces fresh_parser = (s, map Payload ps) \<and> \<not> closed s \<and> buffer s = []"
  using feed_all_stream [OF assms(1,2) fresh_parser_ok _ _ assms(3)] assms(4)
  by (auto simp: fresh_parser_def frame_stream_def)

text \<open>C16: the parser is bounded on every input, valid or not. From a state within its limits, a
  call of \<open>feed\<close> gives a state that is closed with an empty buffer, or one with fewer than three
  consecutive invalid frames, fewer than 131,072 discarded bytes, less than one maximum frame
  buffered, and no more bytes buffered than the capacity reserved for them; and a closed parser
  never opens or reports again.\<close>

theorem feed_bounded:
  assumes "parser_ok p"
  shows "parser_ok (fst (feed mem now bs p)) \<and>
    (closed p \<longrightarrow> feed mem now bs p = (p, []))"
proof -
  have "parser_ok (fst (close_parser p))"
    using assms by (cases "closed p") (simp_all add: parser_ok_def frame_limits close_parser_def
        counters_ok_def)
  then have "parser_ok (fst (check_timeout now p))"
    using assms by (simp add: check_timeout_def)
  then show ?thesis
    using assms feed_chunks_ok [of mem now bs p] by (cases "feed_chunks mem now bs p") (auto simp: feed_def)
qed

theorem frame_stream_roundtrip_witness:
  "\<exists>s. feed_all \<lparr>input_admitted = (\<lambda>n. True), input_allocated = (\<lambda>n. True)\<rparr>
     [(0, take 5 (encode_frame [1, 2, 3])), (7, drop 5 (encode_frame [1, 2, 3]))] fresh_parser
       = (s, [Payload [1, 2, 3]]) \<and> \<not> closed s \<and> buffer s = []"
  using frame_stream_roundtrip [where mem = "\<lparr>input_admitted = (\<lambda>n. True), input_allocated = (\<lambda>n. True)\<rparr>"
      and ps = "[[1, 2, 3]]"
      and pieces = "[(0, take 5 (encode_frame [1, 2, 3])), (7, drop 5 (encode_frame [1, 2, 3]))]"]
  by (simp add: ample_memory_def good_payload_def maximum_payload_bytes_def encode_frame_def
      encode_frame_header_def frame_magic_def write_u32_be_def)

theorem feed_bounded_witness:
  "parser_ok (fst (feed \<lparr>input_admitted = (\<lambda>n. True), input_allocated = (\<lambda>n. False)\<rparr> 0 [87] fresh_parser))"
  using feed_bounded [of fresh_parser] fresh_parser_ok by blast

end
