(* ===== verification/Wspr.thy ===== *)
theory Wspr
  imports Prelude
begin

text \<open>
  \<open>src/encoding/wspr.cpp\<close>: station identity checks, Type 1 message packing and the WSPR channel
  code (rate 1/2 convolution, bit-reversal interleaving, synchronisation vector). The 50-bit
  payload is a \<open>64 word\<close>, the encoder register a \<open>32 word\<close>; symbols are the natural numbers
  the code keeps in bytes, and the theory shows they stay below 4.
\<close>

section \<open>Characters and station identity\<close>

definition letter :: "char \<Rightarrow> bool" where
  "letter c \<longleftrightarrow> of_char c \<ge> (65 :: nat) \<and> of_char c \<le> (90 :: nat)"

definition digit :: "char \<Rightarrow> bool" where
  "digit c \<longleftrightarrow> of_char c \<ge> (48 :: nat) \<and> of_char c \<le> (57 :: nat)"

definition code :: "char \<Rightarrow> nat" where
  "code c = (if digit c then of_char c - 48 else if letter c then of_char c - 65 + 10 else 36)"

definition between :: "char \<Rightarrow> char \<Rightarrow> char \<Rightarrow> bool" where
  "between lo hi c \<longleftrightarrow> of_char c \<ge> (of_char lo :: nat) \<and> of_char c \<le> (of_char hi :: nat)"

definition station_powers :: "nat list" where
  "station_powers = [0, 3, 7, 10, 13, 17, 20, 23, 27, 30, 33, 37, 40, 43, 47, 50, 53, 57, 60]"

definition valid_station_locator :: "string \<Rightarrow> bool" where
  "valid_station_locator locator \<longleftrightarrow>
     (length locator = 4 \<or> length locator = 6) \<and>
     between CHR ''A'' CHR ''R'' (locator ! 0) \<and> between CHR ''A'' CHR ''R'' (locator ! 1) \<and>
     digit (locator ! 2) \<and> digit (locator ! 3) \<and>
     (length locator = 4 \<or>
      between CHR ''A'' CHR ''X'' (locator ! 4) \<and> between CHR ''A'' CHR ''X'' (locator ! 5))"

definition valid_station_power :: "nat \<Rightarrow> bool" where
  "valid_station_power dbm \<longleftrightarrow> dbm \<in> set station_powers"

text \<open>The scan of a callsign, with its three flags.\<close>

fun scan_callsign :: "string \<Rightarrow> bool \<Rightarrow> bool \<Rightarrow> bool \<Rightarrow> bool" where
  "scan_callsign [] has_letter has_digit slash = (has_letter \<and> has_digit)"
| "scan_callsign (c # cs) has_letter has_digit slash =
     (if (\<not> letter c \<and> \<not> digit c \<and> c \<noteq> CHR ''/'') \<or> (c = CHR ''/'' \<and> slash) then False
      else scan_callsign cs (has_letter \<or> letter c) (has_digit \<or> digit c) (c = CHR ''/''))"

definition max_station_token :: nat where
  "max_station_token = 12"

definition valid_station_callsign :: "string \<Rightarrow> bool" where
  "valid_station_callsign call =
     (if length call < 3 \<or> length call > max_station_token then False
      else
        let call = (if hd call = CHR ''<'' \<and> last call = CHR ''>''
                    then butlast (tl call) else call)
        in if call = ''N0CALL'' \<or> length call < 3 \<or> hd call = CHR ''/'' \<or> last call = CHR ''/''
           then False
           else scan_callsign call False False False)"

definition valid_station_details :: "string \<Rightarrow> string \<Rightarrow> nat \<Rightarrow> bool" where
  "valid_station_details call locator dbm \<longleftrightarrow>
     valid_station_callsign call \<and> valid_station_locator locator \<and> valid_station_power dbm"

section \<open>The channel code\<close>

definition sync_vector :: "nat list" where
  "sync_vector =
    [1, 1, 0, 0, 0, 0, 0, 0, 1, 0, 0, 0, 1, 1, 1, 0, 0, 0, 1, 0, 0, 1, 0, 1,
     1, 1, 1, 0, 0, 0, 0, 0, 0, 0, 1, 0, 0, 1, 0, 1, 0, 0, 0, 0, 0, 0, 1, 0,
     1, 1, 0, 0, 1, 1, 0, 1, 0, 0, 0, 1, 1, 0, 1, 0, 0, 0, 0, 1, 1, 0, 1, 0,
     1, 0, 1, 0, 1, 0, 0, 1, 0, 0, 1, 0, 1, 1, 0, 0, 0, 1, 1, 0, 1, 0, 1, 0,
     0, 0, 1, 0, 0, 0, 0, 0, 1, 0, 0, 1, 0, 0, 1, 1, 1, 0, 1, 1, 0, 0, 1, 1,
     0, 1, 0, 0, 0, 1, 1, 1, 0, 0, 0, 0, 0, 1, 0, 1, 0, 0, 1, 1, 0, 0, 0, 0,
     0, 0, 0, 1, 1, 0, 1, 0, 1, 1, 0, 0, 0, 1, 1, 0, 0, 0]"

definition parity32 :: "u32 \<Rightarrow> nat" where
  "parity32 w = length (filter (bit w) [0..<32]) mod 2"

definition shift_in :: "u32 \<Rightarrow> bool \<Rightarrow> u32" where
  "shift_in shift b = push_bit 1 shift OR of_bool b"

definition payload_bit :: "u64 \<Rightarrow> nat \<Rightarrow> bool" where
  "payload_bit payload i = (if i < 50 then bit payload (49 - i) else False)"

fun convolve :: "u32 \<Rightarrow> bool list \<Rightarrow> nat list" where
  "convolve shift [] = []"
| "convolve shift (b # bs) =
     (let shift = shift_in shift b
      in parity32 (shift AND 0xf2d05351) # parity32 (shift AND 0xe4613c47) # convolve shift bs)"

definition reverse_bits8 :: "nat \<Rightarrow> nat" where
  "reverse_bits8 i = foldl (\<lambda>r b. push_bit 1 r OR (drop_bit b i AND 1)) 0 [0..<8]"

fun interleave :: "nat list \<Rightarrow> nat list \<Rightarrow> nat \<Rightarrow> nat list \<Rightarrow> nat list" where
  "interleave [] coded source result = result"
| "interleave (i # is) coded source result =
     (let r = reverse_bits8 i in
      if r < 162
      then interleave is coded (source + 1) (result[r := result ! r + 2 * coded ! source])
      else interleave is coded source result)"

definition wspr_channel :: "u64 \<Rightarrow> nat list" where
  "wspr_channel payload =
     interleave [0..<256] (convolve 0 (map (payload_bit payload) [0..<81])) 0 sync_vector"

section \<open>Type 1 messages\<close>

definition pad_call :: "nat \<Rightarrow> string \<Rightarrow> string" where
  "pad_call offset call =
     replicate offset CHR '' '' @ call @ replicate (6 - offset - length call) CHR '' ''"

definition packed_six :: "string \<Rightarrow> nat" where
  "packed_six padded =
     (let n = code (padded ! 0);
          n = n * 36 + code (padded ! 1);
          n = n * 10 + code (padded ! 2)
      in foldl (\<lambda>n i. n * 27 + code (padded ! i) - 10) n [3..<6])"

definition packed_grid_power :: "string \<Rightarrow> nat \<Rightarrow> nat" where
  "packed_grid_power grid dbm =
     ((179 - 10 * (of_char (grid ! 0) - 65) - (of_char (grid ! 2) - 48)) * 180
        + 10 * (of_char (grid ! 1) - 65) + (of_char (grid ! 3) - 48)) * 128 + dbm + 64"

definition join_payload :: "nat \<Rightarrow> nat \<Rightarrow> u64" where
  "join_payload n m = push_bit 22 (of_nat n) OR of_nat m"

definition wspr_type1 :: "string \<Rightarrow> string \<Rightarrow> nat \<Rightarrow> nat list option" where
  "wspr_type1 call grid dbm =
     (if call = ''N0CALL'' \<or> length call < 3 \<or> length call > 6 \<or> length grid \<noteq> 4 \<or>
         \<not> between CHR ''A'' CHR ''R'' (grid ! 0) \<or> \<not> between CHR ''A'' CHR ''R'' (grid ! 1) \<or>
         \<not> digit (grid ! 2) \<or> \<not> digit (grid ! 3) \<or> dbm \<notin> set station_powers
      then None
      else
        let offset = (if digit (call ! 2) then 0 else 1) in
        if offset + length call > 6 then None
        else
          let padded = pad_call offset call in
          if \<not> (letter (padded ! 0) \<or> digit (padded ! 0) \<or> padded ! 0 = CHR '' '') \<or>
             \<not> (letter (padded ! 1) \<or> digit (padded ! 1)) \<or>
             \<not> digit (padded ! 2) \<or> \<not> letter (padded ! 3)
          then None
          else if \<not> list_all (\<lambda>i. letter (padded ! i) \<or> padded ! i = CHR '' '') [3..<6] then None
          else if \<not> list_all (\<lambda>c. letter c \<or> digit c) call then None
          else Some (wspr_channel (join_payload (packed_six padded) (packed_grid_power grid dbm))))"

definition wspr_type1_from_station :: "string \<Rightarrow> string \<Rightarrow> nat \<Rightarrow> nat list option" where
  "wspr_type1_from_station call locator dbm =
     (if \<not> valid_station_details call locator dbm then None
      else wspr_type1 call (take 4 locator) dbm)"

section \<open>The interleaver is a permutation\<close>

definition interleave_order :: "nat list" where
  "interleave_order = filter (\<lambda>r. r < 162) (map reverse_bits8 [0..<256])"

lemma bit_shift_in: "bit (push_bit 1 r OR (drop_bit b i AND 1) :: nat) k
    \<longleftrightarrow> (if k = 0 then bit i b else bit r (k - 1))"
  by (auto simp only: bit_or_iff bit_push_bit_iff_nat bit_and_iff bit_1_iff bit_drop_bit_eq comp_apply
      add_0_right split: if_splits)

lemma bit_reverse_prefix:
  "bit (foldl (\<lambda>r b. push_bit 1 r OR (drop_bit b i AND 1)) (0 :: nat) [0..<n]) k
     \<longleftrightarrow> k < n \<and> bit i (n - 1 - k)"
proof (induction n arbitrary: k)
  case (Suc n)
  have "bit (foldl (\<lambda>r b. push_bit 1 r OR (drop_bit b i AND 1)) (0 :: nat) [0..<Suc n]) k
      \<longleftrightarrow> (if k = 0 then bit i n else k - 1 < n \<and> bit i (n - 1 - (k - 1)))"
    by (simp only: upt_Suc_append zero_le foldl_append foldl.simps bit_shift_in Suc)
  then show ?case by (cases k) auto
qed simp

lemma bit_reverse_bits8: "bit (reverse_bits8 i) k \<longleftrightarrow> k < 8 \<and> bit i (7 - k)"
  unfolding reverse_bits8_def bit_reverse_prefix by simp

lemma take_bit_8_256: "take_bit 8 (i :: nat) = i \<longleftrightarrow> i < 256"
  by (simp add: take_bit_nat_eq_self_iff)

lemma bit_nat_less_256: "i < (256 :: nat) \<Longrightarrow> bit i k \<Longrightarrow> k < 8"
  using bit_take_bit_iff [of 8 i k] by (simp add: take_bit_8_256 [THEN iffD2])

lemma reverse_bits8_less: "reverse_bits8 i < 256"
proof -
  have "take_bit 8 (reverse_bits8 i) = reverse_bits8 i"
    by (rule bit_eqI) (auto simp: bit_take_bit_iff bit_reverse_bits8)
  then show ?thesis by (simp add: take_bit_8_256)
qed

lemma reverse_bits8_involution:
  assumes "i < 256" shows "reverse_bits8 (reverse_bits8 i) = i"
proof (rule bit_eqI)
  fix n
  show "bit (reverse_bits8 (reverse_bits8 i)) n = bit i n"
  using bit_nat_less_256 [OF assms, of n] by (auto simp: bit_reverse_bits8)
qed

lemma interleave_order_perm: "distinct interleave_order" "set interleave_order = {0..<162}"
proof -
  have "inj_on reverse_bits8 {0..<256}"
    by (rule inj_on_inverseI [where g = reverse_bits8]) (simp add: reverse_bits8_involution)
  then show "distinct interleave_order"
    by (simp add: interleave_order_def distinct_map)
  have "r \<in> reverse_bits8 ` {0..<256}" if "r < 162" for r
    using that reverse_bits8_less [of r] by (intro image_eqI [of _ _ "reverse_bits8 r"]) (simp_all add: reverse_bits8_involution)
  then show "set interleave_order = {0..<162}"
    by (auto simp: interleave_order_def)
qed

lemma length_interleave_order: "length interleave_order = 162"
  using interleave_order_perm distinct_card [of interleave_order] by simp

text \<open>Each of the 162 coded bits is added to exactly one position of the sync vector.\<close>

lemma interleave_eq_fold:
  "interleave is coded s result =
     foldl (\<lambda>res (r, k). res[r := res ! r + 2 * coded ! k]) result
       (let rs = filter (\<lambda>r. r < 162) (map reverse_bits8 is) in zip rs [s..<s + length rs])"
proof (induction "is" coded s result rule: interleave.induct)
  case (2 i "is" coded source result)
  have "[s..<s + Suc n] = s # [Suc s..<Suc s + n]" for s n :: nat
    by (simp add: upt_conv_Cons del: upt_Suc)
  with 2 show ?case by (simp add: Let_def del: upt_Suc)
qed simp

lemma foldl_update_length:
  "length (foldl (\<lambda>res (r, k). res[r := res ! r + 2 * coded ! k]) result rks) = length result"
  by (induction rks arbitrary: result) auto

lemma foldl_update_nth:
  assumes "distinct (map fst rks)" "\<forall>r \<in> set (map fst rks). r < length result" "j < length rks"
  shows "foldl (\<lambda>res (r, k). res[r := res ! r + 2 * coded ! k]) result rks ! fst (rks ! j)
      = result ! fst (rks ! j) + (2 * coded ! snd (rks ! j) :: nat)"
  using assms
proof (induction rks arbitrary: result j)
  case (Cons rk rks)
  obtain r k where rk: "rk = (r, k)" by fastforce
  have other: "foldl (\<lambda>res (r, k). res[r := res ! r + 2 * coded ! k]) res rks ! q = res ! q"
    if "q \<notin> set (map fst rks)" for q res
    using that by (induction rks arbitrary: res) (auto simp: nth_list_update_neq)
  show ?case
  proof (cases j)
    case 0
    then show ?thesis using Cons.prems other [of r] by (simp add: rk)
  next
    case (Suc i)
    then have "fst (rks ! i) \<noteq> r" using Cons.prems by (auto simp: rk)
    then show ?thesis
      using Suc Cons.IH [of "result[r := result ! r + 2 * coded ! k]" i] Cons.prems by (simp add: rk)
  qed
qed simp

lemma length_sync_vector [simp]: "length sync_vector = 162"
  by (simp add: sync_vector_def)

lemma length_convolve [simp]: "length (convolve s bs) = 2 * length bs"
  by (induction s bs rule: convolve.induct) (simp_all add: Let_def)

lemma length_wspr_channel [simp]: "length (wspr_channel p) = 162"
  by (simp add: wspr_channel_def interleave_eq_fold foldl_update_length)

abbreviation coded_bits :: "u64 \<Rightarrow> nat list" where
  "coded_bits p \<equiv> convolve 0 (map (payload_bit p) [0..<81])"

lemma wspr_channel_nth:
  assumes "j < 162"
  shows "wspr_channel p ! (interleave_order ! j)
    = sync_vector ! (interleave_order ! j) + 2 * coded_bits p ! j"
proof -
  let ?rks = "zip interleave_order [0..<162]"
  have "wspr_channel p = foldl (\<lambda>res (r, k). res[r := res ! r + 2 * coded_bits p ! k]) sync_vector ?rks"
    using length_interleave_order
    by (simp add: wspr_channel_def interleave_eq_fold Let_def interleave_order_def)
  moreover have "map fst ?rks = interleave_order" by (simp add: length_interleave_order)
  ultimately show ?thesis
    using assms foldl_update_nth [of ?rks sync_vector j "coded_bits p"] interleave_order_perm
    by (simp add: length_interleave_order)
qed


section \<open>A receiver for the channel code\<close>

fun deconvolve :: "u32 \<Rightarrow> nat list \<Rightarrow> bool list" where
  "deconvolve shift (c0 # c1 # cs) =
     (let b = (parity32 (push_bit 1 shift AND 0xf2d05351) \<noteq> c0)
      in b # deconvolve (shift_in shift b) cs)"
| "deconvolve shift _ = []"

definition wspr_receive :: "nat list \<Rightarrow> u64" where
  "wspr_receive symbols =
     horner_sum of_bool 2
       (rev (take 50 (deconvolve 0 (map (\<lambda>j. symbols ! (interleave_order ! j) div 2) [0..<162]))))"

lemma parity32_shift_in:
  assumes "bit m 0"
  shows "parity32 (shift_in s b AND m) = (parity32 (push_bit 1 s AND m) + of_bool b) mod 2"
proof -
  have u: "[0..<32] = 0 # [1..<32]" by (simp add: upt_conv_Cons)
  have zero: "bit (shift_in s b AND m) 0 = b" "\<not> bit (push_bit 1 s AND m) 0"
  proof -
    have e: "bit (push_bit 1 s) 0 = False" by (simp only: bit_push_bit_iff) simp
    have o: "bit (of_bool b :: u32) 0 = b" by (cases b) (simp_all only: of_bool_eq bit_0_eq bit_1_iff simp_thms bot_apply bot_bool_def)
    show "bit (shift_in s b AND m) 0 = b" "\<not> bit (push_bit 1 s AND m) 0"
      unfolding shift_in_def bit_and_iff bit_or_iff e o using assms by simp_all
  qed
  have "bit (shift_in s b AND m) n = bit (push_bit 1 s AND m) n" if "n \<in> set [1..<32]" for n
  proof -
    have "n \<noteq> 0" using that unfolding set_upt atLeastLessThan_iff by linarith
    then show ?thesis
      unfolding shift_in_def bit_and_iff bit_or_iff by (cases b) (simp_all add: bit_1_iff)
  qed
  then have "filter (bit (shift_in s b AND m)) [1..<32] = filter (bit (push_bit 1 s AND m)) [1..<32]"
    by (intro filter_cong) simp_all
  then show ?thesis
    unfolding parity32_def u using zero by (cases b) (simp_all add: mod_Suc_eq)
qed

lemma parity32_less [simp]: "parity32 w < 2"
  by (simp add: parity32_def)

lemma deconvolve_convolve: "deconvolve s (convolve s bs) = bs"
proof (induction bs arbitrary: s)
  case (Cons b bs)
  have m: "bit (0xf2d05351 :: u32) 0" by simp
  have "parity32 (push_bit 1 s AND 0xf2d05351) < 2" by (rule parity32_less)
  then have "(parity32 (push_bit 1 s AND 0xf2d05351) \<noteq> parity32 (shift_in s b AND 0xf2d05351)) = b"
    unfolding parity32_shift_in [OF m] less_2_cases_iff by (cases b) auto
  then show ?case using Cons by (simp add: Let_def)
qed simp

lemma convolve_less: "c \<in> set (convolve s bs) \<Longrightarrow> c < 2"
  by (induction s bs rule: convolve.induct) (auto simp: Let_def)

lemma sync_vector_less: "c \<in> set sync_vector \<Longrightarrow> c < 2"
  by (auto simp: sync_vector_def)

lemma wspr_channel_at:
  assumes "j < 162"
  shows "wspr_channel p ! (interleave_order ! j) div 2 = coded_bits p ! j"
    and "wspr_channel p ! (interleave_order ! j) < 4"
    and "wspr_channel p ! (interleave_order ! j) mod 2 = sync_vector ! (interleave_order ! j)"
proof -
  have o: "interleave_order ! j < 162"
    using assms interleave_order_perm(2) length_interleave_order nth_mem [of j interleave_order] by auto
  then have "sync_vector ! (interleave_order ! j) < 2"
    by (intro sync_vector_less nth_mem) simp
  moreover have "coded_bits p ! j < 2"
    using assms by (intro convolve_less [of _ 0 "map (payload_bit p) [0..<81]"] nth_mem) simp
  ultimately show "wspr_channel p ! (interleave_order ! j) div 2 = coded_bits p ! j"
    and "wspr_channel p ! (interleave_order ! j) < 4"
    and "wspr_channel p ! (interleave_order ! j) mod 2 = sync_vector ! (interleave_order ! j)"
    using assms by (auto simp: wspr_channel_nth)
qed

lemma bit_less_50:
  assumes "p < (2 ^ 50 :: u64)" "bit p n"
  shows "n < 50"
proof -
  have "unat p < 2 ^ 50" using assms(1) by (simp add: word_less_nat_alt)
  then have "take_bit 50 (unat p) = unat p" by (simp add: take_bit_nat_eq_self_iff)
  moreover have "bit (unat p) n" using assms(2) by (simp add: bit_unsigned_iff)
  ultimately show ?thesis using bit_take_bit_iff [of 50 "unat p" n] by simp
qed

lemma wspr_receive_channel:
  assumes "p < 2 ^ 50"
  shows "wspr_receive (wspr_channel p) = p"
proof -
  have "map (\<lambda>j. wspr_channel p ! (interleave_order ! j) div 2) [0..<162] = coded_bits p"
    by (intro nth_equalityI) (simp_all add: wspr_channel_at)
  then have r: "wspr_receive (wspr_channel p)
      = horner_sum of_bool 2 (rev (take 50 (map (payload_bit p) [0..<81])))"
    by (simp add: wspr_receive_def deconvolve_convolve)
  have at: "payload_bit p (49 - n) = bit p n" if "n < 50" for n
  proof -
    have "49 - n < 50" by linarith
    with that show ?thesis by (simp add: payload_bit_def)
  qed
  show ?thesis
    unfolding r
  proof (rule bit_word_eqI)
    fix n assume "n < LENGTH(64)"
    then show "bit (horner_sum of_bool 2 (rev (take 50 (map (payload_bit p) [0..<81]))) :: u64) n = bit p n"
      using bit_less_50 [OF assms, of n] at
      by (auto simp: bit_horner_sum_bit_word_iff rev_nth)
  qed
qed

section \<open>Reading a Type 1 message back\<close>

definition uncode :: "nat \<Rightarrow> char" where
  "uncode k = (if k < 10 then char_of (48 + k) else if k < 36 then char_of (55 + k) else CHR '' '')"

definition unpack_six :: "nat \<Rightarrow> string" where
  "unpack_six n =
     [uncode (n div 27 div 27 div 27 div 10 div 36), uncode (n div 27 div 27 div 27 div 10 mod 36),
      uncode (n div 27 div 27 div 27 mod 10), uncode (n div 27 div 27 mod 27 + 10),
      uncode (n div 27 mod 27 + 10), uncode (n mod 27 + 10)]"

definition unpack_grid_power :: "nat \<Rightarrow> string \<times> nat" where
  "unpack_grid_power m =
     (let a = 179 - m div 128 div 180; b = m div 128 mod 180
      in ([char_of (65 + a div 10), char_of (65 + b div 10), char_of (48 + a mod 10),
           char_of (48 + b mod 10)], m mod 128 - 64))"

definition read_type1 :: "nat list \<Rightarrow> string \<times> string \<times> nat" where
  "read_type1 symbols =
     (let p = unat (wspr_receive symbols)
      in (filter (\<lambda>c. c \<noteq> CHR '' '') (unpack_six (p div 2 ^ 22)), unpack_grid_power (p mod 2 ^ 22)))"

lemma uncode_code:
  "letter c \<or> digit c \<or> c = CHR '' '' \<Longrightarrow> uncode (code c) = c"
  by (auto simp: uncode_def code_def letter_def digit_def)

lemma code_less: "code c < 37" and code_alnum: "letter c \<or> digit c \<Longrightarrow> code c < 36"
  and code_digit: "digit c \<Longrightarrow> code c < 10"
  and code_letter_space: "letter c \<or> c = CHR '' '' \<Longrightarrow> 10 \<le> code c"
  by (auto simp: code_def letter_def digit_def)

definition packable :: "string \<Rightarrow> bool" where
  "packable p \<longleftrightarrow> length p = 6 \<and> (letter (p ! 0) \<or> digit (p ! 0) \<or> p ! 0 = CHR '' '') \<and>
     (letter (p ! 1) \<or> digit (p ! 1)) \<and> digit (p ! 2) \<and>
     list_all (\<lambda>i. letter (p ! i) \<or> p ! i = CHR '' '') [3..<6]"

lemma last_digit:
  "r < b \<Longrightarrow> (q * b + r) mod b = (r :: nat)" "r < b \<Longrightarrow> (q * b + r) div b = (q :: nat)"
  by simp_all

lemma upt3: "[3..<6] = [3, 4, 5 :: nat]"
  by (simp add: upt_rec)

lemma packed_six_unpack:
  assumes "packable p"
  shows "unpack_six (packed_six p) = p" and "packed_six p < 2 ^ 28"
proof -
  define a b c where abc: "a = code (p ! 0)" "b = code (p ! 1)" "c = code (p ! 2)"
  define d e f where def: "d = code (p ! 3) - 10" "e = code (p ! 4) - 10" "f = code (p ! 5) - 10"
  have ls: "letter (p ! i) \<or> p ! i = CHR '' ''" if "i \<in> {3, 4, 5}" for i
    using assms that by (auto simp: packable_def upt3)
  have high: "d < 27" "e < 27" "f < 27"
    using code_less [of "p ! 3"] code_less [of "p ! 4"] code_less [of "p ! 5"]
    by (simp_all add: def)
  have low: "a < 37" "b < 36" "c < 10"
    using assms by (simp_all add: abc packable_def code_less code_alnum code_digit)
  note bounds = high low
  have codes: "code (p ! 3) = d + 10" "code (p ! 4) = e + 10" "code (p ! 5) = f + 10"
    using ls code_letter_space [of "p ! 3"] code_letter_space [of "p ! 4"]
      code_letter_space [of "p ! 5"] by (auto simp: def)
  have n: "packed_six p = ((((a * 36 + b) * 10 + c) * 27 + d) * 27 + e) * 27 + f"
    by (simp add: packed_six_def upt3 abc [symmetric] codes del: One_nat_def)
  show "packed_six p < 2 ^ 28" using bounds unfolding n by simp
  have steps: "packed_six p mod 27 = f" "packed_six p div 27 = (((a * 36 + b) * 10 + c) * 27 + d) * 27 + e"
    "((((a * 36 + b) * 10 + c) * 27 + d) * 27 + e) mod 27 = e"
    "((((a * 36 + b) * 10 + c) * 27 + d) * 27 + e) div 27 = ((a * 36 + b) * 10 + c) * 27 + d"
    "(((a * 36 + b) * 10 + c) * 27 + d) mod 27 = d"
    "(((a * 36 + b) * 10 + c) * 27 + d) div 27 = (a * 36 + b) * 10 + c"
    "((a * 36 + b) * 10 + c) mod 10 = c" "((a * 36 + b) * 10 + c) div 10 = a * 36 + b"
    "(a * 36 + b) mod 36 = b" "(a * 36 + b) div 36 = a"
    unfolding n by (simp_all only: last_digit bounds)
  have u: "uncode (code (p ! i)) = p ! i" if "i \<in> {0, 1, 2, 3, 4, 5}" for i
    by (rule uncode_code) (use that ls assms in \<open>auto simp: packable_def\<close>)
  have "unpack_six (packed_six p) = map uncode [a, b, c, d + 10, e + 10, f + 10]"
    unfolding unpack_six_def steps by simp
  also have "\<dots> = map (\<lambda>i. uncode (code (p ! i))) [0, 1, 2, 3, 4, 5]"
    by (simp only: abc codes [symmetric] list.map)
  also have "\<dots> = [p ! 0, p ! 1, p ! 2, p ! 3, p ! 4, p ! 5]"
    using u by simp
  also have "\<dots> = p"
    using assms by (intro nth_equalityI) (auto simp: packable_def less_Suc_eq numeral_eq_Suc)
  finally show "unpack_six (packed_six p) = p" .
qed


lemma packed_grid_power_unpack:
  assumes "length grid = 4" "between CHR ''A'' CHR ''R'' (grid ! 0)"
    "between CHR ''A'' CHR ''R'' (grid ! 1)" "digit (grid ! 2)" "digit (grid ! 3)" "dbm \<le> 60"
  shows "unpack_grid_power (packed_grid_power grid dbm) = (grid, dbm)"
    and "packed_grid_power grid dbm < 2 ^ 22"
proof -
  define a b c d where abcd: "a = of_char (grid ! 0) - (65 :: nat)" "b = of_char (grid ! 1) - (65 :: nat)"
    "c = of_char (grid ! 2) - (48 :: nat)" "d = of_char (grid ! 3) - (48 :: nat)"
  have bounds: "a < 18" "b < 18" "c < 10" "d < 10"
    using assms by (auto simp: abcd between_def digit_def)
  have chars: "char_of (65 + a) = grid ! 0" "char_of (65 + b) = grid ! 1"
    "char_of (48 + c) = grid ! 2" "char_of (48 + d) = grid ! 3"
    using assms by (simp_all add: abcd between_def digit_def)
  define q where "q = 179 - 10 * a - c"
  have q: "q < 180" "179 - q = a * 10 + c" using bounds by (simp_all add: q_def)
  have m: "packed_grid_power grid dbm = (q * 180 + (b * 10 + d)) * 128 + (dbm + 64)"
    by (simp add: packed_grid_power_def abcd [symmetric] q_def del: One_nat_def)
  have low: "b * 10 + d < 180" "dbm + 64 < 128" using bounds assms(6) by simp_all
  show "packed_grid_power grid dbm < 2 ^ 22" using low q(1) unfolding m by simp
  have steps: "packed_grid_power grid dbm mod 128 = dbm + 64"
    "packed_grid_power grid dbm div 128 = q * 180 + (b * 10 + d)"
    "(q * 180 + (b * 10 + d)) mod 180 = b * 10 + d" "(q * 180 + (b * 10 + d)) div 180 = q"
    "(b * 10 + d) mod 10 = d" "(b * 10 + d) div 10 = b"
    "(a * 10 + c) mod 10 = c" "(a * 10 + c) div 10 = a"
    unfolding m by (simp_all only: last_digit bounds low)
  have "[grid ! 0, grid ! 1, grid ! 2, grid ! 3] = grid"
    using assms(1) by (intro nth_equalityI) (auto simp: less_Suc_eq numeral_eq_Suc)
  then show "unpack_grid_power (packed_grid_power grid dbm) = (grid, dbm)"
    unfolding unpack_grid_power_def Let_def steps q(2) chars by simp
qed

lemma join_payload_parts:
  assumes "n < 2 ^ 28" "m < 2 ^ 22"
  shows "unat (join_payload n m) = n * 2 ^ 22 + m" and "join_payload n m < 2 ^ 50"
proof -
  have n: "unat (of_nat n :: u64) = n" and m: "unat (of_nat m :: u64) = m"
    using assms by (simp_all add: unat_of_nat)
  have mbit: "\<not> bit m k" if "22 \<le> k" for k
    using assms(2) that bit_take_bit_iff [of 22 m k] by (simp add: take_bit_nat_eq_self)
  have "of_nat m AND push_bit 22 (of_nat n) = (0 :: u64)"
    by (rule bit_word_eqI) (auto simp: bit_simps mbit)
  then have "join_payload n m = push_bit 22 (of_nat n) + of_nat m"
    by (simp add: join_payload_def disjunctive_add_eq_or and.commute)
  moreover have "push_bit 22 (of_nat n) = (of_nat (n * 2 ^ 22) :: u64)"
    by (simp add: push_bit_eq_mult)
  ultimately have j: "join_payload n m = of_nat (n * 2 ^ 22 + m)" by simp
  have "n * 2 ^ 22 + m < 2 ^ 50" using assms by simp
  then show v: "unat (join_payload n m) = n * 2 ^ 22 + m"
    unfolding j by (subst unat_of_nat) simp
  show "join_payload n m < 2 ^ 50"
    using \<open>n * 2 ^ 22 + m < 2 ^ 50\<close> by (simp add: word_less_nat_alt v)
qed

lemma valid_power_le: "dbm \<in> set station_powers \<Longrightarrow> dbm \<le> 60"
  by (auto simp: station_powers_def)

lemma wspr_type1_Some:
  assumes "wspr_type1 call grid dbm = Some symbols"
    and off: "off = (if digit (call ! 2) then 0 else 1)"
  shows "symbols = wspr_channel (join_payload (packed_six (pad_call off call)) (packed_grid_power grid dbm))"
    and "packable (pad_call off call)"
    and "list_all (\<lambda>c. letter c \<or> digit c) call"
    and "length grid = 4" "between CHR ''A'' CHR ''R'' (grid ! 0)"
    "between CHR ''A'' CHR ''R'' (grid ! 1)" "digit (grid ! 2)" "digit (grid ! 3)" "dbm \<le> 60"
proof -
  have c: "off + length call \<le> 6"
    using assms by (auto simp: wspr_type1_def Let_def split: if_splits)
  then have "length (pad_call off call) = 6" by (simp add: pad_call_def)
  with assms(1) show "packable (pad_call off call)"
    unfolding off by (simp add: wspr_type1_def Let_def packable_def split: if_splits)
  show "symbols = wspr_channel (join_payload (packed_six (pad_call off call)) (packed_grid_power grid dbm))"
    using assms(1) unfolding off by (simp add: wspr_type1_def Let_def split: if_splits)
  show "list_all (\<lambda>c. letter c \<or> digit c) call"
    using assms(1) by (simp add: wspr_type1_def Let_def split: if_splits)
  show "length grid = 4" "between CHR ''A'' CHR ''R'' (grid ! 0)"
    "between CHR ''A'' CHR ''R'' (grid ! 1)" "digit (grid ! 2)" "digit (grid ! 3)"
    using assms(1) by (simp_all add: wspr_type1_def split: if_splits)
  show "dbm \<le> 60"
    using assms(1) by (auto simp: wspr_type1_def dest: valid_power_le split: if_splits)
qed

lemma unpadded:
  assumes "list_all (\<lambda>c. letter c \<or> digit c) call"
  shows "filter (\<lambda>c. c \<noteq> CHR '' '') (pad_call n call) = call"
proof -
  have "c \<noteq> CHR '' ''" if "letter c \<or> digit c" for c
    using that by (auto simp: letter_def digit_def)
  then have "filter (\<lambda>c. c \<noteq> CHR '' '') call = call"
    using assms by (auto simp: list_all_iff intro: filter_True)
  then show ?thesis by (simp add: pad_call_def)
qed

section \<open>Properties\<close>

text \<open>The WSPR channel code loses nothing. For every 50-bit payload the 162 symbols determine
  the payload: a receiver that undoes the interleaving and runs the encoder register forward
  recovers it exactly. So two different payloads are never transmitted as the same frame.\<close>

theorem wspr_channel_roundtrip:
  assumes "p < 2 ^ 50"
  shows "wspr_receive (wspr_channel p) = p"
  using assms by (rule wspr_receive_channel)

text \<open>Every frame is well formed: 162 four-level symbols whose low bit is the fixed
  synchronisation vector, for every payload.\<close>

theorem wspr_channel_symbols:
  "length (wspr_channel p) = 162 \<and>
   (\<forall>i < 162. wspr_channel p ! i < 4 \<and> wspr_channel p ! i mod 2 = sync_vector ! i)"
proof -
  have "\<exists>j < 162. interleave_order ! j = i" if "i < 162" for i
    using that interleave_order_perm(2) length_interleave_order
    by (metis atLeastLessThan_iff in_set_conv_nth zero_le)
  then show ?thesis using wspr_channel_at by fastforce
qed

text \<open>C37: a Type 1 message carries its station identity without alteration. Whenever the encoder
  accepts a callsign, grid and power, reading the transmitted symbols back gives exactly these
  three values; the encoder never substitutes a different station.\<close>

theorem wspr_type1_roundtrip:
  assumes "wspr_type1 call grid dbm = Some symbols"
  shows "read_type1 symbols = (call, grid, dbm)"
proof -
  define off :: nat where "off = (if digit (call ! 2) then 0 else 1)"
  note w = wspr_type1_Some [OF assms off_def]
  note g = packed_grid_power_unpack [OF w(4-9)]
  note six = packed_six_unpack [OF w(2)]
  note j = join_payload_parts [OF six(2) g(2)]
  have "unat (join_payload (packed_six (pad_call off call)) (packed_grid_power grid dbm)) div 2 ^ 22
      = packed_six (pad_call off call)"
    "unat (join_payload (packed_six (pad_call off call)) (packed_grid_power grid dbm)) mod 2 ^ 22
      = packed_grid_power grid dbm"
    unfolding j(1) using g(2) by (simp_all only: last_digit)
  then show ?thesis
    unfolding read_type1_def w(1) wspr_receive_channel [OF j(2)] Let_def
    using six(1) g(1) unpadded [OF w(3)] by simp
qed

theorem wspr_type1_roundtrip_witness:
  "\<exists>symbols. wspr_type1 ''K1ABC'' ''FN42'' 37 = Some symbols \<and>
     read_type1 symbols = (''K1ABC'', ''FN42'', 37)"
proof -
  have "\<exists>symbols. wspr_type1 ''K1ABC'' ''FN42'' 37 = Some symbols"
    by (simp add: wspr_type1_def Let_def between_def digit_def letter_def station_powers_def
        pad_call_def upt3)
  then show ?thesis using wspr_type1_roundtrip by blast
qed

theorem wspr_channel_roundtrip_witness:
  "wspr_receive (wspr_channel 0x3FFFFFFFFFFFF) = 0x3FFFFFFFFFFFF"
  by (rule wspr_channel_roundtrip) simp

theorem wspr_channel_symbols_witness: "wspr_channel 5 ! 161 < 4 \<and> wspr_channel 5 ! 161 mod 2 = sync_vector ! 161"
  using wspr_channel_symbols [of 5] by simp

end
