(* ===== verification/Wspr_Plan.thy ===== *)
theory Wspr_Plan
  imports Wspr
begin

text \<open>
  \<open>src/encoding/wspr_plan.cpp\<close>: transmission plans for Type 1, 2 and 3 messages. A plan holds
  one or two frames and, for a Type 2 suffix whose code is shared by a second callsign, that
  alternate callsign. The 15-bit callsign hash is the \<open>lookup3\<close> mixing on \<open>32 word\<close> values.
\<close>

section \<open>Data\<close>

datatype wspr_type = Type1 | Type2 | Type3

record wspr_frame =
  frame_type :: wspr_type
  frame_payload :: u64
  frame_symbols :: "nat list"

record wspr_plan =
  plan_frames :: "wspr_frame list"
  type2_ambiguous :: bool
  alternate_call :: string

section \<open>Callsign hash\<close>

definition mix :: "u32 \<times> u32 \<times> u32 \<Rightarrow> u32 \<times> u32 \<times> u32" where
  "mix abc =
     (let (a, b, c) = abc;
          a = a - c; a = a XOR word_rotl 4 c; c = c + b;
          b = b - a; b = b XOR word_rotl 6 a; a = a + c;
          c = c - b; c = c XOR word_rotl 8 b; b = b + a;
          a = a - c; a = a XOR word_rotl 16 c; c = c + b;
          b = b - a; b = b XOR word_rotl 19 a; a = a + c;
          c = c - b; c = c XOR word_rotl 4 b; b = b + a
      in (a, b, c))"

definition hash_byte :: "string \<Rightarrow> nat \<Rightarrow> u32" where
  "hash_byte bs i = push_bit (8 * (i mod 4)) (of_nat (of_char (bs ! i)))"

definition hash_add :: "string \<Rightarrow> u32 \<times> u32 \<times> u32 \<Rightarrow> u32 \<times> u32 \<times> u32" where
  "hash_add bs abc =
     foldl (\<lambda>(a, b, c) i.
         if i < 4 then (a + hash_byte bs i, b, c)
         else if i < 8 then (a, b + hash_byte bs i, c)
         else (a, b, c + hash_byte bs i))
       abc [0..<length bs]"

fun hash_blocks :: "string \<Rightarrow> u32 \<times> u32 \<times> u32 \<Rightarrow> string \<times> u32 \<times> u32 \<times> u32" where
  "hash_blocks call abc =
     (if length call > 12 then hash_blocks (drop 12 call) (mix (hash_add (take 12 call) abc))
      else (call, abc))"

declare hash_blocks.simps [simp del]

definition final_mix :: "u32 \<times> u32 \<times> u32 \<Rightarrow> u32" where
  "final_mix abc =
     (let (a, b, c) = abc;
          c = c XOR b; c = c - word_rotl 14 b;
          a = a XOR c; a = a - word_rotl 11 c;
          b = b XOR a; b = b - word_rotl 25 a;
          c = c XOR b; c = c - word_rotl 16 b;
          a = a XOR c; a = a - word_rotl 4 c;
          b = b XOR a; b = b - word_rotl 14 a;
          c = c XOR b
      in c - word_rotl 24 b)"

definition wspr_hash :: "string \<Rightarrow> nat" where
  "wspr_hash call =
     (let a = 0xdeadbeef + of_nat (length call) + 146;
          (rest, abc) = hash_blocks call (a, a, a);
          c = (if rest = [] then snd (snd abc) else final_mix (hash_add rest abc))
      in unat (c AND 32767))"

section \<open>Frames\<close>

definition call_offset :: "string \<Rightarrow> nat" where
  "call_offset call = (if digit (call ! 2) then 0 else 1)"

definition base_call :: "string \<Rightarrow> nat option" where
  "base_call call =
     (if wspr_type1 call ''AA00'' 0 = None then None
      else Some (packed_six (pad_call (call_offset call) call)))"

definition make_frame :: "wspr_type \<Rightarrow> nat \<Rightarrow> nat \<Rightarrow> wspr_frame" where
  "make_frame type n m =
     (let payload = join_payload n (take_bit 22 m)
      in \<lparr>frame_type = type, frame_payload = payload, frame_symbols = wspr_channel payload\<rparr>)"

text \<open>The suffix after the slash, when the left part is a base call: one alphanumeric or two
  digits.\<close>

definition suffix_extension :: "string \<Rightarrow> nat option" where
  "suffix_extension right =
     (if length right = 1 \<and> (digit (right ! 0) \<or> letter (right ! 0))
      then Some (60000 + code (right ! 0))
      else if length right = 2 \<and> digit (right ! 0) \<and> digit (right ! 1)
      then Some (60026 + 10 * (of_char (right ! 0) - 48) + (of_char (right ! 1) - 48))
      else None)"

definition prefix_extension :: "string \<Rightarrow> nat" where
  "prefix_extension left =
     foldl (\<lambda>extension c. extension * 37 + code c)
       (foldl (\<lambda>extension i. extension * 37 + 36) 0 [0..<3 - length left]) left"

definition compound :: "string \<Rightarrow> nat \<Rightarrow> wspr_frame option" where
  "compound call dbm =
     (let left = takeWhile (\<lambda>c. c \<noteq> CHR ''/'') call;
          rest = dropWhile (\<lambda>c. c \<noteq> CHR ''/'') call
      in if rest = [] \<or> CHR ''/'' \<in> set (tl rest) then None
         else
           let right = tl rest in
           case (base_call left, suffix_extension right) of
             (Some n, Some extension) \<Rightarrow>
               Some (make_frame Type2 n (take_bit 15 extension * 128 + dbm + 66))
           | _ \<Rightarrow>
               (case base_call right of
                  None \<Rightarrow> None
                | Some n \<Rightarrow>
                    if left = [] \<or> length left > 3 \<or>
                       \<not> list_all (\<lambda>c. letter c \<or> digit c) left
                    then None
                    else
                      let extension = prefix_extension left in
                      Some (make_frame Type2 n
                        (take_bit 15 extension * 128 + dbm
                          + (if extension \<ge> 32768 then 66 else 65)))))"

definition hashed :: "string \<Rightarrow> string \<Rightarrow> nat \<Rightarrow> wspr_frame" where
  "hashed call grid dbm =
     make_frame Type3 (packed_six (map (\<lambda>i. grid ! ((i + 1) mod 6)) [0..<6]))
       (wspr_hash call * 128 + 63 - dbm)"

section \<open>Plans\<close>

definition letter_overlap :: "string \<Rightarrow> bool" where
  "letter_overlap suffix \<longleftrightarrow> length suffix = 1 \<and> between CHR ''Q'' CHR ''Z'' (suffix ! 0)"

definition numeric_overlap :: "string \<Rightarrow> bool" where
  "numeric_overlap suffix \<longleftrightarrow> length suffix = 2 \<and> suffix ! 0 = CHR ''0'' \<and> digit (suffix ! 1)"

definition alternate_of :: "string \<Rightarrow> string" where
  "alternate_of call =
     (let head = takeWhile (\<lambda>c. c \<noteq> CHR ''/'') call @ ''/'';
          suffix = tl (dropWhile (\<lambda>c. c \<noteq> CHR ''/'') call)
      in if letter_overlap suffix
         then head @ [CHR ''0'', char_of (48 + of_char (suffix ! 0) - (81 :: nat))]
         else head @ [char_of (81 + of_char (suffix ! 1) - (48 :: nat))])"

definition type2_plan :: "string \<Rightarrow> string \<Rightarrow> nat \<Rightarrow> wspr_frame \<Rightarrow> wspr_plan" where
  "type2_plan call locator dbm type2 =
     (let suffix = tl (dropWhile (\<lambda>c. c \<noteq> CHR ''/'') call);
          ambiguous = letter_overlap suffix \<or> numeric_overlap suffix
      in \<lparr>plan_frames = type2 # (if length locator = 6 then [hashed call locator dbm] else []),
          type2_ambiguous = ambiguous,
          alternate_call = (if ambiguous then alternate_of call else [])\<rparr>)"

definition single_plan :: "wspr_frame \<Rightarrow> wspr_plan" where
  "single_plan frame =
     \<lparr>plan_frames = [frame], type2_ambiguous = False, alternate_call = []\<rparr>"

definition make_plan :: "string \<Rightarrow> string \<Rightarrow> nat \<Rightarrow> wspr_plan option" where
  "make_plan call locator dbm =
     (if \<not> valid_station_details call locator dbm then None
      else if hd call = CHR ''<'' then
        if length locator \<noteq> 6 then None
        else
          let inner = butlast (tl call) in
          if base_call inner = None \<and> compound inner dbm = None then None
          else Some (single_plan (hashed inner locator dbm))
      else
        case wspr_type1_from_station call locator dbm of
          Some single \<Rightarrow>
            Some (single_plan \<lparr>frame_type = Type1,
              frame_payload = join_payload (the (base_call call)) (packed_grid_power locator dbm),
              frame_symbols = single\<rparr>)
        | None \<Rightarrow>
            (case compound call dbm of
               Some type2 \<Rightarrow> Some (type2_plan call locator dbm type2)
             | None \<Rightarrow> None))"

section \<open>Frames carry their payload\<close>

definition frame_ok :: "wspr_frame \<Rightarrow> bool" where
  "frame_ok f \<longleftrightarrow> frame_payload f < 2 ^ 50 \<and> frame_symbols f = wspr_channel (frame_payload f)"

lemma frame_ok_receive: "frame_ok f \<Longrightarrow> wspr_receive (frame_symbols f) = frame_payload f"
  by (simp add: frame_ok_def wspr_receive_channel)

lemma make_frame_ok: "n < 2 ^ 28 \<Longrightarrow> frame_ok (make_frame type n m)"
  using join_payload_parts(2) [of n "take_bit 22 m"] take_bit_nat_less_exp [of 22 m]
  by (simp add: make_frame_def frame_ok_def Let_def)

lemma base_call_less: "base_call call = Some n \<Longrightarrow> n < 2 ^ 28"
proof -
  assume "base_call call = Some n"
  then obtain y where y: "wspr_type1 call ''AA00'' 0 = Some y"
    and n: "n = packed_six (pad_call (call_offset call) call)"
    by (auto simp: base_call_def split: if_splits)
  show ?thesis
    unfolding n by (rule packed_six_unpack(2) [OF wspr_type1_Some(2) [OF y call_offset_def]])
qed

lemma base_call_length: "base_call call = Some n \<Longrightarrow> 3 \<le> length call \<and> length call \<le> 6"
  by (auto simp: base_call_def wspr_type1_def split: if_splits)

lemma compound_ok: "compound call dbm = Some f \<Longrightarrow> frame_ok f"
  by (auto simp: compound_def Let_def intro!: make_frame_ok dest: base_call_less
      split: if_splits option.splits)

lemma hashed_ok:
  assumes "valid_station_locator grid" "length grid = 6"
  shows "frame_ok (hashed call grid dbm)"
proof -
  have rot: "map (\<lambda>i. grid ! ((i + 1) mod 6)) [0..<6] = [grid!1, grid!2, grid!3, grid!4, grid!5, grid!0]"
  proof -
    have u6: "[0..<6] = [0, 1, 2, 3, 4, 5 :: nat]" by (simp add: upt_rec)
    show ?thesis unfolding u6 by (simp del: One_nat_def)
  qed
  have "packable [grid!1, grid!2, grid!3, grid!4, grid!5, grid!0]"
    using assms by (auto simp: packable_def upt3 valid_station_locator_def between_def letter_def digit_def)
  then show ?thesis unfolding hashed_def rot by (intro make_frame_ok packed_six_unpack)
qed

lemma type1_call_base:
  assumes "wspr_type1 call grid dbm = Some symbols"
  shows "base_call call = Some (packed_six (pad_call (call_offset call) call))"
proof -
  let ?p = "pad_call (if digit (call ! 2) then 0 else 1) call"
  have "call \<noteq> ''N0CALL''" "\<not> length call < 3" "\<not> length call > 6"
    "\<not> (if digit (call ! 2) then 0 else 1) + length call > 6"
    "letter (?p ! 0) \<or> digit (?p ! 0) \<or> ?p ! 0 = CHR '' ''" "letter (?p ! 1) \<or> digit (?p ! 1)"
    "digit (?p ! 2)" "letter (?p ! 3)"
    "list_all (\<lambda>i. letter (?p ! i) \<or> ?p ! i = CHR '' '') [3..<6]"
    "list_all (\<lambda>c. letter c \<or> digit c) call"
    using assms by (simp_all add: wspr_type1_def Let_def split: if_splits)
  moreover have "digit CHR ''0''" "between CHR ''A'' CHR ''R'' CHR ''A''" "0 \<in> set station_powers"
    by (simp_all add: digit_def between_def station_powers_def)
  ultimately have "wspr_type1 call ''AA00'' 0 \<noteq> None"
    unfolding wspr_type1_def Let_def by simp
  then show ?thesis by (simp add: base_call_def)
qed

lemma packed_grid_power_take: "4 \<le> length grid \<Longrightarrow> packed_grid_power (take 4 grid) dbm = packed_grid_power grid dbm"
  by (simp add: packed_grid_power_def)

lemma type1_frame_ok:
  assumes "wspr_type1_from_station call locator dbm = Some symbols"
  shows "frame_ok \<lparr>frame_type = Type1,
      frame_payload = join_payload (the (base_call call)) (packed_grid_power locator dbm),
      frame_symbols = symbols\<rparr>"
proof -
  have loc: "4 \<le> length locator" and t: "wspr_type1 call (take 4 locator) dbm = Some symbols"
    using assms by (auto simp: wspr_type1_from_station_def valid_station_details_def
        valid_station_locator_def split: if_splits)
  note w = wspr_type1_Some [OF t call_offset_def]
  have "the (base_call call) = packed_six (pad_call (call_offset call) call)"
    using type1_call_base [OF t] by simp
  then show ?thesis
    using w(1) join_payload_parts(2) [OF packed_six_unpack(2) [OF w(2)]
        packed_grid_power_unpack(2) [OF w(4-9)]]
    by (simp add: frame_ok_def packed_grid_power_take [OF loc])
qed

section \<open>Shared Type 2 suffixes\<close>

lemma split_at_slash:
  assumes "dropWhile (\<lambda>c. c \<noteq> CHR ''/'') call \<noteq> []"
  shows "call = takeWhile (\<lambda>c. c \<noteq> CHR ''/'') call @ ''/'' @ tl (dropWhile (\<lambda>c. c \<noteq> CHR ''/'') call)"
proof -
  let ?d = "dropWhile (\<lambda>c. c \<noteq> CHR ''/'') call"
  have "?d = CHR ''/'' # tl ?d" using assms hd_dropWhile [OF assms] by (cases ?d) auto
  moreover have "call = takeWhile (\<lambda>c. c \<noteq> CHR ''/'') call @ ?d" by simp
  ultimately show ?thesis by (metis append_Cons append_Nil)
qed

lemma slash_parts:
  assumes "CHR ''/'' \<notin> set left"
  shows "takeWhile (\<lambda>c. c \<noteq> CHR ''/'') (left @ ''/'' @ right) = left"
    and "dropWhile (\<lambda>c. c \<noteq> CHR ''/'') (left @ ''/'' @ right) = CHR ''/'' # right"
  using assms by (induction left) auto

lemma compound_suffix:
  assumes "CHR ''/'' \<notin> set left" "CHR ''/'' \<notin> set right" "length right < 3"
  shows "compound (left @ ''/'' @ right) dbm =
     (case (base_call left, suffix_extension right) of
        (Some n, Some e) \<Rightarrow> Some (make_frame Type2 n (take_bit 15 e * 128 + dbm + 66))
      | _ \<Rightarrow> None)"
proof -
  have "base_call right = None"
    using assms(3) base_call_length [of right] by (cases "base_call right") auto
  then show ?thesis
    using assms by (simp add: compound_def slash_parts [OF assms(1), simplified] split: option.splits)
qed

text \<open>The extension of a suffix: digits and letters first, then the hundred digit pairs, of which
  the first ten fall on the codes of the letters \<open>Q\<close> to \<open>Z\<close>.\<close>

lemma alternate_suffix_letter:
  assumes "letter_overlap [c]"
  shows "suffix_extension [CHR ''0'', char_of (48 + of_char c - (81 :: nat))] = suffix_extension [c]"
    and "suffix_extension [c] \<noteq> None"
  using assms by (auto simp: suffix_extension_def letter_overlap_def between_def digit_def letter_def
      code_def of_char_of)

lemma alternate_suffix_digits:
  assumes "numeric_overlap [CHR ''0'', d]"
  shows "suffix_extension [char_of (81 + of_char d - (48 :: nat))] = suffix_extension [CHR ''0'', d]"
    and "suffix_extension [CHR ''0'', d] \<noteq> None"
  using assms by (auto simp: suffix_extension_def numeric_overlap_def between_def digit_def letter_def
      code_def of_char_of)

lemma suffix_extension_collision:
  assumes "suffix_extension r = Some e" "suffix_extension r' = Some e" "r \<noteq> r'"
  shows "letter_overlap r \<and> numeric_overlap r' \<or> numeric_overlap r \<and> letter_overlap r'"
proof -
  have code_eq: "c = c'" if "code c = code c'" "letter c \<or> digit c" "letter c' \<or> digit c'" for c c'
    using that by (metis uncode_code)
  have one: "(\<exists>c. s = [c] \<and> c \<in> {z. digit z \<or> letter z} \<and> e = 60000 + code c)
      \<or> (\<exists>c d. s = [c, d] \<and> digit c \<and> digit d \<and> e = 60026 + 10 * (of_char c - 48) + (of_char d - 48))"
    if "suffix_extension s = Some e" for s
    using that by (auto simp: suffix_extension_def length_Suc_conv numeral_2_eq_2 split: if_splits)
  have digits: "c = c' \<and> d = d'"
    if "digit c" "digit d" "digit c'" "digit d'"
      "10 * (of_char c - 48) + (of_char d - 48) = 10 * (of_char c' - 48) + (of_char d' - 48 :: nat)"
    for c d c' d'
  proof -
    have ten: "of_char z - 48 < (10 :: nat)" "of_char z = (48 + (of_char z - 48) :: nat)" if "digit z" for z
      using that by (auto simp: digit_def)
    have "x = x' \<and> y = y'" if "10 * x + y = 10 * x' + y'" "y < 10" "y' < 10" for x y x' y' :: nat
      using that last_digit [of y 10 x] last_digit [of y' 10 x'] by (simp add: mult.commute)
    then have "of_char c - 48 = (of_char c' - 48 :: nat)" "of_char d - 48 = (of_char d' - 48 :: nat)"
      using that(5) ten(1) that(1-4) by blast+
    then have "of_char c = (of_char c' :: nat)" "of_char d = (of_char d' :: nat)"
      using ten(2) that(1-4) by metis+
    then show ?thesis by simp
  qed
  have mixed: "letter_overlap [c] \<and> numeric_overlap [a, b]"
    if "digit c \<or> letter c" "digit a" "digit b" "60000 + code c = 60026 + 10 * (of_char a - 48) + (of_char b - 48)"
    for a b c
  proof -
    have "code c < 36" "of_char a = (48 :: nat)"
      using that code_alnum [of c] by (auto simp: digit_def)
    moreover have "of_char a = (of_char CHR ''0'' :: nat) \<Longrightarrow> a = CHR ''0''" by (simp only: of_char_eq_iff)
    ultimately show ?thesis
      using that by (auto simp: letter_overlap_def numeric_overlap_def between_def code_def digit_def letter_def split: if_splits)
  qed
  from one [OF assms(1)] show ?thesis
  proof (elim disjE exE conjE)
    fix c assume r: "r = [c]" "c \<in> {z. digit z \<or> letter z}" "e = 60000 + code c"
    from one [OF assms(2)] show ?thesis
    proof (elim disjE exE conjE)
      fix c' assume "r' = [c']" "c' \<in> {z. digit z \<or> letter z}" "e = 60000 + code c'"
      then show ?thesis using r code_eq [of c c'] assms(3) by auto
    next
      fix a b assume "r' = [a, b]" "digit a" "digit b"
        "e = 60026 + 10 * (of_char a - 48) + (of_char b - 48)"
      then show ?thesis using r mixed [of c a b] by simp
    qed
  next
    fix a b assume r: "r = [a, b]" "digit a" "digit b"
        "e = 60026 + 10 * (of_char a - 48) + (of_char b - 48)"
    from one [OF assms(2)] show ?thesis
    proof (elim disjE exE conjE)
      fix c assume "r' = [c]" "c \<in> {z. digit z \<or> letter z}" "e = 60000 + code c"
      then show ?thesis using r mixed [of c a b] by simp
    next
      fix c d assume "r' = [c, d]" "digit c" "digit d"
        "e = 60026 + 10 * (of_char c - 48) + (of_char d - 48)"
      then show ?thesis using r digits [of a b c d] assms(3) by simp
    qed
  qed
qed

section \<open>Properties\<close>

text \<open>Every plan is transmittable as announced. An accepted station gets one or two frames,
  each with a 50-bit payload and the symbols of exactly that payload, so a receiver recovers the
  payload of every frame.\<close>

theorem plan_frames_sound:
  assumes "make_plan call locator dbm = Some plan"
  shows "1 \<le> length (plan_frames plan) \<and> length (plan_frames plan) \<le> 2 \<and>
    (\<forall>f \<in> set (plan_frames plan). frame_payload f < 2 ^ 50 \<and>
       frame_symbols f = wspr_channel (frame_payload f) \<and>
       wspr_receive (frame_symbols f) = frame_payload f)"
proof -
  have loc: "valid_station_locator locator"
    using assms by (auto simp: make_plan_def valid_station_details_def split: if_splits)
  have "1 \<le> length (plan_frames plan) \<and> length (plan_frames plan) \<le> 2 \<and>
    (\<forall>f \<in> set (plan_frames plan). frame_ok f)"
    using assms hashed_ok [OF loc] type1_frame_ok compound_ok
    by (auto simp: make_plan_def Let_def single_plan_def type2_plan_def
        split: if_splits option.splits)
  then show ?thesis using frame_ok_receive by (auto simp: frame_ok_def)
qed

lemma compound_of_plan:
  assumes "make_plan call locator dbm = Some plan" "type2_ambiguous plan"
  obtains left right where "call = left @ ''/'' @ right" "CHR ''/'' \<notin> set left"
    "CHR ''/'' \<notin> set right" "letter_overlap right \<or> numeric_overlap right"
    "compound call dbm = Some (hd (plan_frames plan))" "alternate_call plan = alternate_of call"
    "alternate_of call = (if letter_overlap right
       then left @ ''/'' @ [CHR ''0'', char_of (48 + of_char (right ! 0) - (81 :: nat))]
       else left @ ''/'' @ [char_of (81 + of_char (right ! 1) - (48 :: nat))])"
proof -
  let ?l = "takeWhile (\<lambda>c. c \<noteq> CHR ''/'') call" and ?d = "dropWhile (\<lambda>c. c \<noteq> CHR ''/'') call"
  obtain f where f: "compound call dbm = Some f" "plan = type2_plan call locator dbm f"
    using assms by (auto simp: make_plan_def Let_def single_plan_def split: if_splits option.splits)
  then have d: "?d \<noteq> []" "CHR ''/'' \<notin> set (tl ?d)"
    by (auto simp: compound_def Let_def split: if_splits)
  have "call = ?l @ ''/'' @ tl ?d" by (rule split_at_slash [OF d(1)])
  moreover have "CHR ''/'' \<notin> set ?l" by (auto dest: set_takeWhileD)
  moreover have "letter_overlap (tl ?d) \<or> numeric_overlap (tl ?d)"
    using f(2) assms(2) by (simp add: type2_plan_def Let_def)
  moreover have "alternate_call plan = alternate_of call" "f = hd (plan_frames plan)"
    using f(2) assms(2) by (simp_all add: type2_plan_def Let_def)
  ultimately show thesis
    using that [of ?l "tl ?d"] d(2) f(1) by (simp add: alternate_of_def Let_def)
qed

text \<open>The ambiguity report of a Type 2 plan is a real collision. When a plan is marked
  ambiguous, its alternate callsign is a different callsign whose Type 2 frame, at the same
  power, is the very frame the plan transmits.\<close>

theorem ambiguous_plan_collides:
  assumes "make_plan call locator dbm = Some plan" "type2_ambiguous plan"
  shows "alternate_call plan \<noteq> call \<and>
    compound (alternate_call plan) dbm = Some (hd (plan_frames plan))"
proof -
  obtain left right where parts: "call = left @ ''/'' @ right" "CHR ''/'' \<notin> set left"
    "CHR ''/'' \<notin> set right" and overlap: "letter_overlap right \<or> numeric_overlap right"
    and f: "compound call dbm = Some (hd (plan_frames plan))"
    and alt: "alternate_call plan = alternate_of call"
    "alternate_of call = (if letter_overlap right
       then left @ ''/'' @ [CHR ''0'', char_of (48 + of_char (right ! 0) - (81 :: nat))]
       else left @ ''/'' @ [char_of (81 + of_char (right ! 1) - (48 :: nat))])"
    by (rule compound_of_plan [OF assms])
  show ?thesis
  proof (cases "letter_overlap right")
    case True
    then obtain c where r: "right = [c]" by (auto simp: letter_overlap_def length_Suc_conv)
    note a = alternate_suffix_letter [of c]
    let ?s = "[CHR ''0'', char_of (48 + of_char c - (81 :: nat))]"
    have "CHR ''/'' \<notin> set ?s"
      using True r by (auto simp: letter_overlap_def between_def of_char_of dest!: arg_cong [of _ _ "of_char :: char \<Rightarrow> nat"])
    then have "compound (left @ ''/'' @ ?s) dbm = compound call dbm"
      unfolding parts(1) r using a True r parts by (subst (1 2) compound_suffix) simp_all
    then show ?thesis using alt f parts(1) r True by simp
  next
    case False
    then obtain d where r: "right = [CHR ''0'', d]" and n: "numeric_overlap right"
      using overlap by (auto simp: numeric_overlap_def length_Suc_conv numeral_2_eq_2)
    note a = alternate_suffix_digits [of d]
    let ?s = "[char_of (81 + of_char d - (48 :: nat))]"
    have "CHR ''/'' \<notin> set ?s"
      using n r by (auto simp: numeric_overlap_def digit_def of_char_of dest!: arg_cong [of _ _ "of_char :: char \<Rightarrow> nat"])
    then have "compound (left @ ''/'' @ ?s) dbm = compound call dbm"
      unfolding parts(1) r using a n r parts by (subst (1 2) compound_suffix) simp_all
    then show ?thesis using alt f parts(1) r False by simp
  qed
qed

text \<open>And the report is complete: two different suffixes with the same Type 2 extension are
  always one of the overlapping letters \<open>Q\<close> to \<open>Z\<close> and one of the overlapping pairs \<open>00\<close> to
  \<open>09\<close>, exactly the suffixes for which a plan is marked ambiguous.\<close>

theorem suffix_collision_complete:
  assumes "suffix_extension r = Some e" "suffix_extension r' = Some e" "r \<noteq> r'"
  shows "(letter_overlap r \<and> numeric_overlap r') \<or> (numeric_overlap r \<and> letter_overlap r')"
  using suffix_extension_collision [OF assms] .

theorem suffix_collision_complete_witness:
  "letter_overlap ''Q'' \<and> numeric_overlap ''00'' \<or> numeric_overlap ''Q'' \<and> letter_overlap ''00''"
  by (rule suffix_collision_complete [of _ 60026])
     (simp_all add: suffix_extension_def digit_def letter_def code_def)

lemma plan_example:
  "\<exists>plan. make_plan ''K1ABC/Q'' ''FN42'' 37 = Some plan \<and> type2_ambiguous plan"
proof -
  have "wspr_type1 ''K1ABC'' ''AA00'' 0 \<noteq> None"
    by (simp add: wspr_type1_def Let_def between_def digit_def letter_def station_powers_def
        pad_call_def upt3)
  then obtain f where "compound ''K1ABC/Q'' 37 = Some f"
    by (auto simp: compound_def base_call_def suffix_extension_def letter_def Let_def)
  moreover have "wspr_type1 ''K1ABC/Q'' ''FN42'' 37 = None"
    by (simp add: wspr_type1_def)
  ultimately show ?thesis
    by (simp add: make_plan_def valid_station_details_def valid_station_callsign_def Let_def
        valid_station_locator_def valid_station_power_def between_def digit_def letter_def
        station_powers_def max_station_token_def wspr_type1_from_station_def type2_plan_def
        single_plan_def letter_overlap_def)
qed

theorem plan_frames_sound_witness:
  "\<exists>plan. make_plan ''K1ABC/Q'' ''FN42'' 37 = Some plan \<and>
     wspr_receive (frame_symbols (hd (plan_frames plan))) = frame_payload (hd (plan_frames plan))"
proof -
  obtain plan where plan: "make_plan ''K1ABC/Q'' ''FN42'' 37 = Some plan" using plan_example by blast
  note sound = plan_frames_sound [OF plan]
  then have "hd (plan_frames plan) \<in> set (plan_frames plan)" by (cases "plan_frames plan") auto
  then show ?thesis using plan sound by blast
qed

theorem ambiguous_plan_collides_witness:
  "\<exists>plan. make_plan ''K1ABC/Q'' ''FN42'' 37 = Some plan \<and> alternate_call plan \<noteq> ''K1ABC/Q'' \<and>
     compound (alternate_call plan) 37 = Some (hd (plan_frames plan))"
  using plan_example ambiguous_plan_collides by blast

end
