(* ===== verification/Job_Model.thy ===== *)
theory Job_Model
  imports Sha256
begin

text \<open>
  The values a transmitter job is made of (\<open>src/wtp/job_service.hpp\<close>, lines 26-27, 62-475):
  the public states, the RF events and the paged container \<open>EventList\<close> that holds them, the job
  itself with its typed digest (\<open>job_service.cpp\<close>, lines 58-90), and the shared immutable list of
  frequency adjustments with its compact form.

  \<open>EventList\<close> is modelled at the level of its pages: eight optional pages of 64 slots, a count and
  a sticky failure. The allocator of \<open>wtp/input_buffer.hpp\<close> is the argument \<open>grant\<close> of the
  operations that may ask for a page: it tells, for one call, which page requests are served.
  A slot that holds no constructed event is \<open>blank_event\<close>, which no operation ever reads.
  The list that a client sees is \<open>items\<close>, and the lemmas show that every operation acts on it as
  the list operation of the same name.
\<close>

section \<open>Events and their container\<close>

datatype job_state = Empty | Loaded | Armed | Running | Complete | Aborted | Missed | Failed

record rf_event =
  offset_ns :: u64
  duration_ns :: u64
  rf_on :: bool
  frequency_nhz :: "u64 option"

datatype list_failure = NoFailure | LimitExceeded | AllocationFailed

record event_list =
  pages :: "rf_event list option list"
  event_count :: nat
  list_failure :: list_failure

definition page_events :: nat where
  "page_events = 64"

definition maximum_events :: nat where
  "maximum_events = 512"

definition blank_event :: rf_event where
  "blank_event = \<lparr>offset_ns = 0, duration_ns = 0, rf_on = False, frequency_nhz = None\<rparr>"

definition no_events :: event_list where
  "no_events = \<lparr>pages = replicate (maximum_events div page_events) None, event_count = 0,
     list_failure = NoFailure\<rparr>"

definition event_at :: "event_list \<Rightarrow> nat \<Rightarrow> rf_event" where
  "event_at l i = the (pages l ! (i div page_events)) ! (i mod page_events)"

definition write_slot :: "nat \<Rightarrow> rf_event \<Rightarrow> event_list \<Rightarrow> event_list" where
  "write_slot i e l =
     (let p = i div page_events in
      l\<lparr>pages := (pages l)[p := Some ((the (pages l ! p))[i mod page_events := e])]\<rparr>)"

definition items :: "event_list \<Rightarrow> rf_event list" where
  "items l = map (event_at l) [0..<event_count l]"

fun reserve_pages :: "(nat \<Rightarrow> bool) \<Rightarrow> nat list \<Rightarrow> event_list \<Rightarrow> bool \<times> event_list" where
  "reserve_pages grant [] l = (True, l)"
| "reserve_pages grant (p # ps) l =
     (if pages l ! p \<noteq> None then reserve_pages grant ps l
      else if grant p then
        reserve_pages grant ps (l\<lparr>pages := (pages l)[p := Some (replicate page_events blank_event)]\<rparr>)
      else (False, l\<lparr>list_failure := AllocationFailed\<rparr>))"

definition reserve_events :: "(nat \<Rightarrow> bool) \<Rightarrow> nat \<Rightarrow> event_list \<Rightarrow> bool \<times> event_list" where
  "reserve_events grant count l =
     (if count > maximum_events then (False, l\<lparr>list_failure := LimitExceeded\<rparr>)
      else reserve_pages grant [0..<(count + page_events - 1) div page_events] l)"

definition construct_at_end :: "rf_event \<Rightarrow> event_list \<Rightarrow> event_list" where
  "construct_at_end e l =
     (write_slot (event_count l) e l)\<lparr>event_count := event_count l + 1\<rparr>"

definition push_back :: "(nat \<Rightarrow> bool) \<Rightarrow> rf_event \<Rightarrow> event_list \<Rightarrow> bool \<times> event_list" where
  "push_back grant e l =
     (let (reserved, l) =
        (if event_count l \<ge> maximum_events then (False, l) else reserve_events grant (event_count l + 1) l)
      in if \<not> reserved then
           (False, if list_failure l = NoFailure then l\<lparr>list_failure := LimitExceeded\<rparr> else l)
         else (True, construct_at_end e l))"

definition clear_events :: "event_list \<Rightarrow> event_list" where
  "clear_events l = no_events"

definition resize_events :: "(nat \<Rightarrow> bool) \<Rightarrow> nat \<Rightarrow> event_list \<Rightarrow> bool \<times> event_list" where
  "resize_events grant count l =
     (if count < event_count l then (True, l\<lparr>event_count := count\<rparr>)
      else
        let (reserved, l) = reserve_events grant count l in
        if \<not> reserved then (False, l)
        else (True, (construct_at_end blank_event ^^ (count - event_count l)) l))"

fun push_all :: "(nat \<Rightarrow> bool) \<Rightarrow> rf_event list \<Rightarrow> event_list \<Rightarrow> bool \<times> event_list" where
  "push_all grant [] l = (True, l)"
| "push_all grant (e # es) l =
     (let (pushed, l) = push_back grant e l in
      if pushed then push_all grant es l else (False, l))"

definition assign_events :: "(nat \<Rightarrow> bool) \<Rightarrow> nat \<Rightarrow> rf_event \<Rightarrow> event_list \<Rightarrow> bool \<times> event_list" where
  "assign_events grant count e l =
     (let (reserved, l) = reserve_events grant count (clear_events l) in
      if \<not> reserved then (False, l) else push_all grant (replicate count e) l)"

definition events_of_list :: "(nat \<Rightarrow> bool) \<Rightarrow> rf_event list \<Rightarrow> event_list" where
  "events_of_list grant es =
     (let (reserved, l) = reserve_events grant (length es) no_events in
      if \<not> reserved then l else snd (push_all grant es l))"

definition copy_events :: "(nat \<Rightarrow> bool) \<Rightarrow> event_list \<Rightarrow> event_list" where
  "copy_events grant other =
     (let l = no_events\<lparr>list_failure := list_failure other\<rparr> in
      if list_failure other \<noteq> NoFailure then l
      else
        let (reserved, l) = reserve_events grant (event_count other) l in
        if \<not> reserved then l else snd (push_all grant (items other) l))"

definition move_events :: "event_list \<Rightarrow> event_list \<times> event_list" where
  "move_events other =
     (other, \<lparr>pages = replicate (maximum_events div page_events) None, event_count = 0,
              list_failure = NoFailure\<rparr>)"

definition valid_events :: "event_list \<Rightarrow> bool" where
  "valid_events l \<longleftrightarrow> list_failure l = NoFailure"

definition same_events :: "event_list \<Rightarrow> event_list \<Rightarrow> bool" where
  "same_events l r \<longleftrightarrow> list_failure l = list_failure r \<and> event_count l = event_count r \<and>
     list_all2 (=) (items l) (items r)"

section \<open>Jobs and their digest\<close>

text \<open>The optional \<open>MessagePresentation\<close> of a job is compiler provenance for display only; it is
  kept as the source has it and no operation of the model reads it, nor does the digest.\<close>

record message_presentation =
  message_text :: string
  message_frequency_nhz :: u64
  space_frequency_nhz :: u64
  dot_ns :: u64
  dash_ns :: u64
  repeat_gap_ns :: u64
  repeat_count :: u32

record job =
  job_id :: string
  profile :: string
  mode :: string
  total_duration_ns :: u64
  events :: event_list
  allow_frequency_adjustment :: bool
  message :: "message_presentation option"

definition digest_number :: "u64 \<Rightarrow> sha_state \<Rightarrow> sha_state" where
  "digest_number n d = sha_update d (map (\<lambda>i. ucast (drop_bit (i * 8) n)) [0..<8])"

definition digest_text :: "string \<Rightarrow> sha_state \<Rightarrow> sha_state" where
  "digest_text s d = sha_update (digest_number (of_nat (length s)) d) (map of_char s)"

definition digest_header :: "job \<Rightarrow> nat \<Rightarrow> sha_state" where
  "digest_header j count =
     digest_number (of_nat count)
      (digest_number (of_bool (allow_frequency_adjustment j))
       (digest_number (total_duration_ns j)
        (digest_text (mode j) (digest_text (profile j) (digest_text (job_id j) sha_init)))))"

definition digest_event :: "rf_event \<Rightarrow> sha_state \<Rightarrow> sha_state" where
  "digest_event e d =
     digest_number (case frequency_nhz e of None \<Rightarrow> 0 | Some f \<Rightarrow> f)
      (digest_number (of_bool (frequency_nhz e \<noteq> None))
       (digest_number (of_bool (rf_on e))
        (digest_number (duration_ns e) (digest_number (offset_ns e) d))))"

definition job_digest :: "job \<Rightarrow> bytes" where
  "job_digest j = sha_finish (fold digest_event (items (events j)) (digest_header j (event_count (events j))))"

section \<open>Frequency adjustments\<close>

record frequency_adjustment =
  event_index :: nat
  requested_frequency_nhz :: u64
  realized_frequency_nhz :: u64

record compact_adjustments =
  tones :: "(u64 \<times> u64) list"
  tone_events :: "u16 list"

record adjustment_list =
  adjustment_values :: "frequency_adjustment list option"
  adjustment_compact :: "compact_adjustments option"

definition tone_of :: "frequency_adjustment \<Rightarrow> u64 \<times> u64" where
  "tone_of a = (requested_frequency_nhz a, realized_frequency_nhz a)"

fun collect_tones :: "frequency_adjustment list \<Rightarrow> (u64 \<times> u64) list \<Rightarrow> (u64 \<times> u64) list option" where
  "collect_tones [] found = Some found"
| "collect_tones (a # as) found =
     (if event_index a > 65535 div 4 then None
      else if tone_of a \<notin> set found then
        (if length found = 4 then None else collect_tones as (found @ [tone_of a]))
      else collect_tones as found)"

fun index_of :: "'a \<Rightarrow> 'a list \<Rightarrow> nat" where
  "index_of x [] = 0"
| "index_of x (y # ys) = (if x = y then 0 else Suc (index_of x ys))"

definition sizeof_tones :: nat where
  "sizeof_tones = 64"

definition sizeof_adjustment :: nat where
  "sizeof_adjustment = 24"

definition pad_tones :: "(u64 \<times> u64) list \<Rightarrow> (u64 \<times> u64) list" where
  "pad_tones found = found @ replicate (4 - length found) (0, 0)"

definition pack_adjustment :: "(u64 \<times> u64) list \<Rightarrow> frequency_adjustment \<Rightarrow> u16" where
  "pack_adjustment found a =
     push_bit 2 (of_nat (event_index a)) OR of_nat (index_of (tone_of a) found)"

definition no_adjustments :: adjustment_list where
  "no_adjustments = \<lparr>adjustment_values = None, adjustment_compact = None\<rparr>"

definition adjustment_list_of :: "frequency_adjustment list \<Rightarrow> adjustment_list" where
  "adjustment_list_of vs =
     (if vs = [] then no_adjustments
      else
        case collect_tones vs [] of
          Some found \<Rightarrow>
            if sizeof_tones + length vs * 2 < length vs * sizeof_adjustment then
              no_adjustments\<lparr>adjustment_compact :=
                Some \<lparr>tones = pad_tones found, tone_events = map (pack_adjustment found) vs\<rparr>\<rparr>
            else no_adjustments\<lparr>adjustment_values := Some vs\<rparr>
        | None \<Rightarrow> no_adjustments\<lparr>adjustment_values := Some vs\<rparr>)"

definition adjustment_count :: "adjustment_list \<Rightarrow> nat" where
  "adjustment_count l =
     (case adjustment_compact l of
        Some c \<Rightarrow> length (tone_events c)
      | None \<Rightarrow> (case adjustment_values l of Some v \<Rightarrow> length v | None \<Rightarrow> 0))"

definition adjustment_at :: "adjustment_list \<Rightarrow> nat \<Rightarrow> frequency_adjustment" where
  "adjustment_at l i =
     (case adjustment_compact l of
        Some c \<Rightarrow>
          (let event = tone_events c ! i; pair = tones c ! unat (event AND 3) in
           \<lparr>event_index = unat (drop_bit 2 event), requested_frequency_nhz = fst pair,
            realized_frequency_nhz = snd pair\<rparr>)
      | None \<Rightarrow> the (adjustment_values l) ! i)"

definition adjustment_items :: "adjustment_list \<Rightarrow> frequency_adjustment list" where
  "adjustment_items l = map (adjustment_at l) [0..<adjustment_count l]"

section \<open>The container is a list\<close>

text \<open>The representation invariant of the pages, and the two primitive updates.\<close>

definition events_ok :: "event_list \<Rightarrow> bool" where
  "events_ok l \<longleftrightarrow> length (pages l) = 8 \<and> event_count l \<le> 512 \<and>
     (\<forall>p < 8. case pages l ! p of None \<Rightarrow> event_count l \<le> 64 * p | Some slots \<Rightarrow> length slots = 64)"

definition holds_room :: "event_list \<Rightarrow> nat \<Rightarrow> bool" where
  "holds_room l n \<longleftrightarrow> (\<forall>p < 8. 64 * p < n \<longrightarrow> pages l ! p \<noteq> None)"

lemma events_ok_empty [simp]: "events_ok (no_events\<lparr>list_failure := f\<rparr>)" "events_ok no_events"
  by (simp_all add: events_ok_def no_events_def maximum_events_def page_events_def)

lemma items_empty [simp]: "items (no_events\<lparr>list_failure := f\<rparr>) = []" "items no_events = []"
  by (simp_all add: items_def no_events_def)

lemma length_items [simp]: "length (items l) = event_count l"
  by (simp add: items_def)

lemma events_ok_failure [simp]: "events_ok (l\<lparr>list_failure := f\<rparr>) = events_ok l"
  by (simp add: events_ok_def cong: option.case_cong)

lemma items_failure [simp]: "items (l\<lparr>list_failure := f\<rparr>) = items l"
  by (simp add: items_def event_at_def)

lemma fresh_page:
  assumes "events_ok l" "p < 8" "pages l ! p = None"
  shows "events_ok (l\<lparr>pages := (pages l)[p := Some (replicate page_events blank_event)]\<rparr>)"
    and "items (l\<lparr>pages := (pages l)[p := Some (replicate page_events blank_event)]\<rparr>) = items l"
proof -
  have count: "event_count l \<le> 64 * p" and len: "length (pages l) = 8"
    using assms by (auto simp: events_ok_def split: option.splits dest!: spec [of _ p])
  show "events_ok (l\<lparr>pages := (pages l)[p := Some (replicate page_events blank_event)]\<rparr>)"
    using assms len by (auto simp: events_ok_def nth_list_update page_events_def split: option.splits)
  have "p \<noteq> i div 64" if "i < event_count l" for i
    using that count by auto
  then show "items (l\<lparr>pages := (pages l)[p := Some (replicate page_events blank_event)]\<rparr>) = items l"
    by (simp add: items_def event_at_def page_events_def)
qed

lemma reserve_pages_keeps:
  assumes "reserve_pages grant ps l = (ok, l')" "events_ok l" "\<forall>p \<in> set ps. p < 8"
  shows "events_ok l' \<and> items l' = items l \<and> event_count l' = event_count l \<and>
    (\<forall>p < 8. pages l ! p \<noteq> None \<longrightarrow> pages l' ! p \<noteq> None) \<and>
    (if ok then list_failure l' = list_failure l \<and> (\<forall>p \<in> set ps. pages l' ! p \<noteq> None)
     else list_failure l' \<noteq> NoFailure)"
  using assms
proof (induction grant ps l rule: reserve_pages.induct)
  case (2 grant p ps l)
  let ?l = "l\<lparr>pages := (pages l)[p := Some (replicate page_events blank_event)]\<rparr>"
  consider (held) "pages l ! p \<noteq> None" | (grant) "pages l ! p = None" "grant p"
    | (refused) "pages l ! p = None" "\<not> grant p" by blast
  then show ?case
  proof cases
    case held
    then show ?thesis using 2 by (auto split: if_splits)
  next
    case grant
    have keep: "\<forall>q < 8. pages l ! q \<noteq> None \<longrightarrow> pages ?l ! q \<noteq> None" "pages ?l ! p \<noteq> None"
      using 2 by (auto simp: events_ok_def nth_list_update)
    have "events_ok ?l" "items ?l = items l"
      using fresh_page [of l p] 2 grant by auto
    then show ?thesis
      using "2.IH"(2) [OF _ grant(2)] 2(3,5) grant keep by (auto split: if_splits)
  next
    case refused
    then show ?thesis using 2 by auto
  qed
qed auto

lemma reserve_keeps:
  assumes "reserve_events grant n l = (ok, l')" "events_ok l"
  shows "events_ok l'" "items l' = items l" "event_count l' = event_count l"
    "ok \<Longrightarrow> list_failure l' = list_failure l \<and> n \<le> 512 \<and> holds_room l' n"
    "\<not> ok \<Longrightarrow> list_failure l' \<noteq> NoFailure"
proof -
  consider (limit) "n > 512" | (pages) "n \<le> 512" by linarith
  then have "events_ok l' \<and> items l' = items l \<and> event_count l' = event_count l \<and>
      (if ok then list_failure l' = list_failure l \<and> n \<le> 512 \<and> holds_room l' n
       else list_failure l' \<noteq> NoFailure)"
  proof cases
    case limit
    then show ?thesis using assms by (auto simp: reserve_events_def maximum_events_def)
  next
    case pages
    let ?ps = "[0..<(n + page_events - 1) div page_events]"
    have "reserve_pages grant ?ps l = (ok, l')"
      using assms(1) pages by (simp add: reserve_events_def maximum_events_def)
    moreover have "\<forall>p \<in> set ?ps. p < 8" using pages by (auto simp: page_events_def)
    ultimately show ?thesis
      using reserve_pages_keeps [OF _ assms(2)] pages
      by (fastforce simp: holds_room_def page_events_def)
  qed
  then show "events_ok l'" "items l' = items l" "event_count l' = event_count l"
    "ok \<Longrightarrow> list_failure l' = list_failure l \<and> n \<le> 512 \<and> holds_room l' n"
    "\<not> ok \<Longrightarrow> list_failure l' \<noteq> NoFailure"
    by (auto split: if_splits)
qed

lemma construct_keeps:
  assumes "events_ok l" "event_count l < n" "n \<le> 512" "holds_room l n"
  shows "events_ok (construct_at_end e l)" "items (construct_at_end e l) = items l @ [e]"
    "holds_room (construct_at_end e l) n" "list_failure (construct_at_end e l) = list_failure l"
    "event_count (construct_at_end e l) = event_count l + 1"
proof -
  let ?c = "event_count l" and ?l = "construct_at_end e l"
  let ?p = "?c div 64"
  have len: "length (pages l) = 8" using assms by (simp add: events_ok_def)
  have p: "?p < 8" "64 * ?p < n" using assms by auto
  obtain slots where s: "pages l ! ?p = Some slots" "length slots = 64"
    using assms(1,4) p by (fastforce simp: events_ok_def holds_room_def split: option.splits)
  have pages: "pages ?l = (pages l)[?p := Some (slots[?c mod 64 := e])]"
    by (simp add: construct_at_end_def write_slot_def page_events_def s)
  show count: "event_count ?l = ?c + 1" by (simp add: construct_at_end_def write_slot_def Let_def)
  have held: "\<forall>q < 8. 64 * q < n \<longrightarrow> pages ?l ! q \<noteq> None"
  proof (intro allI impI)
    fix q :: nat assume "q < 8" "64 * q < n"
    then show "pages ?l ! q \<noteq> None"
      using assms(4) len by (cases "q = ?p") (auto simp: pages holds_room_def)
  qed
  then show "holds_room ?l n" by (simp add: holds_room_def)
  show "events_ok ?l" unfolding events_ok_def
  proof (intro conjI allI impI)
    show "length (pages ?l) = 8" by (simp add: pages len)
    show "event_count ?l \<le> 512" using assms count by simp
  next
    fix q :: nat assume q: "q < 8"
    show "case pages ?l ! q of None \<Rightarrow> event_count ?l \<le> 64 * q | Some slots \<Rightarrow> length slots = 64"
    proof (cases "q = ?p")
      case True
      then show ?thesis using s q by (simp add: pages len)
    next
      case False
      then have same: "pages ?l ! q = pages l ! q" by (simp add: pages)
      have ok: "case pages l ! q of None \<Rightarrow> ?c \<le> 64 * q | Some slots \<Rightarrow> length slots = 64"
        using assms(1) q by (simp add: events_ok_def)
      have "Suc ?c \<le> 64 * q" if "pages l ! q = None"
        using held q same that assms(2) by auto
      then show ?thesis using ok same by (auto simp: count split: option.splits)
    qed
  qed
  show "list_failure ?l = list_failure l"
    by (simp add: construct_at_end_def write_slot_def Let_def)
  have "event_at ?l i = event_at l i" if "i < ?c" for i
  proof (cases "i div 64 = ?p")
    case True
    then have "i mod 64 \<noteq> ?c mod 64" using that by (metis div_mult_mod_eq less_irrefl)
    then show ?thesis using True p len s by (simp add: event_at_def page_events_def pages)
  next
    case False
    then show ?thesis by (simp add: event_at_def page_events_def pages)
  qed
  moreover have "event_at ?l ?c = e"
    using p len s by (simp add: event_at_def page_events_def pages)
  ultimately show "items ?l = items l @ [e]" by (simp add: items_def count)
qed

lemma push_back_result:
  assumes "events_ok l" "push_back grant e l = (ok, l')"
  shows "events_ok l'"
    "ok \<Longrightarrow> items l' = items l @ [e] \<and> list_failure l' = list_failure l \<and> event_count l < 512"
    "\<not> ok \<Longrightarrow> items l' = items l \<and> list_failure l' \<noteq> NoFailure"
proof -
  have "events_ok l' \<and> (if ok then items l' = items l @ [e] \<and> list_failure l' = list_failure l \<and> event_count l < 512
      else items l' = items l \<and> list_failure l' \<noteq> NoFailure)"
  proof (cases "event_count l \<ge> 512")
    case True
    then show ?thesis using assms by (auto simp: push_back_def maximum_events_def split: if_splits)
  next
    case False
    obtain r l2 where r: "reserve_events grant (event_count l + 1) l = (r, l2)" by fastforce
    note k = reserve_keeps [OF r assms(1)]
    show ?thesis
    proof (cases r)
      case True
      then show ?thesis
        using assms(2) False r k construct_keeps [of l2 "event_count l + 1" e]
        by (auto simp: push_back_def maximum_events_def)
    next
      case ref: False
      then show ?thesis
        using assms(2) False r k by (auto simp: push_back_def maximum_events_def split: if_splits)
    qed
  qed
  then show "events_ok l'"
    "ok \<Longrightarrow> items l' = items l @ [e] \<and> list_failure l' = list_failure l \<and> event_count l < 512"
    "\<not> ok \<Longrightarrow> items l' = items l \<and> list_failure l' \<noteq> NoFailure"
    by (auto split: if_splits)
qed

lemma push_all_result:
  assumes "events_ok l" "push_all grant es l = (ok, l')"
  shows "events_ok l' \<and> (if ok then items l' = items l @ es \<and> list_failure l' = list_failure l
      else list_failure l' \<noteq> NoFailure)"
  using assms
proof (induction grant es l rule: push_all.induct)
  case (2 grant e es l)
  obtain p l2 where p: "push_back grant e l = (p, l2)" by fastforce
  then show ?case
    using 2 push_back_result [OF 2(2) p] by (cases p) (auto split: if_splits)
qed auto

lemma construct_many:
  assumes "events_ok l" "event_count l + k \<le> n" "n \<le> 512" "holds_room l n"
  shows "events_ok ((construct_at_end e ^^ k) l) \<and>
    items ((construct_at_end e ^^ k) l) = items l @ replicate k e \<and>
    list_failure ((construct_at_end e ^^ k) l) = list_failure l \<and>
    holds_room ((construct_at_end e ^^ k) l) n \<and>
    event_count ((construct_at_end e ^^ k) l) = event_count l + k"
  using assms
proof (induction k)
  case (Suc k)
  then show ?case
    using construct_keeps [of "(construct_at_end e ^^ k) l" n e]
    by (simp add: replicate_append_same)
qed simp

lemma resize_result:
  assumes "events_ok l" "resize_events grant n l = (ok, l')"
  shows "events_ok l' \<and> (if ok then items l' = take n (items l) @ replicate (n - event_count l) blank_event
           \<and> list_failure l' = list_failure l
      else items l' = items l \<and> list_failure l' \<noteq> NoFailure)"
proof (cases "n < event_count l")
  case True
  then have "events_ok (l\<lparr>event_count := n\<rparr>)" using assms(1)
    by (fastforce simp: events_ok_def split: option.splits)
  moreover have "items (l\<lparr>event_count := n\<rparr>) = take n (items l)"
    using True by (simp add: items_def take_map event_at_def)
  moreover have "list_failure (l\<lparr>event_count := n\<rparr>) = list_failure l" by simp
  ultimately show ?thesis using True assms(2) by (auto simp: resize_events_def)
next
  case False
  obtain r l2 where r: "reserve_events grant n l = (r, l2)" by fastforce
  note k = reserve_keeps [OF r assms(1)]
  show ?thesis
    using assms(2) False r k construct_many [of l2 "n - event_count l" n blank_event]
    by (cases r) (auto simp: resize_events_def)
qed

lemma assign_result:
  assumes "assign_events grant n e l = (ok, l')"
  shows "events_ok l' \<and> (if ok then items l' = replicate n e \<and> list_failure l' = NoFailure
      else list_failure l' \<noteq> NoFailure)"
proof -
  obtain r l2 where r: "reserve_events grant n no_events = (r, l2)" by fastforce
  note k = reserve_keeps [OF r]
  have nf: "list_failure no_events = NoFailure" by (simp add: no_events_def)
  show ?thesis
    using assms r k nf push_all_result [of l2 grant "replicate n e" ok l']
    by (cases r) (auto simp: assign_events_def clear_events_def)
qed

lemma copy_result:
  "events_ok (copy_events grant l) \<and>
   (list_failure (copy_events grant l) = NoFailure \<longrightarrow> items (copy_events grant l) = items l) \<and>
   (list_failure l \<noteq> NoFailure \<longrightarrow> list_failure (copy_events grant l) = list_failure l)"
proof (cases "list_failure l = NoFailure")
  case True
  obtain r l2 where r: "reserve_events grant (event_count l) (no_events\<lparr>list_failure := NoFailure\<rparr>) = (r, l2)"
    by fastforce
  obtain ok l3 where p: "push_all grant (items l) l2 = (ok, l3)" by fastforce
  note k = reserve_keeps [OF r]
  show ?thesis
    using True r k p push_all_result [OF _ p]
    by (cases r; cases ok) (auto simp: copy_events_def)
qed (auto simp: copy_events_def)

lemma same_events_iff:
  "same_events l r \<longleftrightarrow> list_failure l = list_failure r \<and> items l = items r"
  by (auto simp: same_events_def list.rel_eq dest: arg_cong [of _ _ length])

section \<open>The compact adjustment list loses nothing\<close>

lemma index_of_nth: "x \<in> set xs \<Longrightarrow> index_of x xs < length xs \<and> xs ! index_of x xs = x"
  by (induction xs) auto

lemma collect_tones_result:
  assumes "collect_tones as found = Some found'" "length found \<le> 4"
  shows "length found' \<le> 4 \<and> set found \<subseteq> set found' \<and>
    (\<forall>a \<in> set as. event_index a \<le> 16383 \<and> tone_of a \<in> set found')"
  using assms by (induction as found rule: collect_tones.induct) (auto split: if_splits)

lemma unpack_index:
  assumes "n \<le> 16383" "t < (4 :: nat)"
  shows "unat (drop_bit 2 (push_bit 2 (of_nat n) OR of_nat t :: u16)) = n"
    and "unat ((push_bit 2 (of_nat n) OR of_nat t :: u16) AND 3) = t"
proof -
  have eq: "(push_bit 2 (of_nat n) OR of_nat t :: u16) = of_nat (push_bit 2 n OR t)"
    by (simp only: of_nat_or_eq of_nat_push_bit)
  have "t = take_bit 2 t" using assms(2) by (simp add: take_bit_nat_eq_self)
  then have "push_bit 2 n AND t = 0"
    by (metis bit_and_iff bit_eqI bit_push_bit_iff_nat bit_take_bit_iff bit_0_eq bot_apply
        bot_bool_def leD)
  then have disj: "push_bit 2 n OR t = n * 4 + t"
    by (simp add: disjunctive_add_eq_or [symmetric] push_bit_eq_mult)
  have "unat (of_nat (n * 4 + t) :: u16) = n * 4 + t"
    unfolding unat_of_nat using assms by (simp del: of_nat_add)
  then have word: "unat (push_bit 2 (of_nat n) OR of_nat t :: u16) = n * 4 + t"
    by (simp only: eq disj)
  show "unat (drop_bit 2 (push_bit 2 (of_nat n) OR of_nat t :: u16)) = n"
    unfolding unat_drop_bit_eq word using assms by (simp add: drop_bit_eq_div)
  have "(3 :: u16) = mask 2" by (simp add: mask_eq_exp_minus_1)
  then have "unat ((push_bit 2 (of_nat n) OR of_nat t :: u16) AND 3)
      = take_bit 2 (unat (push_bit 2 (of_nat n) OR of_nat t :: u16))"
    by (simp only: take_bit_eq_mask [symmetric] unsigned_take_bit_eq)
  then show "unat ((push_bit 2 (of_nat n) OR of_nat t :: u16) AND 3) = t"
    unfolding word using assms by (simp add: take_bit_eq_mod)
qed

lemma adjustment_compact_items:
  assumes "collect_tones vs [] = Some found"
  shows "adjustment_items (no_adjustments\<lparr>adjustment_compact :=
      Some \<lparr>tones = pad_tones found, tone_events = map (pack_adjustment found) vs\<rparr>\<rparr>) = vs"
    (is "adjustment_items ?l = _")
proof -
  have found: "length found \<le> 4"
    "\<And>a. a \<in> set vs \<Longrightarrow> event_index a \<le> 16383 \<and> tone_of a \<in> set found"
    using collect_tones_result [OF assms] by auto
  have "adjustment_at ?l i = vs ! i" if i: "i < length vs" for i
  proof -
    let ?a = "vs ! i"
    have a: "event_index ?a \<le> 16383" "tone_of ?a \<in> set found" using found i by auto
    have t: "index_of (tone_of ?a) found < 4" "found ! index_of (tone_of ?a) found = tone_of ?a"
      using index_of_nth [OF a(2)] found(1) by auto
    then have "pad_tones found ! index_of (tone_of ?a) found = tone_of ?a"
      using index_of_nth [OF a(2)] by (simp add: pad_tones_def nth_append)
    then show ?thesis
      using unpack_index [OF a(1) t(1)] i
      by (simp add: adjustment_at_def pack_adjustment_def tone_of_def Let_def del: drop_bit_or)
  qed
  then show ?thesis
    by (intro nth_equalityI) (simp_all add: adjustment_items_def adjustment_count_def no_adjustments_def)
qed

lemma adjustment_items_of [simp]: "adjustment_items (adjustment_list_of vs) = vs"
proof (cases "vs = []")
  case True
  then show ?thesis
    by (simp add: adjustment_list_of_def adjustment_items_def adjustment_count_def no_adjustments_def)
next
  case False
  have plain: "adjustment_items (no_adjustments\<lparr>adjustment_values := Some vs\<rparr>) = vs"
    by (intro nth_equalityI)
       (simp_all add: adjustment_items_def adjustment_count_def adjustment_at_def no_adjustments_def)
  show ?thesis
    using False plain adjustment_compact_items
    by (simp add: adjustment_list_of_def split: option.split)
qed

lemma adjustment_items_none [simp]: "adjustment_items no_adjustments = []"
  by (simp add: adjustment_items_def adjustment_count_def no_adjustments_def)

section \<open>The job digest identifies the typed job\<close>

definition number_bytes :: "u64 \<Rightarrow> bytes" where
  "number_bytes n = map (\<lambda>i. ucast (drop_bit (i * 8) n)) [0..<8]"

definition text_bytes :: "string \<Rightarrow> bytes" where
  "text_bytes s = number_bytes (of_nat (length s)) @ map of_char s"

definition event_bytes :: "rf_event \<Rightarrow> bytes" where
  "event_bytes e = number_bytes (offset_ns e) @ number_bytes (duration_ns e) @
     number_bytes (of_bool (rf_on e)) @ number_bytes (of_bool (frequency_nhz e \<noteq> None)) @
     number_bytes (case frequency_nhz e of None \<Rightarrow> 0 | Some f \<Rightarrow> f)"

definition job_bytes :: "job \<Rightarrow> bytes" where
  "job_bytes j = text_bytes (job_id j) @ text_bytes (profile j) @ text_bytes (mode j) @
     number_bytes (total_duration_ns j) @ number_bytes (of_bool (allow_frequency_adjustment j)) @
     number_bytes (of_nat (event_count (events j))) @ concat (map event_bytes (items (events j)))"

lemma digest_number_represents:
  "sha_represents d bs \<Longrightarrow> sha_represents (digest_number n d) (bs @ number_bytes n)"
  by (simp add: digest_number_def number_bytes_def sha_update_represents)

lemma digest_text_represents:
  "sha_represents d bs \<Longrightarrow> sha_represents (digest_text s d) (bs @ text_bytes s)"
  using sha_update_represents [OF digest_number_represents]
  by (simp add: digest_text_def text_bytes_def)

lemma digest_event_represents:
  "sha_represents d bs \<Longrightarrow> sha_represents (digest_event e d) (bs @ event_bytes e)"
  using digest_number_represents [OF digest_number_represents [OF digest_number_represents
      [OF digest_number_represents [OF digest_number_represents]]]]
  by (simp add: digest_event_def event_bytes_def)

lemma digest_events_represents:
  "sha_represents d bs \<Longrightarrow> sha_represents (fold digest_event es d) (bs @ concat (map event_bytes es))"
proof (induction es arbitrary: d bs)
  case (Cons e es)
  show ?case using Cons.IH [OF digest_event_represents [OF Cons.prems]] by simp
qed simp

lemma digest_header_represents:
  "sha_represents (digest_header j n) (text_bytes (job_id j) @ text_bytes (profile j) @ text_bytes (mode j) @
     number_bytes (total_duration_ns j) @ number_bytes (of_bool (allow_frequency_adjustment j)) @
     number_bytes (of_nat n))"
  using digest_number_represents [OF digest_number_represents [OF digest_number_represents
      [OF digest_text_represents [OF digest_text_represents [OF digest_text_represents
        [OF sha_init_represents]]]]]]
  by (simp add: digest_header_def)

lemma length_number_bytes [simp]: "length (number_bytes n) = 8"
  by (simp add: number_bytes_def)

lemma number_bytes_inject [simp]: "number_bytes n = number_bytes m \<longleftrightarrow> n = m"
proof
  assume eq: "number_bytes n = number_bytes m"
  show "n = m"
  proof (rule bit_word_eqI)
    fix i :: nat assume "i < LENGTH(64)"
    then have i: "i div 8 < 8" by simp
    have "(ucast (drop_bit (i div 8 * 8) n) :: u8) = ucast (drop_bit (i div 8 * 8) m)"
      using arg_cong [OF eq, of "\<lambda>xs. xs ! (i div 8)"] i by (simp add: number_bytes_def)
    then have "bit (ucast (drop_bit (i div 8 * 8) n) :: u8) (i mod 8)
      = bit (ucast (drop_bit (i div 8 * 8) m) :: u8) (i mod 8)" by simp
    then show "bit n i = bit m i"
      by (simp add: bit_ucast_iff bit_drop_bit_eq)
  qed
qed simp

lemma of_char_byte_inject: "(of_char c :: u8) = of_char d \<longleftrightarrow> c = d"
proof
  have nat: "(of_char z :: u8) = of_nat (of_char z)" for z
    by (simp add: of_char_def of_nat_of_bool)
  have small: "(of_char z :: nat) < 256" for z
    by simp
  assume "(of_char c :: u8) = of_char d"
  then have "unat (of_nat (of_char c) :: u8) = unat (of_nat (of_char d) :: u8)"
    by (simp add: nat)
  then have "(of_char c :: nat) = of_char d"
    using small [of c] small [of d] by (simp add: unat_of_nat)
  then show "c = d" by simp
qed simp

lemma text_bytes_inject:
  assumes "text_bytes s @ xs = text_bytes t @ ys" "length s < 2 ^ 64" "length t < 2 ^ 64"
  shows "s = t \<and> xs = ys"
proof -
  have n: "number_bytes (of_nat (length s)) = number_bytes (of_nat (length t))"
    and r: "map of_char s @ xs = (map of_char t @ ys :: bytes)"
    using assms(1) by (auto simp: text_bytes_def)
  have "unat (of_nat (length s) :: u64) = unat (of_nat (length t) :: u64)" using n by simp
  then have "length s = length t" using assms(2,3) by (simp add: unat_of_nat)
  then have "map (of_char :: char \<Rightarrow> u8) s = map of_char t \<and> xs = ys"
    using r by simp
  then show ?thesis
    using inj_map_eq_map [of "of_char :: char \<Rightarrow> u8" s t] of_char_byte_inject by (auto simp: inj_def)
qed

lemma length_event_bytes [simp]: "length (event_bytes e) = 40"
  by (simp add: event_bytes_def)

lemma event_bytes_inject: "event_bytes e = event_bytes f \<longleftrightarrow> e = f"
  by (cases e; cases f; cases "frequency_nhz e"; cases "frequency_nhz f")
     (auto simp: event_bytes_def split: if_splits)

lemma concat_event_bytes_inject:
  "concat (map event_bytes es) = concat (map event_bytes fs) \<Longrightarrow> es = fs"
proof (induction es arbitrary: fs)
  case Nil
  then show ?case by (cases fs) (auto dest: arg_cong [of _ _ length])
next
  case (Cons e es)
  then obtain f gs where fs: "fs = f # gs"
    by (cases fs) (auto dest: arg_cong [of _ _ length])
  then show ?case using Cons by (auto simp: event_bytes_inject)
qed

definition typed_job :: "job \<Rightarrow> string \<times> string \<times> string \<times> u64 \<times> bool \<times> rf_event list" where
  "typed_job j = (job_id j, profile j, mode j, total_duration_ns j, allow_frequency_adjustment j,
     items (events j))"

definition short_texts :: "job \<Rightarrow> bool" where
  "short_texts j \<longleftrightarrow> length (job_id j) < 2 ^ 64 \<and> length (profile j) < 2 ^ 64 \<and> length (mode j) < 2 ^ 64"

lemma job_digest_spec: "job_digest j = sha256_spec (job_bytes j)"
  using sha_finish_represents [OF digest_events_represents [OF digest_header_represents]]
  by (simp add: job_digest_def job_bytes_def)

lemma job_bytes_inject:
  assumes "short_texts j" "short_texts j'" "job_bytes j = job_bytes j'"
  shows "typed_job j = typed_job j'"
proof -
  note t = text_bytes_inject
  obtain a where a: "job_id j = job_id j'" and
    1: "text_bytes (profile j) @ a = text_bytes (profile j') @
     (text_bytes (mode j') @ number_bytes (total_duration_ns j') @
      number_bytes (of_bool (allow_frequency_adjustment j')) @
      number_bytes (of_nat (event_count (events j'))) @ concat (map event_bytes (items (events j'))))"
    "a = text_bytes (mode j) @ number_bytes (total_duration_ns j) @
      number_bytes (of_bool (allow_frequency_adjustment j)) @
      number_bytes (of_nat (event_count (events j))) @ concat (map event_bytes (items (events j)))"
    using t [OF assms(3) [unfolded job_bytes_def]] assms(1,2) by (auto simp: short_texts_def)
  have p: "profile j = profile j'" and
    2: "text_bytes (mode j) @ number_bytes (total_duration_ns j) @
      number_bytes (of_bool (allow_frequency_adjustment j)) @
      number_bytes (of_nat (event_count (events j))) @ concat (map event_bytes (items (events j)))
     = text_bytes (mode j') @ number_bytes (total_duration_ns j') @
      number_bytes (of_bool (allow_frequency_adjustment j')) @
      number_bytes (of_nat (event_count (events j'))) @ concat (map event_bytes (items (events j')))"
    using t [OF 1(1)] 1(2) assms(1,2) by (auto simp: short_texts_def)
  have m: "mode j = mode j'" and
    3: "number_bytes (total_duration_ns j) @ number_bytes (of_bool (allow_frequency_adjustment j)) @
      number_bytes (of_nat (event_count (events j))) @ concat (map event_bytes (items (events j)))
     = number_bytes (total_duration_ns j') @ number_bytes (of_bool (allow_frequency_adjustment j')) @
      number_bytes (of_nat (event_count (events j'))) @ concat (map event_bytes (items (events j')))"
    using t [OF 2] assms(1,2) by (auto simp: short_texts_def)
  show ?thesis
    using a p m 3 concat_event_bytes_inject [of "items (events j)" "items (events j')"]
    by (simp add: typed_job_def of_bool_eq_iff)
qed

lemma job_bytes_typed: "typed_job j = typed_job j' \<Longrightarrow> job_bytes j = job_bytes j'"
  using length_items [of "events j"] length_items [of "events j'"]
  by (auto simp: typed_job_def job_bytes_def simp del: length_items)

section \<open>Properties\<close>

text \<open>C38: the paged event container is a bounded list. From a well-formed container, appending an
  event appends it to the list of events or refuses, leaving the events unchanged and the container
  marked failed; resizing truncates or pads with default events; assigning replaces the content; and
  a copy that reports no failure holds the same events. Every result is well formed, so it never
  holds more than 512 events and never constructs one in a page it does not own.\<close>

theorem event_list_is_list:
  assumes "events_ok l"
  shows "(case push_back grant e l of (ok, l') \<Rightarrow> events_ok l' \<and>
      (if ok then items l' = items l @ [e] else items l' = items l \<and> \<not> valid_events l')) \<and>
    (case resize_events grant n l of (ok, l') \<Rightarrow> events_ok l' \<and>
      (if ok then items l' = take n (items l) @ replicate (n - event_count l) blank_event
       else items l' = items l \<and> \<not> valid_events l')) \<and>
    (case assign_events grant n e l of (ok, l') \<Rightarrow> events_ok l' \<and>
      (if ok then items l' = replicate n e else \<not> valid_events l')) \<and>
    events_ok (copy_events grant l) \<and>
    (valid_events (copy_events grant l) \<longrightarrow> items (copy_events grant l) = items l)"
proof -
  have "case push_back grant e l of (ok, l') \<Rightarrow> events_ok l' \<and>
      (if ok then items l' = items l @ [e] else items l' = items l \<and> \<not> valid_events l')"
    using push_back_result [OF assms, of grant e]
    by (auto simp: valid_events_def split: prod.split)
  moreover have "case resize_events grant n l of (ok, l') \<Rightarrow> events_ok l' \<and>
      (if ok then items l' = take n (items l) @ replicate (n - event_count l) blank_event
       else items l' = items l \<and> \<not> valid_events l')"
    using resize_result [OF assms, of grant n]
    by (auto simp: valid_events_def split: prod.split if_splits)
  moreover have "case assign_events grant n e l of (ok, l') \<Rightarrow> events_ok l' \<and>
      (if ok then items l' = replicate n e else \<not> valid_events l')"
    using assign_result [of grant n e l] by (auto simp: valid_events_def split: prod.split if_splits)
  moreover have "events_ok (copy_events grant l)"
    "valid_events (copy_events grant l) \<longrightarrow> items (copy_events grant l) = items l"
    using copy_result [of grant l] by (simp_all add: valid_events_def)
  ultimately show ?thesis by simp
qed

theorem event_list_is_list_witness:
  "items (snd (push_back (\<lambda>p. True) blank_event no_events)) = [blank_event]"
proof -
  have "fst (push_back (\<lambda>p. True) blank_event no_events)"
    by (simp add: push_back_def reserve_events_def no_events_def maximum_events_def page_events_def)
  then show ?thesis
    using event_list_is_list [where l = no_events and grant = "\<lambda>p. True" and e = blank_event and n = 0]
    by (auto split: prod.splits)
qed

text \<open>The shared adjustment list loses nothing. Whether a list of frequency adjustments is
  kept as it came or packed into four tones and 16-bit entries, reading it back by index gives
  exactly the adjustments it was built from, in order.\<close>

theorem adjustment_list_roundtrip:
  "map (adjustment_at (adjustment_list_of vs)) [0..<adjustment_count (adjustment_list_of vs)]
     = vs"
  using adjustment_items_of [of vs] unfolding adjustment_items_def .

text \<open>C39: the digest of a job is the SHA-256 of an unambiguous encoding of its typed content: two
  jobs have the same encoding exactly when they agree on identity, profile, mode, duration,
  adjustment permission and every event, so no two different jobs are confused before hashing. The
  texts are assumed shorter than \<open>2 ^ 64\<close> bytes, as any \<open>std::string\<close> is.\<close>

theorem job_digest_unambiguous:
  assumes "short_texts j" "short_texts j'"
  shows "job_digest j = sha256_spec (job_bytes j) \<and>
    (job_bytes j = job_bytes j' \<longleftrightarrow> typed_job j = typed_job j')"
  using job_digest_spec job_bytes_inject [OF assms] job_bytes_typed by blast

theorem job_digest_unambiguous_witness:
  "let j = \<lparr>job_id = ''a'', profile = ''b'', mode = ''cw'', total_duration_ns = 5, events = no_events,
       allow_frequency_adjustment = False, message = None\<rparr> in
   job_bytes j \<noteq> job_bytes (j\<lparr>total_duration_ns := 6\<rparr>)"
  unfolding Let_def by (subst job_digest_unambiguous [THEN conjunct2]) (simp_all add: short_texts_def typed_job_def)

end
