(* ===== verification/Effects.thy ===== *)
theory Effects
  imports Prelude "HOL-Library.State_Monad"
begin

text \<open>
  Effects as the firmware has them: a method of a C++ object that reads and writes its members and
  calls other objects is an action of the state monad over the record of the members. The
  collaborators an object holds by reference (clock, RF engine, identity source) are one abstract
  environment state inside that record; a virtual call is \<open>act\<close>, which runs the supplied operation
  on the environment and may change it in any way the operation allows.

  Actions are reasoned about with \<open>wp\<close>, the weakest precondition. Its equations are the collection
  \<open>wp_eqs\<close>; they turn a goal about an action into a goal about the values on its paths.
\<close>

named_theorems wp_eqs "equations of wp on the primitive actions and control structures"

definition wp :: "('s, 'a) State_Monad.state \<Rightarrow> ('a \<Rightarrow> 's \<Rightarrow> bool) \<Rightarrow> 's \<Rightarrow> bool" where
  "wp m Q s = (case run_state m s of (a, s') \<Rightarrow> Q a s')"

definition ret :: "'a \<Rightarrow> ('s, 'a) State_Monad.state" where
  "ret a = State (\<lambda>s. (a, s))"

definition gets :: "('s \<Rightarrow> 'a) \<Rightarrow> ('s, 'a) State_Monad.state" where
  "gets f = State (\<lambda>s. (f s, s))"

definition modify :: "('s \<Rightarrow> 's) \<Rightarrow> ('s, unit) State_Monad.state" where
  "modify f = State (\<lambda>s. ((), f s))"

definition perform_when :: "bool \<Rightarrow> ('s, unit) State_Monad.state \<Rightarrow> ('s, unit) State_Monad.state" where
  "perform_when c m = (if c then m else ret ())"

lemma run_primitives [simp]:
  "run_state (ret a) s = (a, s)" "run_state (gets f) s = (f s, s)"
  "run_state (modify g) s = ((), g s)"
  by (simp_all add: ret_def gets_def modify_def)

lemma wp_ret [wp_eqs]: "wp (ret a) Q s = Q a s"
  and wp_gets [wp_eqs]: "wp (gets f) Q s = Q (f s) s"
  and wp_modify [wp_eqs]: "wp (modify g) R s = R () (g s)"
  and wp_bind [wp_eqs]: "wp (m \<bind> k) Q s = wp m (\<lambda>a. wp (k a) Q) s"
  by (simp_all add: wp_def split: prod.split)

lemma wp_when [wp_eqs]: "wp (perform_when c m) Q s = (if c then wp m Q s else Q () s)"
  by (simp add: perform_when_def wp_ret)

lemma wp_if [wp_eqs]: "wp (if c then m else n) Q s = (if c then wp m Q s else wp n Q s)"
  by simp

lemma wp_option [wp_eqs]:
  "wp (case x of None \<Rightarrow> m | Some y \<Rightarrow> k y) Q s = (case x of None \<Rightarrow> wp m Q s | Some y \<Rightarrow> wp (k y) Q s)"
  by (simp split: option.split)

lemma wp_prod [wp_eqs]: "wp (case x of (a, b) \<Rightarrow> k a b) Q s = (case x of (a, b) \<Rightarrow> wp (k a b) Q s)"
  by (simp split: prod.split)

lemma wp_let [wp_eqs]: "wp (let x = e in k x) Q s = (let x = e in wp (k x) Q s)"
  by simp

lemma wp_mono: "wp m P s \<Longrightarrow> (\<And>a t. P a t \<Longrightarrow> Q a t) \<Longrightarrow> wp m Q s"
  by (auto simp: wp_def split: prod.splits)

lemma wp_conj: "wp m (\<lambda>a t. P a t \<and> Q a t) s \<longleftrightarrow> wp m P s \<and> wp m Q s"
  by (auto simp: wp_def split: prod.splits)

lemma wp_run: "wp m Q s \<longleftrightarrow> Q (fst (run_state m s)) (snd (run_state m s))"
  by (simp add: wp_def split: prod.split)

text \<open>An environment beside a log: an operation of the environment that leaves the log alone.\<close>

definition aside :: "('d \<Rightarrow> 'a \<times> 'd) \<Rightarrow> 'd \<times> 'l \<Rightarrow> 'a \<times> 'd \<times> 'l" where
  "aside f w = (case f (fst w) of (a, d) \<Rightarrow> (a, d, snd w))"

end
