(* ===== verification/Rf_Engine.thy ===== *)
theory Rf_Engine
  imports Job_Model Time_Mapping Effects
begin

text \<open>
  The collaborators of the job service (\<open>src/wtp/job_service.hpp\<close>, lines 52-60 and 254-300,
  477-560; \<open>src/wtp/memory_budget.hpp\<close>) and the engine that ships when no RF hardware is fitted
  (\<open>src/wtp/inhibited_rf_engine.cpp\<close>).

  \<open>Clock\<close>, \<open>RfEngine\<close>, \<open>IdentitySource\<close> and the available-memory hook are interfaces whose
  implementations belong to the platform. They are the fields of one record of operations on an
  environment state \<open>'d\<close>: every operation may read and change that state, so a DMA engine or a
  timer interrupt that acts between two calls is a change of the environment in the second one.
  The capabilities the header calls immutable are constants.
\<close>

datatype engine_state =
  EngineIdle | EngineArmed | EngineRunning | EngineComplete | EngineFailed | EngineMissed

datatype chain_phase =
  ChainUnspecified | ChainInactive | ChainWaiting | ChainLead | ChainRf | ChainTail | ChainFault
  | ChainSelecting

record engine_report =
  report_state :: engine_state
  report_output_active :: bool
  report_launch_monotonic_ns :: "u64 option"
  report_chain_phase :: chain_phase
  report_tail_deadline_ns :: "u64 option"
  report_filter_selector :: int

definition idle_report :: engine_report where
  "idle_report = \<lparr>report_state = EngineIdle, report_output_active = False,
     report_launch_monotonic_ns = None, report_chain_phase = ChainUnspecified,
     report_tail_deadline_ns = None, report_filter_selector = - 1\<rparr>"

definition start_window_ns :: "u64 \<Rightarrow> u64" where
  "start_window_ns utc_ns = 1000000000 - utc_ns mod 1000000000"

record local_start_conditions =
  conditions_start_utc_ns :: u64
  conditions_maximum_uncertainty_ns :: u64
  conditions_maximum_holdover_age_ns :: u64
  conditions_start_adjustment_ns :: u64

definition maximum_completion_acknowledgement_ns :: u64 where
  "maximum_completion_acknowledgement_ns = 100000"

record 'd environment =
  env_snapshot :: "'d \<Rightarrow> clock_snapshot \<times> 'd"
  env_new_boot_id :: "'d \<Rightarrow> string \<times> 'd"
  env_available_memory :: "('d \<Rightarrow> nat \<times> 'd) option"
  env_prepare :: "job \<Rightarrow> 'd \<Rightarrow> (bool \<times> frequency_adjustment list) \<times> 'd"
  env_inhibit_output :: "'d \<Rightarrow> unit \<times> 'd"
  env_calibration_boundary :: "'d \<Rightarrow> unit \<times> 'd"
  env_schedule :: "job \<Rightarrow> u64 \<Rightarrow> local_start_conditions \<Rightarrow> 'd \<Rightarrow> bool \<times> 'd"
  env_begin :: "job \<Rightarrow> u64 \<Rightarrow> 'd \<Rightarrow> bool \<times> 'd"
  env_poll :: "u64 \<Rightarrow> 'd \<Rightarrow> engine_report \<times> 'd"
  env_disable :: "u64 \<Rightarrow> 'd \<Rightarrow> bool \<times> 'd"
  env_output_active :: "'d \<Rightarrow> bool \<times> 'd"
  env_execution_started :: "'d \<Rightarrow> bool \<times> 'd"
  env_arm_observer :: "(job \<Rightarrow> string \<Rightarrow> u64 \<Rightarrow> u64 \<Rightarrow> clock_snapshot \<Rightarrow> string \<Rightarrow> 'd \<Rightarrow> unit \<times> 'd) option"
  env_preparation_memory_bytes :: "job \<Rightarrow> nat"
  env_schedules_locally :: bool
  env_owns_execution_plan :: bool
  env_externally_controlled_completion :: bool
  env_start_resolution_ns :: u64
  env_completion_acknowledgement_ns :: u64
  env_filter_preparation_ns :: u64
  env_amplifier_lead_ns :: u64
  env_amplifier_tail_ns :: u64

text \<open>Target \<open>std::size_t\<close> is 32 bits wide.\<close>

definition size_max :: nat where
  "size_max = 4294967295"

definition memory_admitted :: "nat option \<Rightarrow> nat \<Rightarrow> nat \<Rightarrow> bool" where
  "memory_admitted available bytes reserved \<longleftrightarrow>
     (case available of None \<Rightarrow> True
      | Some room \<Rightarrow> bytes \<le> size_max - reserved \<and> room \<ge> bytes + reserved)"

definition authority_reserve :: nat where
  "authority_reserve = 32768"

section \<open>The inhibited engine\<close>

record inhibited_engine =
  engine_duration_ns :: "u64 option"
  engine_start_monotonic_ns :: u64
  engine_running :: bool

definition inhibited_init :: inhibited_engine where
  "inhibited_init = \<lparr>engine_duration_ns = None, engine_start_monotonic_ns = 0, engine_running = False\<rparr>"

definition inhibited_prepare :: "job \<Rightarrow> bool \<times> frequency_adjustment list" where
  "inhibited_prepare j = (True, [])"

definition inhibited_begin :: "job \<Rightarrow> u64 \<Rightarrow> inhibited_engine \<Rightarrow> bool \<times> inhibited_engine" where
  "inhibited_begin j start e =
     (True, e\<lparr>engine_duration_ns := Some (total_duration_ns j), engine_start_monotonic_ns := start,
              engine_running := True\<rparr>)"

definition inhibited_poll :: "u64 \<Rightarrow> inhibited_engine \<Rightarrow> engine_report \<times> inhibited_engine" where
  "inhibited_poll now e =
     (if \<not> engine_running e \<or> engine_duration_ns e = None then (idle_report, e)
      else if now < engine_start_monotonic_ns e then (idle_report\<lparr>report_state := EngineArmed\<rparr>, e)
      else if now - engine_start_monotonic_ns e \<ge> the (engine_duration_ns e) then
        (idle_report\<lparr>report_state := EngineComplete\<rparr>, e\<lparr>engine_running := False\<rparr>)
      else (idle_report\<lparr>report_state := EngineRunning\<rparr>, e))"

definition inhibited_disable :: "u64 \<Rightarrow> inhibited_engine \<Rightarrow> bool \<times> inhibited_engine" where
  "inhibited_disable deadline e = (True, e\<lparr>engine_running := False, engine_duration_ns := None\<rparr>)"

definition inhibited_output_active :: "inhibited_engine \<Rightarrow> bool" where
  "inhibited_output_active e = False"

text \<open>The environment of a device without RF hardware: the inhibited engine, a clock that shows
  \<open>world_clock\<close> and an identity source that hands out \<open>world_boot_ids\<close> one by one. The remaining
  fields are the defaults \<open>RfEngine\<close> declares.\<close>

record world =
  world_engine :: inhibited_engine
  world_clock :: clock_snapshot
  world_boot_ids :: "string list"

definition on_engine :: "(inhibited_engine \<Rightarrow> 'a \<times> inhibited_engine) \<Rightarrow> world \<Rightarrow> 'a \<times> world" where
  "on_engine f w = (case f (world_engine w) of (a, e) \<Rightarrow> (a, w\<lparr>world_engine := e\<rparr>))"

definition inhibited_environment :: "world environment" where
  "inhibited_environment =
    \<lparr>env_snapshot = (\<lambda>w. (world_clock w, w)),
     env_new_boot_id = (\<lambda>w. case world_boot_ids w of [] \<Rightarrow> ([], w) | i # is \<Rightarrow> (i, w\<lparr>world_boot_ids := is\<rparr>)),
     env_available_memory = None,
     env_prepare = (\<lambda>j. on_engine (\<lambda>e. (inhibited_prepare j, e))),
     env_inhibit_output = Pair (),
     env_calibration_boundary = Pair (),
     env_schedule = (\<lambda>j start conditions. Pair False),
     env_begin = (\<lambda>j start. on_engine (inhibited_begin j start)),
     env_poll = (\<lambda>now. on_engine (inhibited_poll now)),
     env_disable = (\<lambda>deadline. on_engine (inhibited_disable deadline)),
     env_output_active = on_engine (\<lambda>e. (inhibited_output_active e, e)),
     env_execution_started = on_engine (\<lambda>e. (inhibited_output_active e, e)),
     env_arm_observer = None,
     env_preparation_memory_bytes = (\<lambda>j. 32768),
     env_schedules_locally = False,
     env_owns_execution_plan = False,
     env_externally_controlled_completion = False,
     env_start_resolution_ns = 1,
     env_completion_acknowledgement_ns = 0,
     env_filter_preparation_ns = 0,
     env_amplifier_lead_ns = 0,
     env_amplifier_tail_ns = 0\<rparr>"

end
