(* ===== verification/Job_Service.thy ===== *)
theory Job_Service
  imports Rf_Engine
begin

text \<open>
  \<open>JobService\<close> (\<open>src/wtp/job_service.hpp\<close>, lines 563-878; \<open>src/wtp/job_service.cpp\<close>): the
  single authority over the transmitter. It owns the sessions, the transmitter lease, the loaded
  job and its arming, the replay cache and the history of ended jobs, and it is the only caller of
  the RF engine. Its members are the record \<open>service\<close>, its methods are actions on that record, in
  the order of the source; every early return is a branch. The optional trace span of
  \<open>handle_owned\<close> is not modelled.
\<close>

section \<open>Messages\<close>

datatype error_code =
  NoError | InvalidFrame | InvalidMessage | UnsupportedVersion | HelloRequired | UnknownOperation
  | AuthenticationRequired | SessionReplaced | Busy | NotOwner | LeaseExpired | RequestIdReuse
  | InvalidState | JobNotFound | JobIdConflict | JobLimitExceeded | UnsupportedProfile
  | UnsupportedMode | FrequencyRejected | ArmConflict | ClockUnsynchronized | ClockUncertain
  | LeapUnsafe | ArmTooLate | ArmTooFar | MissedStart | OutputStateUnknown | DeviceFault
  | InternalError

record arm_body =
  arm_job_id :: string
  arm_start_utc_ns :: u64
  arm_max_start_uncertainty_ns :: u64

datatype request_body =
  NoBody
  | HelloBody "string list"
  | ClaimBody string u32
  | RenewBody string u32
  | JobBody job
  | ArmBody arm_body
  | AbortBody string
  | PingBody "string option"
  | LoadReplayBody string bytes

record request =
  req_protocol :: string
  req_session_id :: string
  req_request_id :: string
  req_principal :: string
  req_operation :: string
  req_payload_digest :: bytes
  req_body :: request_body
  req_body_valid :: bool

record terminal_record =
  tr_job_id :: string
  tr_state :: job_state
  tr_ended_monotonic_ns :: u64
  tr_output_active :: bool
  tr_error :: error_code

record service_activity =
  act_state :: job_state
  act_output_active :: bool
  act_owned :: bool

record service_status =
  st_boot_id :: string
  st_state :: job_state
  st_output_active :: bool
  st_owner_id :: "string option"
  st_job_id :: "string option"
  st_terminal_records :: "terminal_record list"

record response =
  rsp_ok :: bool
  rsp_error :: error_code
  rsp_state :: job_state
  rsp_job_id :: string
  rsp_boot_id :: string
  rsp_owner_id :: string
  rsp_start_monotonic_ns :: u64
  rsp_expires_monotonic_ns :: u64
  rsp_granted_lease_ms :: u32
  rsp_output_active :: bool
  rsp_close_connection :: bool
  rsp_ping_token :: "string option"
  rsp_adjustments :: adjustment_list
  rsp_clock_snapshot :: "clock_snapshot option"
  rsp_status_snapshot :: "service_status option"
  rsp_start_utc_ns :: u64

definition blank_response :: response where
  "blank_response = \<lparr>rsp_ok = False, rsp_error = NoError, rsp_state = Empty, rsp_job_id = [],
     rsp_boot_id = [], rsp_owner_id = [], rsp_start_monotonic_ns = 0, rsp_expires_monotonic_ns = 0,
     rsp_granted_lease_ms = 0, rsp_output_active = False, rsp_close_connection = False,
     rsp_ping_token = None, rsp_adjustments = no_adjustments, rsp_clock_snapshot = None,
     rsp_status_snapshot = None, rsp_start_utc_ns = 0\<rparr>"

section \<open>Configuration and members\<close>

record service_config =
  capability_engine :: string
  supported_modes :: "string list"
  minimum_frequency_nhz :: u64
  maximum_frequency_nhz :: u64
  max_events :: nat
  max_job_duration_ns :: u64
  minimum_arm_lead_ns :: u64
  maximum_arm_ahead_ns :: u64
  maximum_arm_uncertainty_ns :: u64
  maximum_holdover_age_ns :: u64
  output_disable_timeout_ns :: u64
  response_cache_entries :: nat
  response_cache_ttl_ns :: u64
  terminal_record_entries :: nat
  terminal_record_ttl_ns :: u64

definition default_config :: service_config where
  "default_config =
    \<lparr>capability_engine = ''inhibited-no-rf'',
     supported_modes = [''wspr'', ''qrss'', ''fskcw'', ''dfcw'', ''cw'', ''tone''],
     minimum_frequency_nhz = 1, maximum_frequency_nhz = u64_max, max_events = 512,
     max_job_duration_ns = 86400000000000, minimum_arm_lead_ns = 100000000,
     maximum_arm_ahead_ns = 604800000000000, maximum_arm_uncertainty_ns = 1000000,
     maximum_holdover_age_ns = 0, output_disable_timeout_ns = 100000000,
     response_cache_entries = 8, response_cache_ttl_ns = 300000000000,
     terminal_record_entries = 8, terminal_record_ttl_ns = 3600000000000\<rparr>"

record session =
  sess_session_id :: string
  sess_principal :: string
  sess_last_seen_monotonic_ns :: u64

record owner =
  own_owner_id :: string
  own_session_id :: string
  own_principal :: string
  own_expires_monotonic_ns :: u64
  own_release_after_terminal :: bool

record arm_record =
  rec_start_utc_ns :: u64
  rec_max_uncertainty_ns :: u64
  rec_start_monotonic_ns :: u64
  rec_clock_snapshot :: clock_snapshot
  rec_scheduled_locally :: bool
  rec_launch_monotonic_ns :: "u64 option"

record retained_job =
  rt_job_id :: string
  rt_digest :: bytes
  rt_adjustments :: adjustment_list
  rt_load_output_active :: bool
  rt_arm :: "arm_record option"

record replay_entry =
  rp_session_id :: string
  rp_request_id :: string
  rp_payload_digest :: bytes
  rp_response :: response
  rp_completed_monotonic_ns :: u64
  rp_lru :: u64

record 'd service =
  sv_env :: 'd
  config :: service_config
  sessions :: "session list"
  current_owner :: "owner option"
  current_job :: "job option"
  observed_frequencies :: "u64 list"
  observed_event_count :: nat
  observed_frequencies_truncated :: bool
  current_digest :: bytes
  current_adjustments :: adjustment_list
  current_arm :: "arm_record option"
  replay_cache :: "replay_entry list"
  terminal_records :: "terminal_record list"
  retained_jobs :: "retained_job list"
  sv_state :: job_state
  boot_id :: string
  lru_sequence :: u64
  ready :: bool
  output_inhibited :: bool
  maintenance_deadline_ns :: u64
  update_verification :: bool

type_synonym ('d, 'a) action = "('d service, 'a) State_Monad.state"

definition act :: "('d \<Rightarrow> 'a \<times> 'd) \<Rightarrow> ('d, 'a) action" where
  "act f = State (\<lambda>s. case f (sv_env s) of (a, d) \<Rightarrow> (a, s\<lparr>sv_env := d\<rparr>))"

section \<open>Constants and small helpers\<close>

definition nanoseconds_per_millisecond :: u64 where
  "nanoseconds_per_millisecond = 1000000"

definition leap_exclusion_ns :: u64 where
  "leap_exclusion_ns = 1000000000"

definition maximum_output_disable_timeout_ns :: u64 where
  "maximum_output_disable_timeout_ns = 5000000000"

definition maximum_arm_ahead_limit_ns :: u64 where
  "maximum_arm_ahead_limit_ns = 604800000000000"

definition maximum_sessions :: nat where
  "maximum_sessions = 16"

definition char_between :: "char \<Rightarrow> char \<Rightarrow> char \<Rightarrow> bool" where
  "char_between lo hi c \<longleftrightarrow> (of_char lo :: nat) \<le> of_char c \<and> of_char c \<le> (of_char hi :: nat)"

definition capability_text :: "string \<Rightarrow> bool" where
  "capability_text s \<longleftrightarrow> s \<noteq> [] \<and>
     list_all (\<lambda>c. char_between CHR ''a'' CHR ''z'' c \<or> char_between CHR ''0'' CHR ''9'' c \<or> c = CHR ''-'') s"

definition valid_protocol_version :: "string \<Rightarrow> bool" where
  "valid_protocol_version s \<longleftrightarrow>
     \<not> (take 4 s \<noteq> ''WTP/'' \<or> length s < 5 \<or> s ! 4 = CHR ''0'') \<and>
     list_all (char_between CHR ''0'' CHR ''9'') (drop 4 s)"

definition valid_id :: "string \<Rightarrow> bool" where
  "valid_id s \<longleftrightarrow> length s = 32 \<and>
     list_all (\<lambda>c. char_between CHR ''0'' CHR ''9'' c \<or> char_between CHR ''a'' CHR ''f'' c) s"

definition owns :: "'d service \<Rightarrow> request \<Rightarrow> bool" where
  "owns s r \<longleftrightarrow> (case current_owner s of None \<Rightarrow> False
     | Some w \<Rightarrow> own_session_id w = req_session_id r \<and> own_principal w = req_principal r)"

text \<open>\<open>std::rotate\<close> of the prefix ending in the first match, \<open>std::min_element\<close>, erasure of one
  position, and the update of the first match of \<open>std::find_if\<close>.\<close>

definition to_front :: "('a \<Rightarrow> bool) \<Rightarrow> 'a list \<Rightarrow> 'a list" where
  "to_front P xs = (case dropWhile (\<lambda>x. \<not> P x) xs of [] \<Rightarrow> xs
     | x # rest \<Rightarrow> x # takeWhile (\<lambda>x. \<not> P x) xs @ rest)"

definition min_position :: "('a \<Rightarrow> 'a \<Rightarrow> bool) \<Rightarrow> 'a list \<Rightarrow> nat" where
  "min_position before xs = fold (\<lambda>i m. if before (xs ! i) (xs ! m) then i else m) [1..<length xs] 0"

definition erase_at :: "nat \<Rightarrow> 'a list \<Rightarrow> 'a list" where
  "erase_at i xs = take i xs @ drop (i + 1) xs"

fun update_first :: "('a \<Rightarrow> bool) \<Rightarrow> ('a \<Rightarrow> 'a) \<Rightarrow> 'a list \<Rightarrow> 'a list" where
  "update_first P f [] = []"
| "update_first P f (x # xs) = (if P x then f x # xs else x # update_first P f xs)"

section \<open>Observations and responses\<close>

definition snapshot :: "'d environment \<Rightarrow> ('d, clock_snapshot) action" where
  "snapshot E = act (env_snapshot E)"

definition output_active :: "'d environment \<Rightarrow> ('d, bool) action" where
  "output_active E = act (env_output_active E)"

definition calibration_boundary :: "'d environment \<Rightarrow> ('d, unit) action" where
  "calibration_boundary E = act (env_calibration_boundary E)"

definition reject :: "'d environment \<Rightarrow> error_code \<Rightarrow> ('d, response) action" where
  "reject E code = do {
     s \<leftarrow> gets id;
     active \<leftarrow> output_active E;
     ret (blank_response\<lparr>rsp_error := code, rsp_state := sv_state s, rsp_output_active := active,
            rsp_boot_id := boot_id s\<rparr>)
   }"

definition success :: "'d environment \<Rightarrow> ('d, response) action" where
  "success E = do {
     s \<leftarrow> gets id;
     active \<leftarrow> output_active E;
     ret (blank_response\<lparr>rsp_ok := True, rsp_state := sv_state s, rsp_output_active := active,
            rsp_boot_id := boot_id s\<rparr>)
   }"

definition closing :: "response \<Rightarrow> response" where
  "closing r = r\<lparr>rsp_close_connection := True\<rparr>"

definition retained_load_response :: "string \<Rightarrow> retained_job \<Rightarrow> response" where
  "retained_load_response boot retained =
     blank_response\<lparr>rsp_ok := True, rsp_state := Loaded, rsp_boot_id := boot,
       rsp_job_id := rt_job_id retained, rsp_output_active := rt_load_output_active retained,
       rsp_adjustments := rt_adjustments retained\<rparr>"

definition arm_response :: "string \<Rightarrow> string \<Rightarrow> arm_record \<Rightarrow> response" where
  "arm_response boot ident arm =
     blank_response\<lparr>rsp_ok := True, rsp_state := Armed, rsp_boot_id := boot, rsp_job_id := ident,
       rsp_start_monotonic_ns := rec_start_monotonic_ns arm,
       rsp_start_utc_ns := rec_start_utc_ns arm,
       rsp_clock_snapshot := Some (rec_clock_snapshot arm)\<rparr>"

definition activity :: "'d environment \<Rightarrow> ('d, service_activity) action" where
  "activity E = do {
     s \<leftarrow> gets id;
     active \<leftarrow> output_active E;
     let result = \<lparr>act_state = sv_state s, act_output_active = active,
                   act_owned = (current_owner s \<noteq> None)\<rparr>;
     if sv_state s = Armed \<and> active \<and> current_job s \<noteq> None \<and>
        (case current_arm s of None \<Rightarrow> False | Some arm \<Rightarrow> rec_scheduled_locally arm)
     then do {
       started \<leftarrow> act (env_execution_started E);
       ret (if started then result\<lparr>act_state := Running\<rparr> else result)
     }
     else ret result
   }"

definition status :: "'d environment \<Rightarrow> bool \<Rightarrow> ('d, service_status) action" where
  "status E history = do {
     current \<leftarrow> activity E;
     s \<leftarrow> gets id;
     ret \<lparr>st_boot_id = boot_id s, st_state = act_state current,
          st_output_active = act_output_active current,
          st_owner_id = map_option own_owner_id (current_owner s),
          st_job_id = map_option job_id (current_job s),
          st_terminal_records = (if history then terminal_records s else [])\<rparr>
   }"

definition maintenance :: "'d environment \<Rightarrow> ('d, bool) action" where
  "maintenance E = do {
     s \<leftarrow> gets id;
     if update_verification s then ret True
     else if maintenance_deadline_ns s = 0 then ret False
     else do {
       now \<leftarrow> snapshot E;
       ret (monotonic_now_ns now < maintenance_deadline_ns s)
     }
   }"

definition verification_safe :: "'d environment \<Rightarrow> ('d, bool) action" where
  "verification_safe E = do {
     s \<leftarrow> gets id;
     if ready s \<and> \<not> output_inhibited s \<and> current_owner s = None \<and> sv_state s = Empty
     then do { active \<leftarrow> output_active E; ret (\<not> active) }
     else ret False
   }"

definition active_load_replay_id :: "'d service \<Rightarrow> string" where
  "active_load_replay_id s = (case current_job s of
     Some j \<Rightarrow> (if sv_state s = Loaded \<or> sv_state s = Armed then job_id j else [])
   | None \<Rightarrow> [])"

definition owner_session_id :: "'d service \<Rightarrow> string" where
  "owner_session_id s = (case current_owner s of Some w \<Rightarrow> own_session_id w | None \<Rightarrow> [])"

definition rf_chain_observation :: "'d environment \<Rightarrow> ('d, engine_report) action" where
  "rf_chain_observation E = do {
     now \<leftarrow> snapshot E;
     act (env_poll E (monotonic_now_ns now))
   }"

section \<open>Ending a job and releasing the transmitter\<close>

fun evict_terminals ::
  "nat \<Rightarrow> terminal_record list \<Rightarrow> retained_job list \<Rightarrow> terminal_record list \<times> retained_job list" where
  "evict_terminals limit ts rs =
     (if length ts > limit then
        evict_terminals limit (butlast ts) (filter (\<lambda>r. rt_job_id r \<noteq> tr_job_id (last ts)) rs)
      else (ts, rs))"

declare evict_terminals.simps [simp del]

definition drop_owner :: "'d environment \<Rightarrow> ('d, unit) action" where
  "drop_owner E = do {
     modify (\<lambda>s. s\<lparr>current_owner := None\<rparr>);
     calibration_boundary E
   }"

definition record_terminal :: "'d environment \<Rightarrow> job_state \<Rightarrow> error_code \<Rightarrow> u64 \<Rightarrow> ('d, unit) action" where
  "record_terminal E st err now_ns = do {
     modify (\<lambda>s. s\<lparr>sv_state := st\<rparr>);
     active \<leftarrow> output_active E;
     modify (\<lambda>s. s\<lparr>terminal_records :=
       \<lparr>tr_job_id = (case current_job s of Some j \<Rightarrow> job_id j | None \<Rightarrow> []), tr_state = st,
        tr_ended_monotonic_ns = now_ns, tr_output_active = active, tr_error = err\<rparr>
       # terminal_records s\<rparr>);
     job \<leftarrow> gets current_job;
     (case job of None \<Rightarrow> ret ()
      | Some j \<Rightarrow> do {
          load_active \<leftarrow> output_active E;
          modify (\<lambda>s. s\<lparr>retained_jobs :=
            \<lparr>rt_job_id = job_id j, rt_digest = current_digest s, rt_adjustments = current_adjustments s,
             rt_load_output_active = load_active, rt_arm = current_arm s\<rparr> # retained_jobs s\<rparr>);
          perform_when (st = Complete)
            (modify (\<lambda>s. s\<lparr>current_job := Some (j\<lparr>events := clear_events (events j)\<rparr>)\<rparr>))
        });
     modify (\<lambda>s. case evict_terminals (terminal_record_entries (config s)) (terminal_records s)
                    (retained_jobs s) of
                  (ts, rs) \<Rightarrow> s\<lparr>terminal_records := ts, retained_jobs := rs\<rparr>);
     w \<leftarrow> gets current_owner;
     perform_when (case w of None \<Rightarrow> False | Some own \<Rightarrow> own_release_after_terminal own) (drop_owner E)
   }"

definition touch_terminal :: "string \<Rightarrow> 'd service \<Rightarrow> 'd service" where
  "touch_terminal ident s =
     s\<lparr>terminal_records := to_front (\<lambda>r. tr_job_id r = ident) (terminal_records s),
       retained_jobs := to_front (\<lambda>r. rt_job_id r = ident) (retained_jobs s)\<rparr>"

definition release_execution_input :: "'d environment \<Rightarrow> 'd service \<Rightarrow> 'd service" where
  "release_execution_input E s = (case current_job s of
     Some j \<Rightarrow> (if env_owns_execution_plan E
               then s\<lparr>current_job := Some (j\<lparr>events := clear_events (events j)\<rparr>)\<rparr> else s)
   | None \<Rightarrow> s)"

definition clear_job :: "'d service \<Rightarrow> 'd service" where
  "clear_job s = s\<lparr>current_job := None, current_digest := replicate 32 0,
     current_adjustments := no_adjustments, current_arm := None, sv_state := Empty\<rparr>"

text \<open>The shutdown the source writes out at each place that ends an execution: disable the engine
  with the configured deadline and, if it acknowledged, observe the output.\<close>

definition engine_stopped :: "'d environment \<Rightarrow> u64 \<Rightarrow> ('d, bool) action" where
  "engine_stopped E now_ns = do {
     timeout \<leftarrow> gets (\<lambda>s. output_disable_timeout_ns (config s));
     disabled \<leftarrow> act (env_disable E (saturating_add now_ns timeout));
     if \<not> disabled then ret False
     else do { active \<leftarrow> output_active E; ret (\<not> active) }
   }"

definition finish_execution :: "'d environment \<Rightarrow> job_state \<Rightarrow> error_code \<Rightarrow> u64 \<Rightarrow> ('d, unit) action" where
  "finish_execution E st err now_ns = do {
     stopped \<leftarrow> engine_stopped E now_ns;
     if \<not> stopped then record_terminal E Failed OutputStateUnknown now_ns
     else record_terminal E st err now_ns
   }"

section \<open>Expiry and pruning\<close>

definition expire_resources :: "'d environment \<Rightarrow> u64 \<Rightarrow> ('d, unit) action" where
  "expire_resources E now_ns = do {
     s \<leftarrow> gets id;
     case current_owner s of None \<Rightarrow> ret ()
     | Some own \<Rightarrow>
         if now_ns < own_expires_monotonic_ns own then ret ()
         else if sv_state s = Armed \<or> sv_state s = Running then
           modify (\<lambda>s. s\<lparr>current_owner := Some (own\<lparr>own_release_after_terminal := True\<rparr>)\<rparr>)
         else if sv_state s = Loaded then do {
           stopped \<leftarrow> engine_stopped E now_ns;
           if \<not> stopped then do {
             record_terminal E Failed OutputStateUnknown now_ns;
             drop_owner E
           } else do {
             record_terminal E Aborted NoError now_ns;
             modify clear_job;
             drop_owner E
           }
         }
         else drop_owner E
   }"

definition expired_after :: "u64 \<Rightarrow> u64 \<Rightarrow> u64 \<Rightarrow> bool" where
  "expired_after now_ns since ttl \<longleftrightarrow> now_ns \<ge> since \<and> now_ns - since \<ge> ttl"

definition prune_replay :: "u64 \<Rightarrow> 'd service \<Rightarrow> 'd service" where
  "prune_replay now_ns s =
     s\<lparr>replay_cache := filter (\<lambda>e. \<not> expired_after now_ns (rp_completed_monotonic_ns e)
         (response_cache_ttl_ns (config s))) (replay_cache s)\<rparr>"

definition prune_terminals :: "u64 \<Rightarrow> 'd service \<Rightarrow> 'd service" where
  "prune_terminals now_ns s =
     (let expired = (\<lambda>r. expired_after now_ns (tr_ended_monotonic_ns r) (terminal_record_ttl_ns (config s)));
          current_record_expired = (case current_job s of None \<Rightarrow> False
            | Some j \<Rightarrow> list_ex (\<lambda>r. expired r \<and> tr_job_id r = job_id j) (terminal_records s));
          kept = filter (\<lambda>r. \<not> expired r) (terminal_records s);
          s = s\<lparr>terminal_records := kept,
                retained_jobs := filter (\<lambda>i. \<not> list_all (\<lambda>r. tr_job_id r \<noteq> rt_job_id i) kept) (retained_jobs s)\<rparr>
      in if current_record_expired \<and> (sv_state s = Complete \<or> sv_state s = Aborted \<or> sv_state s = Missed)
         then clear_job s else s)"

definition prune_sessions :: "u64 \<Rightarrow> 'd service \<Rightarrow> 'd service" where
  "prune_sessions now_ns s =
     s\<lparr>sessions := filter (\<lambda>c. \<not> ((case current_owner s of None \<Rightarrow> True
           | Some own \<Rightarrow> own_session_id own \<noteq> sess_session_id c) \<and>
         expired_after now_ns (sess_last_seen_monotonic_ns c) (response_cache_ttl_ns (config s))))
       (sessions s)\<rparr>"

definition housekeep :: "'d environment \<Rightarrow> u64 \<Rightarrow> ('d, unit) action" where
  "housekeep E now_ns = do {
     expire_resources E now_ns;
     modify (prune_replay now_ns);
     modify (prune_terminals now_ns);
     modify (prune_sessions now_ns)
   }"

section \<open>The replay cache\<close>

datatype replay_result = NotSeen | Conflict | Cached response

definition replay :: "request \<Rightarrow> ('d, replay_result) action" where
  "replay r = do {
     s \<leftarrow> gets id;
     let same = (\<lambda>e. rp_session_id e = req_session_id r \<and> rp_request_id e = req_request_id r);
     case List.find same (replay_cache s) of None \<Rightarrow> ret NotSeen
     | Some entry \<Rightarrow>
         if rp_payload_digest entry \<noteq> req_payload_digest r then ret Conflict
         else do {
           modify (\<lambda>s. s\<lparr>lru_sequence := lru_sequence s + 1\<rparr>);
           modify (\<lambda>s. s\<lparr>replay_cache :=
             update_first same (\<lambda>e. e\<lparr>rp_lru := lru_sequence s\<rparr>) (replay_cache s)\<rparr>);
           ret (Cached (rp_response entry))
         }
   }"

definition older_of_session :: "string \<Rightarrow> replay_entry \<Rightarrow> replay_entry \<Rightarrow> bool" where
  "older_of_session session_id left right =
     (if rp_session_id left \<noteq> session_id then False
      else if rp_session_id right \<noteq> session_id then True
      else rp_lru left < rp_lru right)"

definition remember :: "request \<Rightarrow> response \<Rightarrow> u64 \<Rightarrow> 'd service \<Rightarrow> 'd service" where
  "remember r rsp now_ns s =
     (let cache = replay_cache s;
          session_entries = length (filter (\<lambda>e. rp_session_id e = req_session_id r) cache);
          cache = (if session_entries \<ge> response_cache_entries (config s)
                   then erase_at (min_position (older_of_session (req_session_id r)) cache) cache else cache);
          sequence = lru_sequence s + 1
      in s\<lparr>replay_cache := cache @
            [\<lparr>rp_session_id = req_session_id r, rp_request_id = req_request_id r,
              rp_payload_digest = req_payload_digest r, rp_response = rsp,
              rp_completed_monotonic_ns = now_ns, rp_lru = sequence\<rparr>],
          lru_sequence := sequence\<rparr>)"

section \<open>Admission of jobs and arms\<close>

fun validate_events :: "service_config \<Rightarrow> u64 \<Rightarrow> rf_event list \<Rightarrow> error_code + u64" where
  "validate_events cfg expected_offset [] = Inr expected_offset"
| "validate_events cfg expected_offset (e # es) =
     (if offset_ns e \<noteq> expected_offset \<or> duration_ns e = 0 \<or> duration_ns e > u64_max - expected_offset
      then Inl InvalidMessage
      else if rf_on e \<noteq> (frequency_nhz e \<noteq> None) \<or> frequency_nhz e = Some 0 then Inl InvalidMessage
      else if (case frequency_nhz e of None \<Rightarrow> False
               | Some f \<Rightarrow> f < minimum_frequency_nhz cfg \<or> f > maximum_frequency_nhz cfg)
      then Inl FrequencyRejected
      else validate_events cfg (expected_offset + duration_ns e) es)"

definition validate_job :: "service_config \<Rightarrow> job \<Rightarrow> error_code" where
  "validate_job cfg j =
     (if \<not> valid_events (events j) then
        (if list_failure (events j) = LimitExceeded then JobLimitExceeded else InternalError)
      else if \<not> valid_id (job_id j) \<or> event_count (events j) = 0 then InvalidMessage
      else if profile j \<noteq> ''rf-events/1'' then UnsupportedProfile
      else if mode j \<notin> set (supported_modes cfg) then UnsupportedMode
      else if event_count (events j) > max_events cfg \<or> total_duration_ns j > max_job_duration_ns cfg
      then JobLimitExceeded
      else case validate_events cfg 0 (items (events j)) of
        Inl err \<Rightarrow> err
      | Inr covered \<Rightarrow> (if covered = total_duration_ns j then NoError else InvalidMessage))"

definition clock_trusted :: "service_config \<Rightarrow> clock_snapshot \<Rightarrow> bool" where
  "clock_trusted cfg now \<longleftrightarrow> clock_state now = Synchronized \<or>
     (clock_state now = Holdover \<and> maximum_holdover_age_ns cfg > 0 \<and>
      sync_age_ns now \<le> maximum_holdover_age_ns cfg)"

definition leap_announced :: "clock_snapshot \<Rightarrow> bool" where
  "leap_announced now \<longleftrightarrow> leap now \<noteq> LeapUnknown \<and>
     (leap now = InsertPending \<or> leap now = DeletePending) = (leap_transition_utc_ns now \<noteq> None)"

definition validate_arm ::
  "service_config \<Rightarrow> u64 \<Rightarrow> u64 \<Rightarrow> arm_body \<Rightarrow> clock_snapshot \<Rightarrow> error_code + u64" where
  "validate_arm cfg resolution total_ns arm now =
     (let start = arm_start_utc_ns arm; ahead = start - utc_now_ns now;
          window = start_window_ns start; latest = start + window - 1;
          budget = min (arm_max_start_uncertainty_ns arm) (maximum_arm_uncertainty_ns cfg) in
      if clock_state now = Unsynchronized then Inl ClockUnsynchronized
      else if clock_state now = Holdover \<and>
              (maximum_holdover_age_ns cfg = 0 \<or> sync_age_ns now > maximum_holdover_age_ns cfg)
      then Inl ClockUnsynchronized
      else if uncertainty_ns now > arm_max_start_uncertainty_ns arm \<or>
              uncertainty_ns now > maximum_arm_uncertainty_ns cfg
      then Inl ClockUncertain
      else if \<not> leap_announced now then Inl LeapUnsafe
      else if start < utc_now_ns now \<or> start - utc_now_ns now < minimum_arm_lead_ns cfg
      then Inl ArmTooLate
      else if ahead > maximum_arm_ahead_ns cfg then Inl ArmTooFar
      else if ahead > u64_max - monotonic_now_ns now \<or> total_ns > u64_max - start
      then Inl InvalidMessage
      else if resolution = 0 then Inl DeviceFault
      else case inverse_utc now start of None \<Rightarrow> Inl InvalidMessage
      | Some nominal_start \<Rightarrow>
        let adjustment = (resolution - nominal_start mod resolution) mod resolution in
        if nominal_start > u64_max - window \<or> start > u64_max - window \<or> adjustment \<ge> window \<or>
           total_ns > u64_max - (nominal_start + window) \<or> total_ns > u64_max - (start + window)
        then Inl InvalidMessage
        else if (case elapsed_utc (adjustment + of_bool (rate_ppb now \<noteq> 0)) (rate_ppb now) True of
             None \<Rightarrow> True
           | Some rounding_utc \<Rightarrow>
             (case growth (nominal_start - monotonic_now_ns now) (ucast (rate_uncertainty_ppb now)) of
               None \<Rightarrow> True
             | Some future_growth \<Rightarrow> future_growth > budget - uncertainty_ns now \<or>
                 rounding_utc > budget - uncertainty_ns now - future_growth))
        then Inl ClockUncertain
        else if total_ns > u64_max - nominal_start then Inl InvalidMessage
        else case duration_utc_bound total_ns now of None \<Rightarrow> Inl LeapUnsafe
        | Some duration \<Rightarrow>
          if latest \<ge> valid_until_utc_ns now \<or> duration \<ge> valid_until_utc_ns now - latest
          then Inl LeapUnsafe
          else case leap_transition_utc_ns now of None \<Rightarrow> Inr nominal_start
          | Some transition \<Rightarrow>
            let exclusion_start = (if transition > leap_exclusion_ns then transition - leap_exclusion_ns else 0);
                exclusion_end = saturating_add transition leap_exclusion_ns in
            if duration > u64_max - latest then Inl InvalidMessage
            else if start \<le> exclusion_end \<and> latest + duration \<ge> exclusion_start then Inl LeapUnsafe
            else Inr nominal_start)"

section \<open>Operations of the protocol\<close>

definition dispatch_query :: "'d environment \<Rightarrow> request \<Rightarrow> clock_snapshot \<Rightarrow> ('d, response) action" where
  "dispatch_query E r now =
     (let valid_ping = (case req_body r of NoBody \<Rightarrow> True
            | PingBody None \<Rightarrow> True | PingBody (Some token) \<Rightarrow> length token \<le> 64 | _ \<Rightarrow> False) in
      if req_operation r \<noteq> ''HELLO'' \<and> req_operation r \<noteq> ''PING'' \<and> req_body r \<noteq> NoBody
      then reject E InvalidMessage
      else if req_operation r = ''PING'' \<and> \<not> valid_ping then reject E InvalidMessage
      else do {
        rsp \<leftarrow> success E;
        rsp \<leftarrow> (if req_operation r = ''STATUS'' then do {
            st \<leftarrow> status E True;
            ret (rsp\<lparr>rsp_status_snapshot := Some st\<rparr>)
          } else ret rsp);
        let rsp = (if req_operation r = ''GET_CLOCK'' then rsp\<lparr>rsp_clock_snapshot := Some now\<rparr> else rsp);
        ret (case req_body r of PingBody token \<Rightarrow> rsp\<lparr>rsp_ping_token := token\<rparr> | _ \<Rightarrow> rsp)
      })"

definition legal_lease :: "string \<Rightarrow> u32 \<Rightarrow> bool" where
  "legal_lease owner_id lease_ms \<longleftrightarrow> \<not> (\<not> valid_id owner_id \<or> lease_ms < 5000 \<or> lease_ms > 60000)"

definition lease_end :: "clock_snapshot \<Rightarrow> u32 \<Rightarrow> u64" where
  "lease_end now lease_ms =
     saturating_add (monotonic_now_ns now) (ucast lease_ms * nanoseconds_per_millisecond)"

definition lease_response :: "response \<Rightarrow> string \<Rightarrow> u32 \<Rightarrow> u64 \<Rightarrow> response" where
  "lease_response rsp owner_id lease_ms expires =
     rsp\<lparr>rsp_owner_id := owner_id, rsp_granted_lease_ms := lease_ms, rsp_expires_monotonic_ns := expires\<rparr>"

definition dispatch_claim :: "'d environment \<Rightarrow> request \<Rightarrow> clock_snapshot \<Rightarrow> ('d, response) action" where
  "dispatch_claim E r now =
     (case req_body r of
        ClaimBody owner_id lease_ms \<Rightarrow>
          if \<not> legal_lease owner_id lease_ms then reject E InvalidMessage
          else do {
            own \<leftarrow> gets current_owner;
            if own \<noteq> None then reject E Busy
            else do {
              calibration_boundary E;
              modify (\<lambda>s. s\<lparr>current_owner := Some
                \<lparr>own_owner_id = owner_id, own_session_id = req_session_id r,
                 own_principal = req_principal r, own_expires_monotonic_ns = lease_end now lease_ms,
                 own_release_after_terminal = False\<rparr>\<rparr>);
              rsp \<leftarrow> success E;
              ret (lease_response rsp owner_id lease_ms (lease_end now lease_ms))
            }
          }
      | _ \<Rightarrow> reject E InvalidMessage)"

definition dispatch_renew :: "'d environment \<Rightarrow> request \<Rightarrow> clock_snapshot \<Rightarrow> ('d, response) action" where
  "dispatch_renew E r now = do {
     own \<leftarrow> gets current_owner;
     (case (req_body r, own) of
        (RenewBody owner_id lease_ms, Some own) \<Rightarrow>
          if \<not> legal_lease owner_id lease_ms then reject E InvalidMessage
          else if owner_id \<noteq> own_owner_id own then reject E NotOwner
          else if own_release_after_terminal own then reject E LeaseExpired
          else do {
            modify (\<lambda>s. s\<lparr>current_owner := Some (own\<lparr>own_expires_monotonic_ns := lease_end now lease_ms\<rparr>)\<rparr>);
            rsp \<leftarrow> success E;
            ret (lease_response rsp (own_owner_id own) lease_ms (lease_end now lease_ms))
          }
      | _ \<Rightarrow> reject E InvalidMessage)
   }"

definition dispatch_release :: "'d environment \<Rightarrow> request \<Rightarrow> ('d, response) action" where
  "dispatch_release E r = do {
     st \<leftarrow> gets sv_state;
     if req_body r \<noteq> NoBody then reject E InvalidMessage
     else if st = Armed \<or> st = Running \<or> st = Failed then reject E InvalidState
     else do {
       modify clear_job;
       drop_owner E;
       success E
     }
   }"

definition load_response :: "'d environment \<Rightarrow> string \<Rightarrow> ('d, response) action" where
  "load_response E ident = do {
     rsp \<leftarrow> success E;
     adjustments \<leftarrow> gets current_adjustments;
     ret (rsp\<lparr>rsp_state := Loaded, rsp_job_id := ident, rsp_adjustments := adjustments\<rparr>)
   }"

definition dispatch_load_replay :: "'d environment \<Rightarrow> string \<Rightarrow> bytes \<Rightarrow> ('d, response) action" where
  "dispatch_load_replay E ident digest = do {
     active \<leftarrow> output_active E;
     s \<leftarrow> gets id;
     if active \<or> sv_state s = Failed then reject E InvalidState
     else case List.find (\<lambda>i. rt_job_id i = ident) (retained_jobs s) of
       Some retained \<Rightarrow>
         if rt_digest retained \<noteq> digest then reject E JobIdConflict
         else do {
           modify (touch_terminal ident);
           ret (retained_load_response (boot_id s) retained)
         }
     | None \<Rightarrow>
         if (case current_job s of None \<Rightarrow> True | Some j \<Rightarrow> job_id j \<noteq> ident) then reject E InvalidState
         else if current_digest s \<noteq> digest then reject E JobIdConflict
         else load_response E ident
   }"

text \<open>The check of the engine's adjustments against the accepted job, and the distinct transmit
  frequencies kept for display (at most four).\<close>

fun adjustments_acceptable :: "rf_event list \<Rightarrow> frequency_adjustment list \<Rightarrow> frequency_adjustment list \<Rightarrow> bool" where
  "adjustments_acceptable es prior [] = True"
| "adjustments_acceptable es prior (a # as) =
     (\<not> (event_index a \<ge> length es \<or>
         frequency_nhz (es ! event_index a) \<noteq> Some (requested_frequency_nhz a) \<or>
         realized_frequency_nhz a = 0 \<or>
         list_ex (\<lambda>p. event_index p = event_index a) prior) \<and>
      adjustments_acceptable es (prior @ [a]) as)"

definition observe_frequency :: "rf_event \<Rightarrow> u64 list \<times> bool \<Rightarrow> u64 list \<times> bool" where
  "observe_frequency e seen =
     (case (rf_on e, frequency_nhz e) of
        (True, Some f) \<Rightarrow>
          (if f \<in> set (fst seen) then seen
           else if length (fst seen) < 4 then (fst seen @ [f], snd seen)
           else (fst seen, True))
      | _ \<Rightarrow> seen)"

definition same_adjustments :: "adjustment_list \<Rightarrow> frequency_adjustment list \<Rightarrow> bool" where
  "same_adjustments kept fresh \<longleftrightarrow> adjustment_count kept = length fresh \<and>
     (adjustment_count kept = 0 \<or> list_all2 (=) (adjustment_items kept) fresh)"

definition accept_job :: "job \<Rightarrow> bytes \<Rightarrow> frequency_adjustment list \<Rightarrow> 'd service \<Rightarrow> 'd service" where
  "accept_job j digest adjustments s =
     (case fold observe_frequency (items (events j)) ([], False) of (frequencies, truncated) \<Rightarrow>
      s\<lparr>observed_event_count := event_count (events j), observed_frequencies := frequencies,
        observed_frequencies_truncated := truncated,
        current_job := Some j, current_digest := digest,
        current_adjustments :=
          (case List.find (\<lambda>i. same_adjustments (rt_adjustments i) adjustments) (retained_jobs s) of
             None \<Rightarrow> adjustment_list_of adjustments
           | Some i \<Rightarrow> rt_adjustments i),
        current_arm := None, sv_state := Loaded\<rparr>)"

definition available_memory :: "'d environment \<Rightarrow> ('d, nat option) action" where
  "available_memory E = (case env_available_memory E of None \<Rightarrow> ret None
     | Some f \<Rightarrow> do { n \<leftarrow> act f; ret (Some n) })"

definition dispatch_load :: "'d environment \<Rightarrow> job \<Rightarrow> ('d, response) action" where
  "dispatch_load E j = do {
     active \<leftarrow> output_active E;
     s \<leftarrow> gets id;
     if active then reject E InvalidState
     else if sv_state s = Failed then reject E InvalidState
     else case List.find (\<lambda>i. rt_job_id i = job_id j) (retained_jobs s) of
       Some retained \<Rightarrow>
         if rt_digest retained \<noteq> job_digest j then reject E JobIdConflict
         else do {
           modify (touch_terminal (job_id j));
           ret (retained_load_response (boot_id s) retained)
         }
     | None \<Rightarrow>
         if (case current_job s of None \<Rightarrow> False | Some cur \<Rightarrow> job_id cur = job_id j) then
           (if current_digest s = job_digest j then load_response E (job_id j)
            else reject E JobIdConflict)
         else if sv_state s = Armed \<or> sv_state s = Running then reject E InvalidState
         else if validate_job (config s) j \<noteq> NoError then reject E (validate_job (config s) j)
         else do {
           available \<leftarrow> available_memory E;
           if \<not> memory_admitted available (env_preparation_memory_bytes E j) authority_reserve
           then reject E InternalError
           else if \<not> valid_events (events j) then reject E InternalError
           else do {
             preparation \<leftarrow> act (env_prepare E j);
             if \<not> fst preparation then reject E FrequencyRejected
             else if \<not> allow_frequency_adjustment j \<and> snd preparation \<noteq> []
             then reject E FrequencyRejected
             else if \<not> adjustments_acceptable (items (events j)) [] (snd preparation)
             then reject E DeviceFault
             else do {
               modify (accept_job j (job_digest j) (snd preparation));
               load_response E (job_id j)
             }
           }
         }
   }"

definition arm_current :: "'d environment \<Rightarrow> request \<Rightarrow> arm_body \<Rightarrow> clock_snapshot \<Rightarrow> ('d, response) action" where
  "arm_current E r body now = do {
     s \<leftarrow> gets id;
     case current_job s of None \<Rightarrow> reject E JobNotFound
     | Some j \<Rightarrow>
       if job_id j \<noteq> arm_job_id body then reject E JobNotFound
       else if sv_state s \<noteq> Loaded then reject E InvalidState
       else do {
         active \<leftarrow> output_active E;
         if active then reject E InvalidState
         else case validate_arm (config s) (env_start_resolution_ns E) (total_duration_ns j) body now of
           Inl err \<Rightarrow> reject E err
         | Inr start_monotonic_ns \<Rightarrow> do {
             let arm = \<lparr>rec_start_utc_ns = arm_start_utc_ns body,
                        rec_max_uncertainty_ns = arm_max_start_uncertainty_ns body,
                        rec_start_monotonic_ns = start_monotonic_ns, rec_clock_snapshot = now,
                        rec_scheduled_locally = env_schedules_locally E, rec_launch_monotonic_ns = None\<rparr>;
             modify (\<lambda>s. s\<lparr>sv_state := Armed, current_arm := Some arm\<rparr>);
             let rsp = arm_response (boot_id s) (job_id j) arm;
             unscheduled \<leftarrow> (if env_schedules_locally E then do {
                 scheduled \<leftarrow> act (env_schedule E j start_monotonic_ns
                   \<lparr>conditions_start_utc_ns = arm_start_utc_ns body,
                    conditions_maximum_uncertainty_ns =
                      min (arm_max_start_uncertainty_ns body) (maximum_arm_uncertainty_ns (config s)),
                    conditions_maximum_holdover_age_ns = maximum_holdover_age_ns (config s),
                    conditions_start_adjustment_ns = 0\<rparr>);
                 if \<not> scheduled then ret True else output_active E
               } else ret False);
             if unscheduled then do {
               modify (\<lambda>s. s\<lparr>current_arm := None\<rparr>);
               stopped \<leftarrow> engine_stopped E (monotonic_now_ns now);
               let err = (if stopped then DeviceFault else OutputStateUnknown);
               record_terminal E Failed err (monotonic_now_ns now);
               reject E err
             } else do {
               (case env_arm_observer E of None \<Rightarrow> ret ()
                | Some observer \<Rightarrow> act (observer j (arm_job_id body) (arm_start_utc_ns body)
                    (arm_max_start_uncertainty_ns body) now (req_principal r)));
               perform_when (env_schedules_locally E) (modify (release_execution_input E));
               ret rsp
             }
           }
       }
   }"

definition dispatch_arm :: "'d environment \<Rightarrow> request \<Rightarrow> arm_body \<Rightarrow> clock_snapshot \<Rightarrow> ('d, response) action" where
  "dispatch_arm E r body now = do {
     s \<leftarrow> gets id;
     if \<not> valid_id (arm_job_id body) then reject E InvalidMessage
     else case List.find (\<lambda>i. rt_job_id i = arm_job_id body) (retained_jobs s) of
       Some retained \<Rightarrow>
         (case rt_arm retained of None \<Rightarrow> reject E InvalidState
          | Some arm \<Rightarrow>
            if rec_start_utc_ns arm \<noteq> arm_start_utc_ns body \<or>
               rec_max_uncertainty_ns arm \<noteq> arm_max_start_uncertainty_ns body
            then reject E InvalidState
            else do {
              modify (touch_terminal (arm_job_id body));
              ret (arm_response (boot_id s) (rt_job_id retained) arm)
            })
     | None \<Rightarrow>
         (case (current_arm s, current_job s) of
            (Some arm, Some j) \<Rightarrow>
              if job_id j = arm_job_id body \<and> rec_start_utc_ns arm = arm_start_utc_ns body \<and>
                 rec_max_uncertainty_ns arm = arm_max_start_uncertainty_ns body
              then ret (arm_response (boot_id s) (job_id j) arm)
              else if job_id j = arm_job_id body \<and> (sv_state s = Armed \<or> sv_state s = Running)
              then reject E ArmConflict
              else arm_current E r body now
          | _ \<Rightarrow> arm_current E r body now)
   }"

definition abort_job :: "'d environment \<Rightarrow> string \<Rightarrow> ('d, response) action" where
  "abort_job E ident = do {
     now \<leftarrow> snapshot E;
     s \<leftarrow> gets id;
     let done = (\<lambda>rsp. rsp\<lparr>rsp_state := Aborted, rsp_job_id := ident\<rparr>);
     if (case current_job s of None \<Rightarrow> True | Some j \<Rightarrow> job_id j \<noteq> ident) then reject E JobNotFound
     else if sv_state s = Aborted then do { rsp \<leftarrow> success E; ret (done rsp) }
     else if sv_state s = Complete \<or> sv_state s = Missed then reject E InvalidState
     else if sv_state s = Failed then reject E OutputStateUnknown
     else do {
       stopped \<leftarrow> engine_stopped E (monotonic_now_ns now);
       if \<not> stopped then do {
         record_terminal E Failed OutputStateUnknown (monotonic_now_ns now);
         reject E OutputStateUnknown
       } else do {
         record_terminal E Aborted NoError (monotonic_now_ns now);
         rsp \<leftarrow> success E;
         ret (done rsp)
       }
     }
   }"

definition operations :: "string list" where
  "operations = [''HELLO'', ''CAPS'', ''CLAIM'', ''RENEW'', ''RELEASE'', ''LOAD'', ''ARM'', ''ABORT'',
     ''STATUS'', ''GET_CLOCK'', ''PING'']"

definition query_operations :: "string list" where
  "query_operations = [''HELLO'', ''CAPS'', ''STATUS'', ''GET_CLOCK'', ''PING'']"

definition owner_body_matches :: "string \<Rightarrow> request_body \<Rightarrow> bool" where
  "owner_body_matches op body =
     (case body of
        NoBody \<Rightarrow> op = ''RELEASE''
      | RenewBody i l \<Rightarrow> op = ''RENEW''
      | JobBody j \<Rightarrow> op = ''LOAD''
      | LoadReplayBody i d \<Rightarrow> op = ''LOAD''
      | ArmBody b \<Rightarrow> op = ''ARM''
      | AbortBody i \<Rightarrow> op = ''ABORT''
      | _ \<Rightarrow> False)"

definition dispatch_owned :: "'d environment \<Rightarrow> request \<Rightarrow> clock_snapshot \<Rightarrow> ('d, response) action" where
  "dispatch_owned E r now =
     (if req_operation r = ''RENEW'' then dispatch_renew E r now
      else if req_operation r = ''RELEASE'' then dispatch_release E r
      else if req_operation r = ''LOAD'' then
        (case req_body r of
           LoadReplayBody ident digest \<Rightarrow> dispatch_load_replay E ident digest
         | JobBody j \<Rightarrow> dispatch_load E j
         | _ \<Rightarrow> reject E InvalidMessage)
      else if req_operation r = ''ARM'' then
        (case req_body r of ArmBody body \<Rightarrow> dispatch_arm E r body now | _ \<Rightarrow> reject E InvalidMessage)
      else
        (case req_body r of
           AbortBody ident \<Rightarrow> (if \<not> valid_id ident then reject E InvalidMessage else abort_job E ident)
         | _ \<Rightarrow> reject E InvalidMessage))"

definition dispatch :: "'d environment \<Rightarrow> request \<Rightarrow> ('d, response) action" where
  "dispatch E r = do {
     now \<leftarrow> snapshot E;
     s \<leftarrow> gets id;
     if req_operation r \<notin> set operations then reject E UnknownOperation
     else if \<not> req_body_valid r then reject E InvalidMessage
     else if req_operation r \<in> set query_operations then dispatch_query E r now
     else if req_operation r = ''CLAIM'' then dispatch_claim E r now
     else if \<not> owner_body_matches (req_operation r) (req_body r) then reject E InvalidMessage
     else if current_owner s = None then reject E LeaseExpired
     else if \<not> owns s r then reject E NotOwner
     else dispatch_owned E r now
   }"

section \<open>Request handling\<close>

definition guarded_operations :: "string list" where
  "guarded_operations = [''CLAIM'', ''RENEW'', ''LOAD'', ''ARM'']"

definition hello_versions_ok :: "request_body \<Rightarrow> bool" where
  "hello_versions_ok body =
     (case body of
        HelloBody versions \<Rightarrow> \<not> (versions = [] \<or> length versions > 16 \<or>
          \<not> list_all valid_protocol_version versions \<or> \<not> distinct versions)
      | _ \<Rightarrow> False)"

definition hello_speaks_wtp1 :: "request_body \<Rightarrow> bool" where
  "hello_speaks_wtp1 body = (case body of HelloBody versions \<Rightarrow> ''WTP/1'' \<in> set versions | _ \<Rightarrow> False)"

definition see_session :: "request \<Rightarrow> u64 \<Rightarrow> 'd service \<Rightarrow> 'd service" where
  "see_session r now_ns s =
     s\<lparr>sessions := update_first (\<lambda>c. sess_session_id c = req_session_id r)
        (\<lambda>c. c\<lparr>sess_last_seen_monotonic_ns := now_ns\<rparr>) (sessions s)\<rparr>"

text \<open>The session checks of \<open>handle_owned\<close>: the early response, if there is one.\<close>

definition admit_session :: "'d environment \<Rightarrow> request \<Rightarrow> u64 \<Rightarrow> ('d, response option) action" where
  "admit_session E r now_ns = do {
     s \<leftarrow> gets id;
     let found = List.find (\<lambda>c. sess_session_id c = req_session_id r) (sessions s);
     if req_operation r = ''HELLO'' then
       if \<not> hello_versions_ok (req_body r) then do { rsp \<leftarrow> reject E InvalidMessage; ret (Some rsp) }
       else if \<not> hello_speaks_wtp1 (req_body r)
       then do { rsp \<leftarrow> reject E UnsupportedVersion; ret (Some (closing rsp)) }
       else case found of
         Some c \<Rightarrow>
           if sess_principal c \<noteq> req_principal r
           then do { rsp \<leftarrow> reject E AuthenticationRequired; ret (Some rsp) }
           else do { modify (see_session r now_ns); ret None }
       | None \<Rightarrow>
           if \<not> req_body_valid r then do { rsp \<leftarrow> reject E InvalidMessage; ret (Some rsp) }
           else if length (sessions s) \<ge> maximum_sessions
           then do { rsp \<leftarrow> reject E Busy; ret (Some rsp) }
           else do {
             modify (\<lambda>s. s\<lparr>sessions := sessions s @
               [\<lparr>sess_session_id = req_session_id r, sess_principal = req_principal r,
                 sess_last_seen_monotonic_ns = now_ns\<rparr>]\<rparr>);
             ret None
           }
     else case found of
       None \<Rightarrow> do { rsp \<leftarrow> reject E HelloRequired; ret (Some rsp) }
     | Some c \<Rightarrow>
         if sess_principal c \<noteq> req_principal r
         then do { rsp \<leftarrow> reject E AuthenticationRequired; ret (Some rsp) }
         else do { modify (see_session r now_ns); ret None }
   }"

definition answer :: "'d environment \<Rightarrow> request \<Rightarrow> bool \<Rightarrow> u64 \<Rightarrow> ('d, response) action" where
  "answer E r retain now_ns = do {
     cached \<leftarrow> replay r;
     (case cached of
        Cached rsp \<Rightarrow> ret rsp
      | Conflict \<Rightarrow> do { rsp \<leftarrow> reject E RequestIdReuse; ret (closing rsp) }
      | NotSeen \<Rightarrow> do {
          rsp \<leftarrow> dispatch E r;
          perform_when retain (modify (remember r rsp now_ns));
          ret rsp
        })
   }"

definition handle_owned :: "'d environment \<Rightarrow> request \<Rightarrow> bool \<Rightarrow> ('d, response) action" where
  "handle_owned E r retain = do {
     now \<leftarrow> snapshot E;
     housekeep E (monotonic_now_ns now);
     s \<leftarrow> gets id;
     if \<not> ready s then reject E DeviceFault
     else if \<not> valid_id (req_session_id r) \<or> \<not> valid_id (req_request_id r) \<or>
             list_all (\<lambda>b. b = 0) (req_payload_digest r)
     then reject E InvalidMessage
     else if req_principal r = [] then reject E AuthenticationRequired
     else if req_protocol r \<noteq> ''WTP/1'' then do {
       rsp \<leftarrow> reject E UnsupportedVersion;
       ret (closing rsp)
     }
     else do {
       closed \<leftarrow> (if output_inhibited s then ret True else maintenance E);
       if closed \<and> req_operation r \<in> set guarded_operations then reject E Busy
       else do {
         early \<leftarrow> admit_session E r (monotonic_now_ns now);
         (case early of Some rsp \<Rightarrow> ret rsp
          | None \<Rightarrow> answer E r retain (monotonic_now_ns now))
       }
     }
   }"

definition handle :: "'d environment \<Rightarrow> request \<Rightarrow> ('d, response) action" where
  "handle E r = handle_owned E r True"

definition handle_internal :: "'d environment \<Rightarrow> request \<Rightarrow> ('d, response) action" where
  "handle_internal E r = handle_owned E r False"

section \<open>Polling: launch and completion\<close>

text \<open>The conditions under which \<open>poll\<close> starts an armed job from the foreground: the clock is
  trusted and within the uncertainty the client and the configuration allow, the mapping of the
  armed instant still agrees with the requested second, no leap second or source horizon is
  reached, and the delay has not left the requested UTC second.\<close>

definition launch_latest :: "arm_record \<Rightarrow> u64" where
  "launch_latest arm = rec_start_utc_ns arm + start_window_ns (rec_start_utc_ns arm) - 1"

definition launch_leap_ok :: "arm_record \<Rightarrow> u64 \<Rightarrow> clock_snapshot \<Rightarrow> bool" where
  "launch_leap_ok arm total_ns now \<longleftrightarrow>
     leap_announced now \<and>
     (case duration_utc_bound total_ns now of None \<Rightarrow> False
      | Some duration \<Rightarrow>
        launch_latest arm < valid_until_utc_ns now \<and>
        duration < valid_until_utc_ns now - launch_latest arm \<and>
        (case leap_transition_utc_ns now of None \<Rightarrow> True
         | Some transition \<Rightarrow>
           let exclusion_start = (if transition > leap_exclusion_ns then transition - leap_exclusion_ns else 0);
               exclusion_end = saturating_add transition leap_exclusion_ns in
           duration \<le> u64_max - launch_latest arm \<and>
           (rec_start_utc_ns arm > exclusion_end \<or> launch_latest arm + duration < exclusion_start)))"

definition distance :: "u64 \<Rightarrow> u64 \<Rightarrow> u64" where
  "distance x y = (if x > y then x - y else y - x)"

definition launch_permitted :: "service_config \<Rightarrow> arm_record \<Rightarrow> u64 \<Rightarrow> clock_snapshot \<Rightarrow> bool" where
  "launch_permitted cfg arm total_ns now \<longleftrightarrow>
     (case (project now (rec_start_monotonic_ns arm),
            elapsed_utc (monotonic_now_ns now - rec_start_monotonic_ns arm) (rate_ppb now) True) of
        (Some mapped, Some utc_delay) \<Rightarrow>
          \<not> utc_delay \<ge> start_window_ns (rec_start_utc_ns arm) \<and>
          clock_trusted cfg now \<and>
          uncertainty_ns now \<le> rec_max_uncertainty_ns arm \<and>
          uncertainty_ns now \<le> maximum_arm_uncertainty_ns cfg \<and>
          distance mapped (rec_start_utc_ns arm) \<le> uncertainty_ns now \<and>
          launch_leap_ok arm total_ns now
      | _ \<Rightarrow> False)"

text \<open>\<open>poll\<close> in three parts: the report of an engine that launches by itself (\<open>None\<close>: nothing to do
  yet), the foreground launch of an armed job, and the supervision of a running one.\<close>

definition poll_local :: "'d environment \<Rightarrow> clock_snapshot \<Rightarrow> ('d, engine_report option option) action" where
  "poll_local E now = do {
     s \<leftarrow> gets id;
     if sv_state s = Armed \<and> current_job s \<noteq> None \<and>
        (case current_arm s of None \<Rightarrow> False | Some arm \<Rightarrow> rec_scheduled_locally arm)
     then do {
       report \<leftarrow> act (env_poll E (monotonic_now_ns now));
       if report_state report = EngineArmed \<and>
          (\<not> report_output_active report \<or> report_chain_phase report = ChainLead \<or>
           report_chain_phase report = ChainSelecting)
       then ret None
       else do {
         modify (\<lambda>s. s\<lparr>sv_state := Running\<rparr>);
         ret (Some (Some report))
       }
     }
     else ret (Some None)
   }"

definition poll_launch :: "'d environment \<Rightarrow> clock_snapshot \<Rightarrow> ('d, bool) action" where
  "poll_launch E now = do {
     s \<leftarrow> gets id;
     case (current_arm s, current_job s) of
       (Some arm, Some j) \<Rightarrow>
         if sv_state s \<noteq> Armed then ret True
         else if monotonic_now_ns now < rec_start_monotonic_ns arm then ret False
         else if \<not> launch_permitted (config s) arm (total_duration_ns j) now then do {
           finish_execution E Missed MissedStart (monotonic_now_ns now);
           ret False
         }
         else do {
           begun \<leftarrow> act (env_begin E j (monotonic_now_ns now));
           if \<not> begun then do {
             finish_execution E Failed DeviceFault (monotonic_now_ns now);
             ret False
           }
           else do {
             modify (\<lambda>s. s\<lparr>current_arm := Some (arm\<lparr>rec_launch_monotonic_ns := Some (monotonic_now_ns now)\<rparr>)\<rparr>);
             modify (release_execution_input E);
             modify (\<lambda>s. s\<lparr>sv_state := Running\<rparr>);
             ret True
           }
         }
     | _ \<Rightarrow> ret True
   }"

definition launch_time :: "arm_record \<Rightarrow> u64" where
  "launch_time arm = (case rec_launch_monotonic_ns arm of Some t \<Rightarrow> t | None \<Rightarrow> rec_start_monotonic_ns arm)"

definition acknowledgement_ns :: "'d environment \<Rightarrow> service_config \<Rightarrow> arm_record \<Rightarrow> u64" where
  "acknowledgement_ns E cfg arm =
     (if rec_scheduled_locally arm then
        min (env_completion_acknowledgement_ns E)
          (if env_externally_controlled_completion E then output_disable_timeout_ns cfg
           else maximum_completion_acknowledgement_ns)
      else 0)"

definition note_launch :: "engine_report \<Rightarrow> 'd service \<Rightarrow> 'd service" where
  "note_launch report s = (case (current_arm s, report_launch_monotonic_ns report) of
     (Some arm, Some t) \<Rightarrow> s\<lparr>current_arm := Some (arm\<lparr>rec_launch_monotonic_ns := Some t\<rparr>)\<rparr>
   | _ \<Rightarrow> s)"

definition tail_pending :: "'d environment \<Rightarrow> arm_record \<Rightarrow> engine_report \<Rightarrow> u64 \<Rightarrow> u64 \<Rightarrow> u64 \<Rightarrow> ('d, bool) action" where
  "tail_pending E arm report nominal_end acknowledgement now_ns =
     (case report_tail_deadline_ns report of
        Some deadline \<Rightarrow>
          if rec_scheduled_locally arm \<and> report_state report = EngineRunning \<and>
             report_chain_phase report = ChainTail \<and> env_amplifier_tail_ns E \<noteq> 0
          then do {
            observed \<leftarrow> snapshot E;
            ret (deadline \<ge> nominal_end \<and>
                 deadline \<le> saturating_add (monotonic_now_ns observed) (env_amplifier_tail_ns E) \<and>
                 now_ns \<le> saturating_add deadline acknowledgement)
          }
          else ret False
      | None \<Rightarrow> ret False)"

definition poll_overdue :: "'d environment \<Rightarrow> arm_record \<Rightarrow> job \<Rightarrow> engine_report \<Rightarrow> u64 \<Rightarrow> ('d, unit) action" where
  "poll_overdue E arm j report now_ns = do {
     s \<leftarrow> gets id;
     let nominal_end = saturating_add (launch_time arm) (total_duration_ns j);
     let acknowledgement = acknowledgement_ns E (config s) arm;
     tail \<leftarrow> tail_pending E arm report nominal_end acknowledgement now_ns;
     if tail then ret ()
     else if report_state report = EngineRunning \<and> acknowledgement \<noteq> 0 \<and>
             now_ns \<le> saturating_add nominal_end acknowledgement
     then ret ()
     else finish_execution E Failed DeviceFault now_ns
   }"

definition poll_running :: "'d environment \<Rightarrow> clock_snapshot \<Rightarrow> engine_report option \<Rightarrow> ('d, unit) action" where
  "poll_running E now local_report = do {
     report \<leftarrow> (case local_report of Some r \<Rightarrow> ret r | None \<Rightarrow> act (env_poll E (monotonic_now_ns now)));
     modify (note_launch report);
     s \<leftarrow> gets id;
     case report_state report of
       EngineMissed \<Rightarrow> finish_execution E Missed MissedStart (monotonic_now_ns now)
     | EngineFailed \<Rightarrow> finish_execution E Failed DeviceFault (monotonic_now_ns now)
     | EngineComplete \<Rightarrow> finish_execution E Complete NoError (monotonic_now_ns now)
     | _ \<Rightarrow>
         (case (current_arm s, current_job s) of
            (Some arm, Some j) \<Rightarrow>
              if monotonic_now_ns now \<ge> saturating_add (launch_time arm) (total_duration_ns j)
              then poll_overdue E arm j report (monotonic_now_ns now)
              else ret ()
          | _ \<Rightarrow> ret ())
   }"

definition poll :: "'d environment \<Rightarrow> ('d, unit) action" where
  "poll E = do {
     now \<leftarrow> snapshot E;
     housekeep E (monotonic_now_ns now);
     local \<leftarrow> poll_local E now;
     (case local of None \<Rightarrow> ret ()
      | Some report \<Rightarrow> do {
          proceed \<leftarrow> poll_launch E now;
          st \<leftarrow> gets sv_state;
          perform_when (proceed \<and> st = Running) (poll_running E now report)
        })
   }"

section \<open>Local control\<close>

definition begin_maintenance :: "'d environment \<Rightarrow> ('d, bool) action" where
  "begin_maintenance E = do {
     clock \<leftarrow> snapshot E;
     s \<leftarrow> gets id;
     let now = monotonic_now_ns clock;
     if \<not> ready s \<or> output_inhibited s then ret False
     else do {
       busy \<leftarrow> maintenance E;
       if busy \<or> current_owner s \<noteq> None \<or> sv_state s \<noteq> Empty then ret False
       else do {
         active \<leftarrow> output_active E;
         if active \<or> now > u64_max - 15000000000 then ret False
         else do {
           modify (\<lambda>s. s\<lparr>maintenance_deadline_ns := now + 15000000000\<rparr>);
           ret True
         }
       }
     }
   }"

definition end_maintenance :: "'d service \<Rightarrow> 'd service" where
  "end_maintenance s = s\<lparr>maintenance_deadline_ns := 0\<rparr>"

definition hold_update_verification :: "'d service \<Rightarrow> 'd service" where
  "hold_update_verification s = s\<lparr>update_verification := True\<rparr>"

definition finish_update_verification :: "'d service \<Rightarrow> 'd service" where
  "finish_update_verification s = s\<lparr>update_verification := False\<rparr>"

definition local_abort :: "'d environment \<Rightarrow> ('d, response) action" where
  "local_abort E = do {
     poll E;
     s \<leftarrow> gets id;
     if sv_state s = Failed \<or> \<not> ready s then reject E OutputStateUnknown
     else do {
       rsp \<leftarrow> (case current_job s of
           Some j \<Rightarrow> (if sv_state s \<noteq> Complete \<and> sv_state s \<noteq> Missed then abort_job E (job_id j)
                     else do {
                       active \<leftarrow> output_active E;
                       if active then reject E OutputStateUnknown else success E
                     })
         | None \<Rightarrow> do {
             active \<leftarrow> output_active E;
             if active then reject E OutputStateUnknown else success E
           });
       perform_when (rsp_ok rsp) (drop_owner E);
       ret rsp
     }
   }"

definition local_inhibit_output :: "'d environment \<Rightarrow> ('d, bool) action" where
  "local_inhibit_output E = do {
     modify (\<lambda>s. s\<lparr>output_inhibited := True\<rparr>);
     act (env_inhibit_output E);
     aborted \<leftarrow> local_abort E;
     now \<leftarrow> snapshot E;
     timeout \<leftarrow> gets (\<lambda>s. output_disable_timeout_ns (config s));
     disabled \<leftarrow> act (env_disable E (saturating_add (monotonic_now_ns now) timeout));
     current \<leftarrow> activity E;
     ret (rsp_ok aborted \<and> disabled \<and> \<not> act_output_active current \<and> \<not> act_owned current \<and>
          act_state current \<noteq> Armed \<and> act_state current \<noteq> Running \<and> act_state current \<noteq> Failed)
   }"

definition reset :: "'d environment \<Rightarrow> ('d, unit) action" where
  "reset E = do {
     modify end_maintenance;
     modify finish_update_verification;
     now \<leftarrow> snapshot E;
     stopped \<leftarrow> engine_stopped E (monotonic_now_ns now);
     modify (\<lambda>s. s\<lparr>sessions := [], current_owner := None\<rparr>);
     calibration_boundary E;
     modify (\<lambda>s. s\<lparr>current_job := None, current_digest := replicate 32 0,
       current_adjustments := no_adjustments, current_arm := None, replay_cache := [],
       terminal_records := [], retained_jobs := [], sv_state := Empty\<rparr>);
     previous \<leftarrow> gets boot_id;
     fresh \<leftarrow> act (env_new_boot_id E);
     modify (\<lambda>s. s\<lparr>boot_id := fresh, ready := valid_id fresh \<and> fresh \<noteq> previous \<and> stopped\<rparr>);
     modify (\<lambda>s. if \<not> ready s then s\<lparr>sv_state := Failed\<rparr> else s)
   }"

section \<open>Construction\<close>

definition lead_config :: "'d environment \<Rightarrow> service_config \<Rightarrow> service_config" where
  "lead_config E cfg =
     (let cfg = (if env_amplifier_lead_ns E \<noteq> 0
                 then cfg\<lparr>minimum_arm_lead_ns := max (minimum_arm_lead_ns cfg)
                        (saturating_add (env_amplifier_lead_ns E) 2000000)\<rparr> else cfg)
      in if env_filter_preparation_ns E \<noteq> 0
         then cfg\<lparr>minimum_arm_lead_ns := max (minimum_arm_lead_ns cfg)
                (saturating_add (saturating_add (env_filter_preparation_ns E) (env_amplifier_lead_ns E)) 3000000)\<rparr>
         else cfg)"

definition configuration_valid :: "service_config \<Rightarrow> bool" where
  "configuration_valid cfg \<longleftrightarrow>
     capability_text (capability_engine cfg) \<and> supported_modes cfg \<noteq> [] \<and>
     distinct (supported_modes cfg) \<and> list_all capability_text (supported_modes cfg) \<and>
     minimum_frequency_nhz cfg > 0 \<and> minimum_frequency_nhz cfg \<le> maximum_frequency_nhz cfg \<and>
     max_events cfg > 0 \<and> max_events cfg \<le> 512 \<and>
     max_job_duration_ns cfg > 0 \<and> max_job_duration_ns cfg \<le> 86400000000000 \<and>
     maximum_arm_ahead_ns cfg > 0 \<and> maximum_arm_ahead_ns cfg \<le> maximum_arm_ahead_limit_ns \<and>
     minimum_arm_lead_ns cfg \<le> maximum_arm_ahead_ns cfg \<and>
     output_disable_timeout_ns cfg > 0 \<and>
     output_disable_timeout_ns cfg \<le> maximum_output_disable_timeout_ns \<and>
     response_cache_entries cfg \<ge> 8 \<and> response_cache_ttl_ns cfg \<ge> 300000000000 \<and>
     terminal_record_entries cfg \<ge> 8 \<and> terminal_record_ttl_ns cfg \<ge> 3600000000000"

definition blank_service :: "service_config \<Rightarrow> 'd \<Rightarrow> 'd service" where
  "blank_service cfg d =
    \<lparr>sv_env = d, config = cfg, sessions = [], current_owner = None, current_job = None,
     observed_frequencies = [], observed_event_count = 0, observed_frequencies_truncated = False,
     current_digest = replicate 32 0, current_adjustments = no_adjustments, current_arm = None,
     replay_cache = [], terminal_records = [], retained_jobs = [], sv_state = Empty, boot_id = [],
     lru_sequence = 0, ready = False, output_inhibited = False, maintenance_deadline_ns = 0,
     update_verification = False\<rparr>"

definition construct :: "'d environment \<Rightarrow> ('d, unit) action" where
  "construct E = do {
     fresh \<leftarrow> act (env_new_boot_id E);
     modify (\<lambda>s. s\<lparr>boot_id := fresh, config := lead_config E (config s)\<rparr>);
     cfg \<leftarrow> gets config;
     now \<leftarrow> snapshot E;
     let timeout = (if output_disable_timeout_ns cfg > 0 \<and>
                       output_disable_timeout_ns cfg \<le> maximum_output_disable_timeout_ns
                    then output_disable_timeout_ns cfg else output_disable_timeout_ns default_config);
     disabled \<leftarrow> act (env_disable E (saturating_add (monotonic_now_ns now) timeout));
     silent \<leftarrow> (if disabled then do { active \<leftarrow> output_active E; ret (\<not> active) } else ret False);
     modify (\<lambda>s. s\<lparr>ready := silent \<and> configuration_valid cfg \<and> valid_id fresh\<rparr>);
     modify (\<lambda>s. if \<not> ready s then s\<lparr>sv_state := Failed\<rparr> else s)
   }"

definition new_service :: "'d environment \<Rightarrow> service_config \<Rightarrow> 'd \<Rightarrow> 'd service" where
  "new_service E cfg d = snd (run_state (construct E) (blank_service cfg d))"

end
