(* ===== verification/Job_Invariants.thy ===== *)
theory Job_Invariants
  imports Job_Service
begin

text \<open>
  The invariant of the job service and the transitions of its public state. \<open>service_ok\<close> collects
  the bookkeeping the methods rely on; \<open>conserves\<close> relates the state before and after any method:
  the invariant is kept, the public state only takes steps of \<open>moves\<close>, and the latches and the
  configuration stay as they are. \<open>moves\<close> bounds the steps inside a method; a method takes several, so what
  it says of whole calls is that nothing leaves \<open>Failed\<close>; \<open>Job_Transitions\<close> says where each call can lead. Each method is proved to conserve, from the small helpers
  up to \<open>handle\<close>, \<open>poll\<close> and the local controls.
\<close>

section \<open>Public state transitions\<close>

inductive moves :: "job_state \<Rightarrow> job_state \<Rightarrow> bool" where
  load: "st \<notin> {Armed, Running, Failed} \<Longrightarrow> moves st Loaded"
| arm: "moves Loaded Armed"
| start: "moves Armed Running"
| complete: "moves Running Complete"
| missed: "st \<in> {Armed, Running} \<Longrightarrow> moves st Missed"
| abort: "st \<in> {Loaded, Armed, Running} \<Longrightarrow> moves st Aborted"
| fail: "st \<in> {Loaded, Armed, Running} \<Longrightarrow> moves st Failed"
| clear: "st \<notin> {Armed, Running, Failed} \<Longrightarrow> moves st Empty"

code_pred moves .

inductive_cases moves_FailedE [elim!]: "moves Failed st"
inductive_cases moves_ArmedE: "moves st Armed"
inductive_cases moves_RunningE: "moves st Running"

lemmas moves_steps [intro] = moves.intros [THEN r_into_rtranclp [where r = moves]]

lemma moves_Failed_latch: "moves\<^sup>*\<^sup>* Failed st \<Longrightarrow> st = Failed"
  by (erule converse_rtranclpE) auto

section \<open>The invariant\<close>

abbreviation engaged :: "job_state \<Rightarrow> bool" where
  "engaged st \<equiv> st = Loaded \<or> st = Armed \<or> st = Running"

definition job_ok :: "'d service \<Rightarrow> bool" where
  "job_ok s \<longleftrightarrow>
     (sv_state s = Empty \<longrightarrow> current_job s = None) \<and>
     (sv_state s \<notin> {Empty, Failed} \<longrightarrow> current_job s \<noteq> None) \<and>
     (sv_state s \<in> {Armed, Running} \<longrightarrow> current_arm s \<noteq> None) \<and>
     (engaged (sv_state s) \<longrightarrow> current_owner s \<noteq> None \<and>
        job_id (the (current_job s)) \<notin> rt_job_id ` set (retained_jobs s)) \<and>
     (\<not> ready s \<longrightarrow> sv_state s = Failed)"

definition history_ok :: "'d service \<Rightarrow> bool" where
  "history_ok s \<longleftrightarrow> map rt_job_id (retained_jobs s) = map tr_job_id (terminal_records s) \<and>
     distinct (map tr_job_id (terminal_records s)) \<and>
     length (terminal_records s) \<le> terminal_record_entries (config s)"

definition sessions_ok :: "'d service \<Rightarrow> bool" where
  "sessions_ok s \<longleftrightarrow> distinct (map sess_session_id (sessions s)) \<and>
     length (sessions s) \<le> maximum_sessions \<and>
     (\<forall>own. current_owner s = Some own \<longrightarrow>
        (\<exists>c \<in> set (sessions s). sess_session_id c = own_session_id own \<and> sess_principal c = own_principal own))"

definition replay_key :: "replay_entry \<Rightarrow> string \<times> string" where
  "replay_key e = (rp_session_id e, rp_request_id e)"

definition cache_ok :: "'d service \<Rightarrow> bool" where
  "cache_ok s \<longleftrightarrow> distinct (map replay_key (replay_cache s)) \<and>
     (\<forall>ident. length (filter (\<lambda>e. rp_session_id e = ident) (replay_cache s)) \<le>
        response_cache_entries (config s))"

definition service_ok :: "'d service \<Rightarrow> bool" where
  "service_ok s \<longleftrightarrow> job_ok s \<and> history_ok s \<and> sessions_ok s \<and> cache_ok s"

definition conserves :: "'d service \<Rightarrow> 'd service \<Rightarrow> bool" where
  "conserves s t \<longleftrightarrow> (service_ok s \<longrightarrow> service_ok t) \<and> moves\<^sup>*\<^sup>* (sv_state s) (sv_state t) \<and>
     output_inhibited t = output_inhibited s \<and> config t = config s \<and> ready t = ready s \<and>
     boot_id t = boot_id s \<and> replay_key ` set (replay_cache t) \<subseteq> replay_key ` set (replay_cache s)"

lemma conserves_refl [simp]: "conserves s s"
  by (simp add: conserves_def)

lemma conserves_trans [trans]: "conserves s t \<Longrightarrow> conserves t u \<Longrightarrow> conserves s u"
  unfolding conserves_def by (metis rtranclp_trans subset_trans)

text \<open>The environment is not part of the invariant.\<close>

lemma ok_env [simp]:
  "job_ok (s\<lparr>sv_env := d\<rparr>) = job_ok s" "history_ok (s\<lparr>sv_env := d\<rparr>) = history_ok s"
  "sessions_ok (s\<lparr>sv_env := d\<rparr>) = sessions_ok s" "cache_ok (s\<lparr>sv_env := d\<rparr>) = cache_ok s"
  "service_ok (s\<lparr>sv_env := d\<rparr>) = service_ok s"
  "conserves s (t\<lparr>sv_env := d\<rparr>) = conserves s t" "conserves (s\<lparr>sv_env := d\<rparr>) t = conserves s t"
  by (simp_all add: job_ok_def history_ok_def sessions_ok_def cache_ok_def service_ok_def conserves_def)

text \<open>Updates of the environment are moved to the end, where the facts above drop them.\<close>

lemma env_last [simp]:
  "s\<lparr>sv_env := d, config := x0\<rparr> = s\<lparr>config := x0, sv_env := d\<rparr>"
  "s\<lparr>sv_env := d, sessions := x1\<rparr> = s\<lparr>sessions := x1, sv_env := d\<rparr>"
  "s\<lparr>sv_env := d, current_owner := x2\<rparr> = s\<lparr>current_owner := x2, sv_env := d\<rparr>"
  "s\<lparr>sv_env := d, current_job := x3\<rparr> = s\<lparr>current_job := x3, sv_env := d\<rparr>"
  "s\<lparr>sv_env := d, observed_frequencies := x4\<rparr> = s\<lparr>observed_frequencies := x4, sv_env := d\<rparr>"
  "s\<lparr>sv_env := d, observed_event_count := x5\<rparr> = s\<lparr>observed_event_count := x5, sv_env := d\<rparr>"
  "s\<lparr>sv_env := d, observed_frequencies_truncated := x6\<rparr> = s\<lparr>observed_frequencies_truncated := x6, sv_env := d\<rparr>"
  "s\<lparr>sv_env := d, current_digest := x7\<rparr> = s\<lparr>current_digest := x7, sv_env := d\<rparr>"
  "s\<lparr>sv_env := d, current_adjustments := x8\<rparr> = s\<lparr>current_adjustments := x8, sv_env := d\<rparr>"
  "s\<lparr>sv_env := d, current_arm := x9\<rparr> = s\<lparr>current_arm := x9, sv_env := d\<rparr>"
  "s\<lparr>sv_env := d, replay_cache := x10\<rparr> = s\<lparr>replay_cache := x10, sv_env := d\<rparr>"
  "s\<lparr>sv_env := d, terminal_records := x11\<rparr> = s\<lparr>terminal_records := x11, sv_env := d\<rparr>"
  "s\<lparr>sv_env := d, retained_jobs := x12\<rparr> = s\<lparr>retained_jobs := x12, sv_env := d\<rparr>"
  "s\<lparr>sv_env := d, sv_state := x13\<rparr> = s\<lparr>sv_state := x13, sv_env := d\<rparr>"
  "s\<lparr>sv_env := d, boot_id := x14\<rparr> = s\<lparr>boot_id := x14, sv_env := d\<rparr>"
  "s\<lparr>sv_env := d, lru_sequence := x15\<rparr> = s\<lparr>lru_sequence := x15, sv_env := d\<rparr>"
  "s\<lparr>sv_env := d, ready := x16\<rparr> = s\<lparr>ready := x16, sv_env := d\<rparr>"
  "s\<lparr>sv_env := d, output_inhibited := x17\<rparr> = s\<lparr>output_inhibited := x17, sv_env := d\<rparr>"
  "s\<lparr>sv_env := d, maintenance_deadline_ns := x18\<rparr> = s\<lparr>maintenance_deadline_ns := x18, sv_env := d\<rparr>"
  "s\<lparr>sv_env := d, update_verification := x19\<rparr> = s\<lparr>update_verification := x19, sv_env := d\<rparr>"
  by simp_all


section \<open>Rules for the actions of the service\<close>

named_theorems wp_rules "introduction rules of wp for the helpers of the service"

lemma wp_act: "wp (act f) Q s = (case f (sv_env s) of (a, d) \<Rightarrow> Q a (s\<lparr>sv_env := d\<rparr>))"
  by (simp add: act_def wp_def split: prod.split)

lemma wp_act_any [wp_rules]: "(\<And>a d. Q a (s\<lparr>sv_env := d\<rparr>)) \<Longrightarrow> wp (act f) Q s"
  by (simp add: wp_act split: prod.split)

lemma wp_snapshot [wp_rules]: "(\<And>a d. Q a (s\<lparr>sv_env := d\<rparr>)) \<Longrightarrow> wp (snapshot E) Q s"
  by (simp add: snapshot_def wp_act_any)

lemma wp_output_active [wp_rules]: "(\<And>a d. Q a (s\<lparr>sv_env := d\<rparr>)) \<Longrightarrow> wp (output_active E) Q s"
  by (simp add: output_active_def wp_act_any)

lemma wp_calibration_boundary [wp_rules]:
  "(\<And>d. Q () (s\<lparr>sv_env := d\<rparr>)) \<Longrightarrow> wp (calibration_boundary E) Q s"
  by (simp add: calibration_boundary_def wp_act_any)

definition rejection :: "'d service \<Rightarrow> error_code \<Rightarrow> bool \<Rightarrow> response" where
  "rejection s code active = blank_response\<lparr>rsp_error := code, rsp_state := sv_state s,
     rsp_output_active := active, rsp_boot_id := boot_id s\<rparr>"

definition acceptance :: "'d service \<Rightarrow> bool \<Rightarrow> response" where
  "acceptance s active = blank_response\<lparr>rsp_ok := True, rsp_state := sv_state s,
     rsp_output_active := active, rsp_boot_id := boot_id s\<rparr>"

lemma response_ok [simp]: "\<not> rsp_ok (rejection s code active)" "rsp_ok (acceptance s active)"
  by (simp_all add: rejection_def acceptance_def blank_response_def)

lemma wp_reject [wp_rules]:
  "(\<And>active d. Q (rejection s code active) (s\<lparr>sv_env := d\<rparr>)) \<Longrightarrow> wp (reject E code) Q s"
  unfolding reject_def wp_eqs by (rule wp_output_active) (simp add: rejection_def)

lemma wp_success [wp_rules]:
  "(\<And>active d. Q (acceptance s active) (s\<lparr>sv_env := d\<rparr>)) \<Longrightarrow> wp (success E) Q s"
  unfolding success_def wp_eqs by (rule wp_output_active) (simp add: acceptance_def)

lemma wp_engine_stopped [wp_rules]:
  "(\<And>stopped d. Q stopped (s\<lparr>sv_env := d\<rparr>)) \<Longrightarrow> wp (engine_stopped E now) Q s"
  unfolding engine_stopped_def wp_eqs
  by (intro wp_act_any) (auto intro: wp_output_active simp: wp_eqs)

lemma wp_drop_owner [wp_rules]:
  "(\<And>d. Q () (s\<lparr>current_owner := None, sv_env := d\<rparr>)) \<Longrightarrow> wp (drop_owner E) Q s"
  unfolding drop_owner_def wp_eqs by (rule wp_calibration_boundary) (simp add: wp_eqs)

lemma wp_available_memory [wp_rules]:
  "(\<And>a d. Q a (s\<lparr>sv_env := d\<rparr>)) \<Longrightarrow> wp (available_memory E) Q s"
proof -
  assume *: "\<And>a d. Q a (s\<lparr>sv_env := d\<rparr>)"
  from * [of _ "sv_env s"] have "Q None s" by simp
  then show ?thesis
    by (auto simp: available_memory_def wp_eqs split: option.split intro!: wp_act_any *)
qed

lemma wp_activity [wp_rules]:
  assumes "\<And>st active d. st = sv_state s \<or> (sv_state s = Armed \<and> st = Running) \<Longrightarrow>
    Q \<lparr>act_state = st, act_output_active = active, act_owned = (current_owner s \<noteq> None)\<rparr> (s\<lparr>sv_env := d\<rparr>)"
  shows "wp (activity E) Q s"
  unfolding activity_def wp_eqs Let_def
  by (auto intro!: wp_output_active wp_act_any assms [simplified] simp: wp_eqs split: option.splits)

lemma wp_status [wp_rules]:
  assumes "\<And>st d. Q st (s\<lparr>sv_env := d\<rparr>)"
  shows "wp (status E history) Q s"
  unfolding status_def wp_eqs by (rule wp_activity) (simp add: wp_eqs assms)

lemma wp_maintenance [wp_rules]:
  "(\<And>a d. Q a (s\<lparr>sv_env := d\<rparr>)) \<Longrightarrow> wp (maintenance E) Q s"
proof -
  assume *: "\<And>a d. Q a (s\<lparr>sv_env := d\<rparr>)"
  from * [of _ "sv_env s"] have "Q a s" for a by simp
  then show ?thesis
    unfolding maintenance_def wp_eqs by (auto intro!: wp_snapshot * simp: wp_eqs)
qed

section \<open>Ending a job\<close>

definition ended :: "job_state \<Rightarrow> error_code \<Rightarrow> u64 \<Rightarrow> bool \<Rightarrow> bool \<Rightarrow> 'd service \<Rightarrow> 'd service" where
  "ended st err now_ns active load_active s =
     (let ts = \<lparr>tr_job_id = (case current_job s of Some j \<Rightarrow> job_id j | None \<Rightarrow> []), tr_state = st,
               tr_ended_monotonic_ns = now_ns, tr_output_active = active, tr_error = err\<rparr> # terminal_records s;
          rs = (case current_job s of None \<Rightarrow> retained_jobs s
            | Some j \<Rightarrow> \<lparr>rt_job_id = job_id j, rt_digest = current_digest s,
                rt_adjustments = current_adjustments s, rt_load_output_active = load_active,
                rt_arm = current_arm s\<rparr> # retained_jobs s);
          kept = evict_terminals (terminal_record_entries (config s)) ts rs
      in s\<lparr>sv_state := st, terminal_records := fst kept, retained_jobs := snd kept,
           current_job := (case current_job s of None \<Rightarrow> None
             | Some j \<Rightarrow> Some (if st = Complete then j\<lparr>events := clear_events (events j)\<rparr> else j)),
           current_owner := (case current_owner s of None \<Rightarrow> None
             | Some own \<Rightarrow> if own_release_after_terminal own then None else Some own)\<rparr>)"

lemma run_act [simp]:
  "run_state (act f) s = (case f (sv_env s) of (a, d) \<Rightarrow> (a, s\<lparr>sv_env := d\<rparr>))"
  by (simp add: act_def)

lemma record_terminal_ended:
  "\<exists>active load_active d. run_state (record_terminal E st err now_ns) s
     = ((), (ended st err now_ns active load_active s)\<lparr>sv_env := d\<rparr>)"
proof -
  obtain a d where 1: "env_output_active E (sv_env s) = (a, d)" by fastforce
  obtain b d2 where 2: "env_output_active E d = (b, d2)" by fastforce
  obtain d3 where 3: "env_calibration_boundary E d = ((), d3)" by (metis (full_types) old.unit.exhaust surj_pair)
  obtain d4 where 4: "env_calibration_boundary E d2 = ((), d4)" by (metis (full_types) old.unit.exhaust surj_pair)
  note run = record_terminal_def output_active_def drop_owner_def calibration_boundary_def
    perform_when_def ended_def Let_def case_prod_beta
  show ?thesis
  proof (cases "current_job s")
    case None
    then have "run_state (record_terminal E st err now_ns) s
        = ((), (ended st err now_ns a False s)\<lparr>sv_env := (case current_owner s of None \<Rightarrow> d
            | Some own \<Rightarrow> if own_release_after_terminal own then d3 else d)\<rparr>)"
      using 1 3 by (simp add: run split: option.split)
    then show ?thesis by blast
  next
    case (Some j)
    then have "run_state (record_terminal E st err now_ns) s
        = ((), (ended st err now_ns a b s)\<lparr>sv_env := (case current_owner s of None \<Rightarrow> d2
            | Some own \<Rightarrow> if own_release_after_terminal own then d4 else d2)\<rparr>)"
      using 1 2 4 by (simp add: run split: option.split)
    then show ?thesis by blast
  qed
qed

lemma wp_record_terminal [wp_rules]:
  assumes "\<And>active load_active d. Q () ((ended st err now_ns active load_active s)\<lparr>sv_env := d\<rparr>)"
  shows "wp (record_terminal E st err now_ns) Q s"
  using record_terminal_ended [of E st err now_ns s] assms by (auto simp: wp_def)


lemma wp_finish_execution [wp_rules]:
  assumes "\<And>active load_active d. Q () ((ended Failed OutputStateUnknown now_ns active load_active s)\<lparr>sv_env := d\<rparr>)"
    and "\<And>active load_active d. Q () ((ended st err now_ns active load_active s)\<lparr>sv_env := d\<rparr>)"
  shows "wp (finish_execution E st err now_ns) Q s"
proof -
  have env: "ended st' err' now_ns a b (s\<lparr>sv_env := d\<rparr>) = (ended st' err' now_ns a b s)\<lparr>sv_env := d\<rparr>" for st' err' a b d
    by (cases "current_job s"; cases "current_owner s") (simp_all add: ended_def Let_def)
  show ?thesis
    unfolding finish_execution_def wp_eqs
    by (rule wp_engine_stopped) (auto intro!: wp_record_terminal simp: env assms)
qed

lemma evict_terminals_take:
  "map rt_job_id rs = map tr_job_id ts \<Longrightarrow> distinct (map tr_job_id ts) \<Longrightarrow>
     evict_terminals limit ts rs = (take limit ts, take limit rs)"
proof (induction limit ts rs rule: evict_terminals.induct)
  case (1 limit ts rs)
  show ?case
  proof (cases "length ts > limit")
    case False
    then have "length rs \<le> limit" using 1(2) by (metis length_map not_less)
    then show ?thesis using False by (simp add: evict_terminals.simps)
  next
    case True
    then obtain ts' t where ts: "ts = ts' @ [t]" by (cases ts rule: rev_cases) auto
    obtain rs' r where rs: "rs = rs' @ [r]" using 1(2) ts by (cases rs rule: rev_cases) auto
    have m: "map rt_job_id rs' = map tr_job_id ts'" "rt_job_id r = tr_job_id t"
      and d: "distinct (map tr_job_id ts')" "tr_job_id t \<notin> tr_job_id ` set ts'"
      using 1(2,3) by (auto simp: ts rs)
    then have "tr_job_id t \<notin> rt_job_id ` set rs'" by (metis image_set)
    then have f: "filter (\<lambda>r. rt_job_id r \<noteq> tr_job_id (last ts)) rs = rs'"
      by (force simp: ts rs m(2) filter_id_conv)
    have "length rs' = length ts'" using m(1) by (metis length_map)
    then have "take limit ts' = take limit ts" "take limit rs' = take limit rs"
      using True by (simp_all add: ts rs)
    then show ?thesis
      using 1(1) True m d by (simp add: evict_terminals.simps [of limit ts] f) (simp add: ts)
  qed
qed

lemma ended_fields [simp]:
  "sv_state (ended st err now_ns a b s) = st" "config (ended st err now_ns a b s) = config s"
  "output_inhibited (ended st err now_ns a b s) = output_inhibited s"
  "ready (ended st err now_ns a b s) = ready s" "boot_id (ended st err now_ns a b s) = boot_id s"
  "sessions (ended st err now_ns a b s) = sessions s"
  "replay_cache (ended st err now_ns a b s) = replay_cache s"
  "current_arm (ended st err now_ns a b s) = current_arm s"
  "current_job (ended st err now_ns a b s) = None \<longleftrightarrow> current_job s = None"
  by (simp_all add: ended_def Let_def split: option.split)

lemma ended_owner:
  "current_owner (ended st err now_ns a b s) = current_owner s \<or> current_owner (ended st err now_ns a b s) = None"
  by (simp add: ended_def Let_def split: option.split)

lemma service_ok_ended:
  assumes ok: "history_ok s" "sessions_ok s" "cache_ok s" "ready s" and job: "current_job s = Some j"
    "job_id j \<notin> rt_job_id ` set (retained_jobs s)" and st: "st \<in> {Complete, Missed, Aborted, Failed}"
  shows "service_ok (ended st err now_ns a b s)"
proof -
  have h: "map rt_job_id (retained_jobs s) = map tr_job_id (terminal_records s)"
    "distinct (map tr_job_id (terminal_records s))"
    using ok by (auto simp: history_ok_def)
  then have n: "job_id j \<notin> tr_job_id ` set (terminal_records s)"
    using job(2) by (metis image_set)
  have "history_ok (ended st err now_ns a b s)"
    using h n job by (simp add: history_ok_def ended_def Let_def evict_terminals_take take_map [symmetric] distinct_take)
  moreover have "job_ok (ended st err now_ns a b s)"
    using ok job st by (auto simp: job_ok_def)
  moreover have "sessions_ok (ended st err now_ns a b s)" "cache_ok (ended st err now_ns a b s)"
    using ok ended_owner [of st err now_ns a b s] by (auto simp: sessions_ok_def cache_ok_def)
  ultimately show ?thesis by (simp add: service_ok_def)
qed

lemma conserves_ended:
  assumes "moves (sv_state s) st" "st \<in> {Complete, Missed, Aborted, Failed}"
  shows "conserves s (ended st err now_ns a b s)"
proof -
  have eng: "engaged (sv_state s)" using assms by (auto elim: moves.cases)
  have "service_ok (ended st err now_ns a b s)" if ok: "service_ok s"
  proof -
    obtain j where "current_job s = Some j" using ok eng by (auto simp: service_ok_def job_ok_def)
    then show ?thesis
      using ok eng assms(2) by (intro service_ok_ended [of s j]) (auto simp: service_ok_def job_ok_def)
  qed
  then show ?thesis using assms(1) by (auto simp: conserves_def)
qed

section \<open>Housekeeping\<close>

lemma conserves_drop_owner:
  "conserves s (s\<lparr>current_owner := None\<rparr>)" if "\<not> engaged (sv_state s)"
  using that
  by (auto simp: conserves_def service_ok_def job_ok_def history_ok_def sessions_ok_def cache_ok_def)

lemma clear_job_fields [simp]:
  "sv_state (clear_job s) = Empty" "current_job (clear_job s) = None" "config (clear_job s) = config s"
  "output_inhibited (clear_job s) = output_inhibited s" "ready (clear_job s) = ready s"
  "boot_id (clear_job s) = boot_id s" "current_owner (clear_job s) = current_owner s"
  "sessions (clear_job s) = sessions s" "replay_cache (clear_job s) = replay_cache s"
  "terminal_records (clear_job s) = terminal_records s" "retained_jobs (clear_job s) = retained_jobs s"
  by (simp_all add: clear_job_def)

lemma clear_job_env [simp]: "clear_job (s\<lparr>sv_env := d\<rparr>) = (clear_job s)\<lparr>sv_env := d\<rparr>"
  by (simp add: clear_job_def)

lemma conserves_clear_job:
  "sv_state s \<notin> {Armed, Running, Failed} \<Longrightarrow> conserves s (clear_job s)"
  by (auto simp: conserves_def service_ok_def job_ok_def history_ok_def sessions_ok_def cache_ok_def)

lemma wp_expire_resources [wp_rules]:
  assumes "\<And>t. conserves s t \<Longrightarrow> Q () t"
  shows "wp (expire_resources E now_ns) Q s"
proof (cases "current_owner s")
  case None
  then show ?thesis using assms by (simp add: expire_resources_def wp_eqs)
next
  case (Some own)
  let ?flag = "s\<lparr>current_owner := Some (own\<lparr>own_release_after_terminal := True\<rparr>)\<rparr>"
  have flag: "conserves s ?flag"
    using Some by (auto simp: conserves_def service_ok_def job_ok_def history_ok_def sessions_ok_def cache_ok_def)
  have failed: "conserves s ((ended st err now_ns a b s)\<lparr>current_owner := None, sv_env := d\<rparr>)"
    if "sv_state s = Loaded" "st = Failed \<or> st = Aborted" for st err a b d
  proof -
    have "conserves s (ended st err now_ns a b s)"
      using that by (intro conserves_ended) (auto intro: moves.intros)
    also have "conserves (ended st err now_ns a b s) ((ended st err now_ns a b s)\<lparr>current_owner := None\<rparr>)"
      using that by (intro conserves_drop_owner) auto
    finally show ?thesis by simp
  qed
  have aborted: "conserves s ((clear_job (ended Aborted err now_ns a b s))\<lparr>current_owner := None, sv_env := d\<rparr>)"
    if "sv_state s = Loaded" for err a b d
  proof -
    have "conserves s (ended Aborted err now_ns a b s)"
      using that by (intro conserves_ended) (auto intro: moves.intros)
    also have "conserves (ended Aborted err now_ns a b s) (clear_job (ended Aborted err now_ns a b s))"
      by (intro conserves_clear_job) auto
    also have "conserves (clear_job (ended Aborted err now_ns a b s))
        ((clear_job (ended Aborted err now_ns a b s))\<lparr>current_owner := None\<rparr>)"
      by (intro conserves_drop_owner) auto
    finally show ?thesis by simp
  qed
  have env: "ended st err now_ns a b (s\<lparr>sv_env := d\<rparr>) = (ended st err now_ns a b s)\<lparr>sv_env := d\<rparr>" for st err a b d
    by (cases "current_job s"; cases "current_owner s") (simp_all add: ended_def Let_def)
  have "conserves s (s\<lparr>current_owner := None, sv_env := d\<rparr>)" if "\<not> engaged (sv_state s)" for d
    using conserves_drop_owner [OF that] by simp
  then show ?thesis
    using Some flag failed aborted
    by (auto simp: expire_resources_def wp_eqs env intro!: wp_engine_stopped wp_record_terminal wp_drop_owner assms)
qed


lemma filter_parallel:
  assumes "map f rs = map g ts" "distinct (map g ts)"
  shows "map f (filter (\<lambda>i. f i \<in> g ` set (filter P ts)) rs) = map g (filter P ts)"
  using assms
proof (induction ts arbitrary: rs)
  case (Cons t ts)
  then obtain r rs' where rs: "rs = r # rs'" "f r = g t" "map f rs' = map g ts" by auto
  have "f i \<noteq> g t" if "i \<in> set rs'" for i
    using that rs(3) Cons.prems(2) by (metis distinct.simps(2) image_eqI image_set list.simps(9))
  then have "filter (\<lambda>i. f i \<in> g ` set (filter P (t # ts))) rs' = filter (\<lambda>i. f i \<in> g ` set (filter P ts)) rs'"
    by (intro filter_cong) auto
  moreover have "g t \<notin> g ` set (filter P ts)" using Cons.prems(2) by auto
  ultimately show ?case
    using Cons.IH [OF rs(3)] Cons.prems(2) rs(1,2) by auto
qed simp

definition unexpired :: "u64 \<Rightarrow> 'd service \<Rightarrow> terminal_record list" where
  "unexpired now_ns s = filter (\<lambda>r. \<not> expired_after now_ns (tr_ended_monotonic_ns r)
     (terminal_record_ttl_ns (config s))) (terminal_records s)"

definition pruned_history :: "u64 \<Rightarrow> 'd service \<Rightarrow> 'd service" where
  "pruned_history now_ns s = s\<lparr>terminal_records := unexpired now_ns s, retained_jobs :=
     filter (\<lambda>i. \<not> list_all (\<lambda>r. tr_job_id r \<noteq> rt_job_id i) (unexpired now_ns s)) (retained_jobs s)\<rparr>"

lemma prune_terminals_cases:
  "prune_terminals now_ns s = pruned_history now_ns s \<or>
    sv_state s \<in> {Complete, Aborted, Missed} \<and> prune_terminals now_ns s = clear_job (pruned_history now_ns s)"
  by (auto simp: prune_terminals_def pruned_history_def unexpired_def Let_def)

lemma conserves_pruned_history: "conserves s (pruned_history now_ns s)"
proof -
  have eq: "(\<not> list_all (\<lambda>r. tr_job_id r \<noteq> rt_job_id i) ts) = (rt_job_id i \<in> tr_job_id ` set ts)" for i ts
    by (force simp: list_all_iff)
  have "history_ok (pruned_history now_ns s)" if "history_ok s"
    using that filter_parallel [of rt_job_id "retained_jobs s" tr_job_id "terminal_records s"]
    unfolding pruned_history_def history_ok_def eq unexpired_def
    by (auto simp: distinct_map_filter intro: order_trans [OF length_filter_le])
  moreover have "job_ok (pruned_history now_ns s)" if "job_ok s"
    using that by (auto simp: job_ok_def pruned_history_def)
  ultimately show ?thesis
    by (auto simp: conserves_def service_ok_def sessions_ok_def cache_ok_def pruned_history_def)
qed

lemma conserves_prune_terminals: "conserves s (prune_terminals now_ns s)"
  using prune_terminals_cases [of now_ns s]
proof (elim disjE conjE)
  assume "sv_state s \<in> {Complete, Aborted, Missed}"
    and eq: "prune_terminals now_ns s = clear_job (pruned_history now_ns s)"
  then have "conserves (pruned_history now_ns s) (clear_job (pruned_history now_ns s))"
    by (intro conserves_clear_job) (auto simp: pruned_history_def)
  with conserves_pruned_history show ?thesis unfolding eq by (rule conserves_trans)
qed (simp add: conserves_pruned_history)

lemma filter_shrinks: "length (filter Q xs) \<le> n \<Longrightarrow> length (filter Q (filter P xs)) \<le> n"
proof -
  have "length (filter Q (filter P xs)) \<le> length (filter Q xs)" by (induction xs) auto
  then show "length (filter Q xs) \<le> n \<Longrightarrow> length (filter Q (filter P xs)) \<le> n" by simp
qed

lemma conserves_prune_replay: "conserves s (prune_replay now_ns s)"
proof -
  have "cache_ok (prune_replay now_ns s)" if "cache_ok s"
    using that by (auto simp del: filter_filter simp: cache_ok_def prune_replay_def distinct_map_filter intro!: filter_shrinks)
  moreover have "job_ok (prune_replay now_ns s) = job_ok s" "history_ok (prune_replay now_ns s) = history_ok s"
    "sessions_ok (prune_replay now_ns s) = sessions_ok s"
    by (simp_all add: prune_replay_def job_ok_def history_ok_def sessions_ok_def)
  ultimately show ?thesis by (simp add: conserves_def service_ok_def) (auto simp: prune_replay_def)
qed

lemma conserves_prune_sessions: "conserves s (prune_sessions now_ns s)"
proof -
  have "sessions_ok (prune_sessions now_ns s)" if ok: "sessions_ok s"
    unfolding sessions_ok_def
  proof (intro conjI allI impI)
    show "distinct (map sess_session_id (sessions (prune_sessions now_ns s)))"
      "length (sessions (prune_sessions now_ns s)) \<le> maximum_sessions"
      using ok by (auto simp: sessions_ok_def prune_sessions_def distinct_map_filter
          intro: order_trans [OF length_filter_le])
    fix own assume "current_owner (prune_sessions now_ns s) = Some own"
    then have own: "current_owner s = Some own" by (simp add: prune_sessions_def)
    then obtain c where "c \<in> set (sessions s)" "sess_session_id c = own_session_id own"
        "sess_principal c = own_principal own"
      using ok by (auto simp: sessions_ok_def)
    then show "\<exists>c\<in>set (sessions (prune_sessions now_ns s)).
        sess_session_id c = own_session_id own \<and> sess_principal c = own_principal own"
      using own by (auto simp: prune_sessions_def)
  qed
  moreover have "job_ok (prune_sessions now_ns s) = job_ok s" "history_ok (prune_sessions now_ns s) = history_ok s"
    "cache_ok (prune_sessions now_ns s) = cache_ok s"
    by (simp_all add: prune_sessions_def job_ok_def history_ok_def cache_ok_def)
  ultimately show ?thesis by (simp add: conserves_def service_ok_def) (simp add: prune_sessions_def)
qed

lemma wp_housekeep [wp_rules]:
  assumes "\<And>t. conserves s t \<Longrightarrow> Q () t"
  shows "wp (housekeep E now_ns) Q s"
  unfolding housekeep_def wp_eqs
proof (rule wp_expire_resources)
  fix t assume "conserves s t"
  also note conserves_prune_replay [of _ now_ns]
  also note conserves_prune_terminals [of _ now_ns]
  also note conserves_prune_sessions [of _ now_ns]
  finally show "Q () (prune_sessions now_ns (prune_terminals now_ns (prune_replay now_ns t)))"
    by (rule assms)
qed


section \<open>Protocol operations\<close>

text \<open>The rules below all have the same shape: an operation called in a well-formed state
  conserves. A response carries no obligation here.\<close>

lemma conservesI:
  assumes "service_ok s \<Longrightarrow> service_ok t" "moves\<^sup>*\<^sup>* (sv_state s) (sv_state t)"
    "output_inhibited t = output_inhibited s" "config t = config s" "ready t = ready s" "boot_id t = boot_id s"
    "replay_key ` set (replay_cache t) \<subseteq> replay_key ` set (replay_cache s)"
  shows "conserves s t"
  using assms by (simp add: conserves_def)

lemmas ok_defs = service_ok_def job_ok_def history_ok_def sessions_ok_def cache_ok_def

lemma to_front_map: "map f (to_front (\<lambda>x. f x = k) xs) = to_front (\<lambda>y. y = k) (map f xs)"
  by (cases "dropWhile (\<lambda>x. f x \<noteq> k) xs")
     (simp_all add: to_front_def dropWhile_map takeWhile_map comp_def del: dropWhile_eq_Nil_conv)

lemma to_front_cases:
  obtains "to_front P xs = xs" | a x b where "xs = a @ x # b" "to_front P xs = x # a @ b"
proof (cases "dropWhile (\<lambda>x. \<not> P x) xs")
  case (Cons x rest)
  then have "xs = takeWhile (\<lambda>x. \<not> P x) xs @ x # rest" by (metis takeWhile_dropWhile_id)
  with Cons that(2) show thesis by (simp add: to_front_def)
next
  case Nil
  then have "to_front P xs = xs" by (simp add: to_front_def del: dropWhile_eq_Nil_conv)
  then show thesis by (rule that(1))
qed

lemma to_front_simps [simp]:
  "set (to_front P xs) = set xs" "length (to_front P xs) = length xs"
  "distinct (to_front P xs) = distinct xs" "distinct (map f (to_front P xs)) = distinct (map f xs)"
  by (rule to_front_cases [of P xs]; auto)+

lemma conserves_touch_terminal: "conserves s (touch_terminal ident s)"
proof -
  have r: "retained_jobs (touch_terminal ident s) = to_front (\<lambda>r. rt_job_id r = ident) (retained_jobs s)"
    and t: "terminal_records (touch_terminal ident s) = to_front (\<lambda>r. tr_job_id r = ident) (terminal_records s)"
    and c: "config (touch_terminal ident s) = config s"
    by (simp_all add: touch_terminal_def)
  have "history_ok (touch_terminal ident s) = history_ok s" if "history_ok s"
    using that by (simp add: history_ok_def r t c to_front_map)
  moreover have "job_ok (touch_terminal ident s) = job_ok s"
    by (simp add: job_ok_def r) (simp add: touch_terminal_def)
  moreover have "sessions_ok (touch_terminal ident s) = sessions_ok s"
    "cache_ok (touch_terminal ident s) = cache_ok s"
    by (simp_all add: sessions_ok_def cache_ok_def touch_terminal_def)
  ultimately show ?thesis by (simp add: conserves_def service_ok_def) (simp add: touch_terminal_def)
qed


lemma touch_terminal_env [simp]: "touch_terminal ident (s\<lparr>sv_env := d\<rparr>) = (touch_terminal ident s)\<lparr>sv_env := d\<rparr>"
  by (simp add: touch_terminal_def)

lemma conserves_query: "wp (dispatch_query E r now) (\<lambda>_. conserves s) s"
  by (auto simp: dispatch_query_def wp_eqs Let_def intro!: wp_rules)

lemma conserves_claim:
  assumes "\<exists>c \<in> set (sessions s). sess_session_id c = req_session_id r \<and> sess_principal c = req_principal r"
  shows "wp (dispatch_claim E r now) (\<lambda>_. conserves s) s"
proof -
  have "conserves s (s\<lparr>current_owner := Some \<lparr>own_owner_id = i, own_session_id = req_session_id r,
      own_principal = req_principal r, own_expires_monotonic_ns = e, own_release_after_terminal = False\<rparr>\<rparr>)" for i e
    using assms by (intro conservesI) (auto simp: ok_defs)
  then show ?thesis
    by (auto simp: dispatch_claim_def wp_eqs split: request_body.split intro!: wp_rules)
qed

lemma conserves_renew: "wp (dispatch_renew E r now) (\<lambda>_. conserves s) s"
proof -
  have "conserves s (s\<lparr>current_owner := Some (own\<lparr>own_expires_monotonic_ns := e\<rparr>)\<rparr>)"
    if "current_owner s = Some own" for own e
    using that by (intro conservesI) (auto simp: ok_defs)
  then show ?thesis
    by (auto simp: dispatch_renew_def wp_eqs split: request_body.split option.split intro!: wp_rules)
qed

lemma conserves_release: "wp (dispatch_release E r) (\<lambda>_. conserves s) s"
proof -
  have "conserves s ((clear_job s)\<lparr>current_owner := None\<rparr>)" if "sv_state s \<notin> {Armed, Running, Failed}"
    using conserves_trans [OF conserves_clear_job [OF that] conserves_drop_owner] by simp
  then show ?thesis
    by (auto simp: dispatch_release_def wp_eqs intro!: wp_rules)
qed

lemma conserves_load_response: "wp (load_response E ident) (\<lambda>_. conserves s) s"
  by (auto simp: load_response_def wp_eqs intro!: wp_rules)

lemma conserves_load_replay: "wp (dispatch_load_replay E ident digest) (\<lambda>_. conserves s) s"
  by (auto simp: dispatch_load_replay_def wp_eqs load_response_def conserves_touch_terminal
      split: option.split intro!: wp_rules)

lemma accept_job_fields [simp]:
  "sv_state (accept_job j digest adj s) = Loaded" "current_job (accept_job j digest adj s) = Some j"
  "config (accept_job j digest adj s) = config s" "output_inhibited (accept_job j digest adj s) = output_inhibited s"
  "ready (accept_job j digest adj s) = ready s" "boot_id (accept_job j digest adj s) = boot_id s"
  "sessions (accept_job j digest adj s) = sessions s" "current_owner (accept_job j digest adj s) = current_owner s"
  "terminal_records (accept_job j digest adj s) = terminal_records s"
  "retained_jobs (accept_job j digest adj s) = retained_jobs s"
  "replay_cache (accept_job j digest adj s) = replay_cache s"
  "current_digest (accept_job j digest adj s) = digest"
  by (simp_all add: accept_job_def split: prod.split)

lemma accept_job_env [simp]:
  "accept_job j digest adj (s\<lparr>sv_env := d\<rparr>) = (accept_job j digest adj s)\<lparr>sv_env := d\<rparr>"
  by (simp add: accept_job_def split: prod.split)

lemma conserves_load:
  assumes "current_owner s \<noteq> None"
  shows "wp (dispatch_load E j) (\<lambda>_. conserves s) s"
proof -
  have accept: "conserves s (accept_job j digest adj s)"
    if "sv_state s \<notin> {Armed, Running, Failed}" "List.find (\<lambda>i. rt_job_id i = job_id j) (retained_jobs s) = None"
    for digest adj
    using that assms
    by (intro conservesI) (auto simp: ok_defs find_None_all image_iff)
  then show ?thesis
    by (auto simp: dispatch_load_def wp_eqs load_response_def conserves_touch_terminal
        split: option.split intro!: wp_rules)
qed

lemma conserves_arm_set:
  "sv_state s = Loaded \<Longrightarrow> conserves s (s\<lparr>sv_state := Armed, current_arm := Some a\<rparr>)"
  by (intro conservesI) (auto simp: ok_defs)

lemma release_input_fields [simp]:
  "sv_state (release_execution_input E s) = sv_state s" "config (release_execution_input E s) = config s"
  "output_inhibited (release_execution_input E s) = output_inhibited s"
  "ready (release_execution_input E s) = ready s" "boot_id (release_execution_input E s) = boot_id s"
  "sessions (release_execution_input E s) = sessions s"
  "current_owner (release_execution_input E s) = current_owner s"
  "terminal_records (release_execution_input E s) = terminal_records s"
  "retained_jobs (release_execution_input E s) = retained_jobs s"
  "replay_cache (release_execution_input E s) = replay_cache s"
  "current_arm (release_execution_input E s) = current_arm s"
  by (simp_all add: release_execution_input_def split: option.split)

lemma release_input_job:
  "map_option job_id (current_job (release_execution_input E s)) = map_option job_id (current_job s)"
  "map_option total_duration_ns (current_job (release_execution_input E s)) = map_option total_duration_ns (current_job s)"
  by (simp_all add: release_execution_input_def split: option.split)

lemma release_input_env [simp]:
  "release_execution_input E (s\<lparr>sv_env := d\<rparr>) = (release_execution_input E s)\<lparr>sv_env := d\<rparr>"
  by (simp add: release_execution_input_def split: option.split)

lemma conserves_release_input: "conserves s (release_execution_input E s)"
  using release_input_job(1) [of E s]
  by (cases "current_job s"; cases "current_job (release_execution_input E s)")
     (auto simp: conserves_def ok_defs)

end
