(* ===== verification/Job_Protocol.thy ===== *)
theory Job_Protocol
  imports Job_Invariants
begin

text \<open>
  The protocol operations conserve the invariant: arming, aborting, the dispatch of a request, the
  admission of its session, the replay cache and the whole of \<open>handle_owned\<close>; and the three parts of
  \<open>poll\<close>. The environment stays arbitrary in every lemma.
\<close>

section \<open>Arming, aborting and dispatch\<close>

lemma conserves_arm_failed:
  assumes "sv_state s = Loaded"
  shows "conserves s (ended Failed err now_ns a b (s\<lparr>sv_state := Armed, current_arm := None\<rparr>))"
proof -
  let ?t = "s\<lparr>sv_state := Armed, current_arm := None\<rparr>"
  have "service_ok (ended Failed err now_ns a b ?t)" if ok: "service_ok s"
  proof -
    obtain j where "current_job s = Some j" using ok assms by (auto simp: service_ok_def job_ok_def)
    then show ?thesis
      using ok assms by (intro service_ok_ended [of ?t j]) (auto simp: ok_defs)
  qed
  then show ?thesis using assms by (auto simp: conserves_def)
qed

lemma ended_env [simp]:
  "ended st err now_ns a b (s\<lparr>sv_env := d\<rparr>) = (ended st err now_ns a b s)\<lparr>sv_env := d\<rparr>"
  by (cases "current_job s"; cases "current_owner s") (simp_all add: ended_def Let_def)

lemma conserves_arm_current: "wp (arm_current E r body now) (\<lambda>_. conserves s) s"
proof -
  have released: "conserves s (release_execution_input E (s\<lparr>sv_state := Armed, current_arm := Some a\<rparr>))"
    if "sv_state s = Loaded" for a
    by (rule conserves_trans [OF conserves_arm_set [OF that] conserves_release_input])
  show ?thesis
    by (auto simp: arm_current_def wp_eqs Let_def released conserves_arm_set conserves_arm_failed split: option.split sum.split
        intro!: wp_rules)
qed


lemma conserves_arm: "wp (dispatch_arm E r body now) (\<lambda>_. conserves s) s"
  by (auto simp: dispatch_arm_def wp_eqs conserves_touch_terminal conserves_arm_current
      split: option.split intro!: wp_rules)

lemma conserves_ended_moves:
  assumes "sv_state s \<in> {Loaded, Armed, Running}" "st \<in> {Aborted, Failed}"
  shows "conserves s (ended st err now_ns a b s)"
  using assms by (intro conserves_ended) (auto intro: moves.intros)

lemma conserves_abort_job:
  assumes "service_ok s"
  shows "wp (abort_job E ident) (\<lambda>_. conserves s) s"
proof -
  have "sv_state s \<in> {Loaded, Armed, Running}"
    if "current_job s = Some j" "sv_state s \<notin> {Aborted, Complete, Missed, Failed}" for j
    using assms that by (cases "sv_state s") (auto simp: service_ok_def job_ok_def)
  then show ?thesis
    by (auto simp: abort_job_def wp_eqs Let_def intro!: wp_rules conserves_ended_moves split: option.split)
qed

lemma owned_conserves:
  assumes "service_ok s" "current_owner s \<noteq> None"
  shows "wp (dispatch_owned E r now) (\<lambda>_. conserves s) s"
  using assms
  by (auto simp: dispatch_owned_def wp_eqs conserves_renew conserves_release conserves_load_replay
      conserves_load conserves_arm conserves_abort_job split: request_body.split intro!: wp_rules)

text \<open>After an observation of the environment the rules apply to the changed environment.\<close>

lemma wp_env: "(\<And>s. P s \<Longrightarrow> wp m (\<lambda>_. conserves s) s) \<Longrightarrow> (\<And>d. P (s\<lparr>sv_env := d\<rparr>) = P s) \<Longrightarrow> P s \<Longrightarrow>
    wp m (\<lambda>_. conserves s) (s\<lparr>sv_env := d\<rparr>)"
  by (metis ok_env(7) wp_mono)

lemma dispatch_conserves:
  assumes "service_ok s"
    and "\<exists>c \<in> set (sessions s). sess_session_id c = req_session_id r \<and> sess_principal c = req_principal r"
  shows "wp (dispatch E r) (\<lambda>_. conserves s) s"
  unfolding dispatch_def wp_eqs
proof (rule wp_snapshot)
  fix now d
  let ?s = "s\<lparr>sv_env := d\<rparr>"
  have *: "wp m (\<lambda>_. conserves s) ?s" if "wp m (\<lambda>_. conserves ?s) ?s" for m :: "('a, response) action"
    using that by (rule wp_mono) simp
  have "wp (reject E code) (\<lambda>_. conserves s) ?s" for code
    by (rule wp_reject) simp
  moreover have "wp (dispatch_query E r now) (\<lambda>_. conserves s) ?s" by (rule * [OF conserves_query])
  moreover have "wp (dispatch_claim E r now) (\<lambda>_. conserves s) ?s"
    using assms by (intro * conserves_claim) simp
  moreover have "wp (dispatch_owned E r now) (\<lambda>_. conserves s) ?s" if "current_owner s \<noteq> None"
    using assms that by (intro * owned_conserves) simp_all
  ultimately show "if req_operation r \<notin> set operations then wp (reject E UnknownOperation) (\<lambda>_. conserves s) ?s
    else if \<not> req_body_valid r then wp (reject E InvalidMessage) (\<lambda>_. conserves s) ?s
    else if req_operation r \<in> set query_operations then wp (dispatch_query E r now) (\<lambda>_. conserves s) ?s
    else if req_operation r = ''CLAIM'' then wp (dispatch_claim E r now) (\<lambda>_. conserves s) ?s
    else if \<not> owner_body_matches (req_operation r) (req_body r) then wp (reject E InvalidMessage) (\<lambda>_. conserves s) ?s
    else if current_owner (id ?s) = None then wp (reject E LeaseExpired) (\<lambda>_. conserves s) ?s
    else if \<not> owns (id ?s) r then wp (reject E NotOwner) (\<lambda>_. conserves s) ?s
    else wp (dispatch_owned E r now) (\<lambda>_. conserves s) ?s"
    by simp
qed

section \<open>Sessions and the replay cache\<close>

lemma update_first_map: "(\<And>x. g (f x) = g x) \<Longrightarrow> map g (update_first P f xs) = map g xs"
  by (induction xs) auto

lemma update_first_filter:
  "(\<And>x. Q (f x) = Q x) \<Longrightarrow> length (filter Q (update_first P f xs)) = length (filter Q xs)"
  by (induction xs) auto

lemma update_first_ex: "(\<And>x. Q (f x) = Q x) \<Longrightarrow> (\<exists>x \<in> set (update_first P f xs). Q x) = (\<exists>x \<in> set xs. Q x)"
  by (induction xs) auto

lemma see_session_fields [simp]:
  "sv_state (see_session r now_ns s) = sv_state s" "config (see_session r now_ns s) = config s"
  "ready (see_session r now_ns s) = ready s" "output_inhibited (see_session r now_ns s) = output_inhibited s"
  "boot_id (see_session r now_ns s) = boot_id s" "current_owner (see_session r now_ns s) = current_owner s"
  "replay_cache (see_session r now_ns s) = replay_cache s"
  by (simp_all add: see_session_def)

lemma length_update_first [simp]: "length (update_first P f xs) = length xs"
  by (induction xs) auto

lemma conserves_see_session: "conserves s (see_session r now_ns s)"
proof -
  have ids: "map sess_session_id (sessions (see_session r now_ns s)) = map sess_session_id (sessions s)"
    by (simp add: see_session_def update_first_map)
  have "length (sessions (see_session r now_ns s)) = length (sessions s)"
    by (simp add: see_session_def)
  moreover have "(\<exists>c\<in>set (sessions (see_session r now_ns s)). sess_session_id c = i \<and> sess_principal c = p)
      = (\<exists>c\<in>set (sessions s). sess_session_id c = i \<and> sess_principal c = p)" for i p
    by (simp add: see_session_def update_first_ex)
  ultimately have "sessions_ok (see_session r now_ns s) = sessions_ok s"
    by (simp add: sessions_ok_def ids)
  moreover have "job_ok (see_session r now_ns s) = job_ok s" "history_ok (see_session r now_ns s) = history_ok s"
    "cache_ok (see_session r now_ns s) = cache_ok s"
    by (simp_all add: see_session_def job_ok_def history_ok_def cache_ok_def)
  ultimately show ?thesis by (simp add: conserves_def service_ok_def)
qed

definition knows_session :: "request \<Rightarrow> 'd service \<Rightarrow> bool" where
  "knows_session r s \<longleftrightarrow>
     (\<exists>c \<in> set (sessions s). sess_session_id c = req_session_id r \<and> sess_principal c = req_principal r)"

lemma knows_session_env [simp]: "knows_session r (s\<lparr>sv_env := d\<rparr>) = knows_session r s"
  by (simp add: knows_session_def)

lemma admit_session_conserves:
  "wp (admit_session E r now_ns) (\<lambda>early t. conserves s t \<and> (early = None \<longrightarrow> knows_session r t)) s"
proof -
  have seen: "knows_session r (see_session r now_ns s)"
    if "List.find (\<lambda>c. sess_session_id c = req_session_id r) (sessions s) = Some c"
       "sess_principal c = req_principal r" for c
    using find_Some_mem [OF that(1)] that(2)
    by (auto simp: knows_session_def see_session_def update_first_ex)
  let ?new = "s\<lparr>sessions := sessions s @ [\<lparr>sess_session_id = req_session_id r,
      sess_principal = req_principal r, sess_last_seen_monotonic_ns = now_ns\<rparr>]\<rparr>"
  have new: "conserves s ?new \<and> knows_session r ?new"
    if "List.find (\<lambda>c. sess_session_id c = req_session_id r) (sessions s) = None"
       "\<not> length (sessions s) \<ge> maximum_sessions"
  proof
    have "sessions_ok ?new" if ok: "sessions_ok s"
      using that ok \<open>List.find _ _ = None\<close> \<open>\<not> length (sessions s) \<ge> maximum_sessions\<close>
      by (auto simp: sessions_ok_def find_None_all)
    moreover have "job_ok ?new = job_ok s" "history_ok ?new = history_ok s" "cache_ok ?new = cache_ok s"
      by (simp_all add: job_ok_def history_ok_def cache_ok_def)
    ultimately show "conserves s ?new" by (simp add: conserves_def service_ok_def)
  qed (simp add: knows_session_def)
  show ?thesis
    by (auto simp: admit_session_def wp_eqs Let_def seen new conserves_see_session
        split: option.split intro!: wp_rules)
qed

lemma min_position_session:
  assumes "0 < n" "n \<le> length xs"
  shows "let m = fold (\<lambda>i m. if older_of_session k (xs ! i) (xs ! m) then i else m) [1..<n] 0 in
    m < n \<and> ((\<exists>i < n. rp_session_id (xs ! i) = k) \<longrightarrow> rp_session_id (xs ! m) = k)"
  using assms
proof (induction n)
  case (Suc n)
  show ?case
  proof (cases n)
    case (Suc n')
    let ?m = "fold (\<lambda>i m. if older_of_session k (xs ! i) (xs ! m) then i else m) [1..<n] 0"
    have IH: "?m < n" "(\<exists>i < n. rp_session_id (xs ! i) = k) \<Longrightarrow> rp_session_id (xs ! ?m) = k"
      using Suc.IH Suc Suc.prems by (auto simp: Let_def)
    have "[1..<Suc n] = [1..<n] @ [n]" using Suc by simp
    then show ?thesis
      using IH by (auto simp: Let_def older_of_session_def less_Suc_eq)
  qed simp
qed simp

lemma min_position_bound:
  assumes "e \<in> set xs" "rp_session_id e = k"
  shows "min_position (older_of_session k) xs < length xs"
    "rp_session_id (xs ! min_position (older_of_session k) xs) = k"
proof -
  have "0 < length xs" using assms by auto
  moreover have "\<exists>i < length xs. rp_session_id (xs ! i) = k" using assms by (auto simp: in_set_conv_nth)
  ultimately show "min_position (older_of_session k) xs < length xs"
    "rp_session_id (xs ! min_position (older_of_session k) xs) = k"
    using min_position_session [of "length xs" xs k] by (auto simp: min_position_def Let_def)
qed

lemma erase_at_split: "i < length xs \<Longrightarrow> xs = take i xs @ xs ! i # drop (i + 1) xs"
  by (simp add: id_take_nth_drop)

lemma erase_at_count:
  assumes "i < length xs"
  shows "length (filter Q xs) = length (filter Q (erase_at i xs)) + of_bool (Q (xs ! i))"
  by (subst erase_at_split [OF assms]) (simp add: erase_at_def)

lemma erase_at_distinct: "distinct (map f xs) \<Longrightarrow> distinct (map f (erase_at i xs))"
  by (auto simp: erase_at_def take_map [symmetric] drop_map [symmetric] distinct_take distinct_drop
      dest: set_take_disj_set_drop_if_distinct [where i = i and j = "Suc i"])

lemma set_erase_at: "set (erase_at i xs) \<subseteq> set xs"
  by (auto simp: erase_at_def dest: in_set_takeD in_set_dropD)

text \<open>The relation between the states before and after a whole request: as \<open>conserves\<close>, without the
  bound on the remembered requests.\<close>

definition advances :: "'d service \<Rightarrow> 'd service \<Rightarrow> bool" where
  "advances s t \<longleftrightarrow> (service_ok s \<longrightarrow> service_ok t) \<and> moves\<^sup>*\<^sup>* (sv_state s) (sv_state t) \<and>
     output_inhibited t = output_inhibited s \<and> config t = config s \<and> ready t = ready s \<and>
     boot_id t = boot_id s"

lemma advances_env [simp]: "advances s (t\<lparr>sv_env := d\<rparr>) = advances s t" "advances (s\<lparr>sv_env := d\<rparr>) t = advances s t"
  by (simp_all add: advances_def)

lemma conserves_advances [intro]: "conserves s t \<Longrightarrow> advances s t"
  by (simp add: conserves_def advances_def)

lemma advances_trans [trans]: "advances s t \<Longrightarrow> advances t u \<Longrightarrow> advances s u"
  unfolding advances_def by (metis rtranclp_trans)

lemma advances_remember:
  assumes "(req_session_id r, req_request_id r) \<notin> replay_key ` set (replay_cache s)"
    and "0 < response_cache_entries (config s)"
  shows "advances s (remember r rsp now_ns s)"
proof -
  let ?k = "req_session_id r" and ?c = "replay_cache s"
  let ?n = "\<lambda>xs k. length (filter (\<lambda>e. rp_session_id e = k) xs)"
  let ?kept = "if ?n ?c ?k \<ge> response_cache_entries (config s)
    then erase_at (min_position (older_of_session ?k) ?c) ?c else ?c"
  have cache: "cache_ok (remember r rsp now_ns s)" if ok: "cache_ok s"
  proof -
    have sub: "set ?kept \<subseteq> set ?c" by (simp add: set_erase_at)
    then have fresh: "(?k, req_request_id r) \<notin> set (map replay_key ?kept)" using assms(1) by auto
    have "distinct (map replay_key ?kept)" using ok erase_at_distinct by (auto simp: cache_ok_def)
    moreover have "?n ?kept k + of_bool (k = ?k) \<le> response_cache_entries (config s)" for k
    proof (cases "?n ?c ?k \<ge> response_cache_entries (config s)")
      case True
      then have "0 < ?n ?c ?k" using assms(2) by linarith
      then obtain e where "e \<in> set ?c" "rp_session_id e = ?k" by (auto simp: filter_empty_conv)
      note m = min_position_bound [OF this]
      have "?n ?c k \<le> response_cache_entries (config s)" using ok by (simp add: cache_ok_def)
      then show ?thesis
        using True erase_at_count [OF m(1), of "\<lambda>e. rp_session_id e = k"] m(2)
        by (cases "k = ?k") simp_all
    next
      case False
      then show ?thesis using ok by (auto simp: cache_ok_def not_le Suc_le_eq)
    qed
    moreover define kept where "kept = ?kept"
    moreover define e where "e = \<lparr>rp_session_id = ?k, rp_request_id = req_request_id r,
        rp_payload_digest = req_payload_digest r, rp_response = rsp,
        rp_completed_monotonic_ns = now_ns, rp_lru = lru_sequence s + 1\<rparr>"
    moreover have k: "replay_key e = (?k, req_request_id r)" "rp_session_id e = ?k"
      and c: "replay_cache (remember r rsp now_ns s) = kept @ [e]" "config (remember r rsp now_ns s) = config s"
      by (simp_all add: remember_def Let_def replay_key_def kept_def e_def)
    ultimately have "distinct (map replay_key kept)" "(?k, req_request_id r) \<notin> set (map replay_key kept)"
      and n: "?n kept k + of_bool (k = ?k) \<le> response_cache_entries (config s)" for k
      using fresh by simp_all
    moreover have "?n (kept @ [e]) k = ?n kept k + of_bool (k = ?k)" for k
      using k(2) by auto
    ultimately show ?thesis
      unfolding cache_ok_def c using k(1) by simp
  qed
  have "job_ok (remember r rsp now_ns s) = job_ok s" "history_ok (remember r rsp now_ns s) = history_ok s"
    "sessions_ok (remember r rsp now_ns s) = sessions_ok s"
    by (simp_all add: remember_def Let_def job_ok_def history_ok_def sessions_ok_def)
  with cache show ?thesis
    by (simp add: advances_def service_ok_def) (simp add: remember_def Let_def)
qed


lemma replay_advances:
  "wp (replay r) (\<lambda>cached t. conserves s t \<and> sessions t = sessions s \<and>
     (cached = NotSeen \<longrightarrow> (req_session_id r, req_request_id r) \<notin> replay_key ` set (replay_cache t))) s"
proof -
  define same :: "replay_entry \<Rightarrow> bool" where "same = (\<lambda>e. rp_session_id e = req_session_id r \<and> rp_request_id e = req_request_id r)"
  let ?t = "s\<lparr>lru_sequence := lru_sequence s + 1, replay_cache :=
      update_first same (\<lambda>e. e\<lparr>rp_lru := lru_sequence s + 1\<rparr>) (replay_cache s)\<rparr>"
  have keys: "map replay_key (replay_cache ?t) = map replay_key (replay_cache s)"
    by (simp add: update_first_map replay_key_def)
  have "cache_ok ?t = cache_ok s"
    unfolding cache_ok_def keys by (simp add: update_first_filter)
  moreover have "job_ok ?t = job_ok s" "history_ok ?t = history_ok s" "sessions_ok ?t = sessions_ok s"
    by (simp_all add: job_ok_def history_ok_def sessions_ok_def)
  moreover have "replay_key ` set (replay_cache ?t) = replay_key ` set (replay_cache s)"
    using keys by (metis image_set)
  ultimately have "conserves s ?t" by (simp add: conserves_def service_ok_def)
  moreover have "(req_session_id r, req_request_id r) \<notin> replay_key ` set (replay_cache s)"
    if "List.find same (replay_cache s) = None"
    using that by (auto simp: find_None_all same_def replay_key_def)
  ultimately show ?thesis
    by (auto simp: replay_def wp_eqs Let_def same_def [symmetric] split: option.split)
qed

lemma answer_advances:
  assumes "service_ok s" "knows_session r s" "0 < response_cache_entries (config s)"
  shows "wp (answer E r retain now_ns) (\<lambda>_. advances s) s"
  unfolding answer_def wp_eqs
proof (rule wp_mono [OF replay_advances])
  fix cached t
  assume t: "conserves s t \<and> sessions t = sessions s \<and>
     (cached = NotSeen \<longrightarrow> (req_session_id r, req_request_id r) \<notin> replay_key ` set (replay_cache t))"
  have new: "wp (dispatch E r) (\<lambda>a. wp (perform_when retain (modify (remember r a now_ns)) \<bind> (\<lambda>_. ret a)) (\<lambda>_. advances s)) t"
    if "cached = NotSeen"
  proof (rule wp_mono [OF dispatch_conserves])
    show "service_ok t" using t assms(1) by (simp add: conserves_def)
    show "\<exists>c \<in> set (sessions t). sess_session_id c = req_session_id r \<and> sess_principal c = req_principal r"
      using t assms(2) by (simp add: knows_session_def)
    fix rsp u assume u: "conserves t u"
    have su: "advances s u" using t u conserves_trans by blast
    have "(req_session_id r, req_request_id r) \<notin> replay_key ` set (replay_cache u)"
      using t u that by (auto simp: conserves_def)
    moreover have "0 < response_cache_entries (config u)"
      using assms(3) t u by (simp add: conserves_def)
    ultimately have "advances s (remember r rsp now_ns u)"
      by (intro advances_trans [OF su advances_remember])
    then show "wp (perform_when retain (modify (remember r rsp now_ns)) \<bind> (\<lambda>_. ret rsp)) (\<lambda>_. advances s) u"
      using su by (simp add: wp_eqs)
  qed
  show "wp (case cached of
        NotSeen \<Rightarrow> dispatch E r \<bind> (\<lambda>rsp. perform_when retain (modify (remember r rsp now_ns)) \<bind> (\<lambda>_. ret rsp))
      | Conflict \<Rightarrow> reject E RequestIdReuse \<bind> (\<lambda>rsp. ret (closing rsp)) | Cached rsp \<Rightarrow> ret rsp) (\<lambda>_. advances s) t"
    using new t by (cases cached) (auto simp: wp_eqs intro!: wp_reject)
qed

lemma handle_owned_advances:
  assumes "service_ok s" "ready s \<longrightarrow> configuration_valid (config s)"
  shows "wp (handle_owned E r retain) (\<lambda>_. advances s) s"
  unfolding handle_owned_def wp_eqs
proof (rule wp_snapshot, rule wp_housekeep, unfold wp_gets id_apply, goal_cases)
  case (1 now d t)
  then have t: "conserves s t" by simp
  then have ready: "0 < response_cache_entries (config t)" if "ready t"
    using assms(2) that by (auto simp: conserves_def configuration_valid_def)
  have admit: "wp (admit_session E r (monotonic_now_ns now))
      (\<lambda>early. wp (case early of None \<Rightarrow> answer E r retain (monotonic_now_ns now) | Some rsp \<Rightarrow> ret rsp) (\<lambda>_. advances s)) u"
    if u: "u = t \<or> (\<exists>d. u = t\<lparr>sv_env := d\<rparr>)" "ready t" for u
  proof (rule wp_mono [OF admit_session_conserves])
    fix early :: "response option" and v assume v: "conserves u v \<and> (early = None \<longrightarrow> knows_session r v)"
    have "conserves s u" using t u(1) by auto
    then have sv: "conserves s v" using v conserves_trans by blast
    then have ok: "service_ok v" "0 < response_cache_entries (config v)"
      using assms(1) ready t u(2) by (auto simp: conserves_def)
    show "wp (case early of None \<Rightarrow> answer E r retain (monotonic_now_ns now) | Some rsp \<Rightarrow> ret rsp) (\<lambda>_. advances s) v"
    proof (cases early)
      case None
      then have "wp (answer E r retain (monotonic_now_ns now)) (\<lambda>_. advances v) v"
        using v ok answer_advances by blast
      then have "wp (answer E r retain (monotonic_now_ns now)) (\<lambda>_. advances s) v"
        by (rule wp_mono) (use sv advances_trans in blast)
      then show ?thesis using None by simp
    qed (use sv in \<open>auto simp: wp_eqs\<close>)
  qed
  have st: "advances s t" using t by blast
  have admitted: "wp (admit_session E r (monotonic_now_ns now))
      (\<lambda>early. wp (case early of None \<Rightarrow> answer E r retain (monotonic_now_ns now) | Some rsp \<Rightarrow> ret rsp) (\<lambda>_. advances s)) (t\<lparr>sv_env := d\<rparr>)"
    if "ready t" for d
    using admit that by blast
  from this [of "sv_env t"] have plain: "wp (admit_session E r (monotonic_now_ns now))
      (\<lambda>early. wp (case early of None \<Rightarrow> answer E r retain (monotonic_now_ns now) | Some rsp \<Rightarrow> ret rsp) (\<lambda>_. advances s)) t"
    if "ready t"
    using that by simp
  have rejected: "wp (reject E code) (\<lambda>_. advances s) t" "wp (reject E code) (\<lambda>_. advances s) (t\<lparr>sv_env := d\<rparr>)"
    "wp (reject E code \<bind> (\<lambda>rsp. ret (f rsp))) (\<lambda>_. advances s) t" for code d f
    unfolding wp_eqs by (rule wp_reject, simp add: st)+
  note facts = rejected [unfolded wp_eqs] plain [unfolded wp_eqs] admitted [unfolded wp_eqs]
  have "wp (maintenance E) (\<lambda>a sa. if a \<and> req_operation r \<in> set guarded_operations
      then wp (reject E Busy) (\<lambda>_. advances s) sa
      else wp (admit_session E r (monotonic_now_ns now)) (\<lambda>a sa. case a of
        None \<Rightarrow> wp (answer E r retain (monotonic_now_ns now)) (\<lambda>_. advances s) sa
      | Some rsp \<Rightarrow> advances s sa) sa) t" if "ready t"
    by (rule wp_maintenance) (simp add: facts that)
  then show ?case by (simp add: facts)
qed


section \<open>Polling\<close>

lemma finish_conserves:
  assumes "moves (sv_state s) st" "st \<in> {Complete, Missed, Aborted, Failed}" "sv_state s \<in> {Armed, Running}"
  shows "wp (finish_execution E st err now_ns) (\<lambda>_. conserves s) s"
  using assms by (auto intro!: wp_finish_execution conserves_ended moves.intros)

lemma conserves_start:
  "sv_state s = Armed \<Longrightarrow> conserves s (s\<lparr>sv_state := Running\<rparr>)"
  by (intro conservesI) (auto simp: ok_defs)

lemma conserves_launch_time:
  "current_arm s \<noteq> None \<Longrightarrow> conserves s (s\<lparr>current_arm := Some a\<rparr>)"
  by (intro conservesI) (auto simp: ok_defs)

lemma poll_local_conserves: "wp (poll_local E now) (\<lambda>_. conserves s) s"
  by (auto simp: poll_local_def wp_eqs conserves_start intro!: wp_act_any split: option.split)

lemma release_input_arm:
  "release_execution_input E (s\<lparr>current_arm := a\<rparr>) = (release_execution_input E s)\<lparr>current_arm := a\<rparr>"
  by (simp add: release_execution_input_def split: option.split)

lemma poll_launch_conserves: "wp (poll_launch E now) (\<lambda>_. conserves s) s"
proof -
  have launched: "conserves s ((release_execution_input E (s\<lparr>current_arm := Some a\<rparr>))\<lparr>sv_state := Running\<rparr>)"
    if "sv_state s = Armed" "current_arm s = Some b" for a b
  proof -
    have "conserves s (s\<lparr>current_arm := Some a\<rparr>)" using that by (intro conserves_launch_time) simp
    also note conserves_release_input
    also have "conserves (release_execution_input E (s\<lparr>current_arm := Some a\<rparr>))
        ((release_execution_input E (s\<lparr>current_arm := Some a\<rparr>))\<lparr>sv_state := Running\<rparr>)"
      using that by (intro conserves_start) simp
    finally show ?thesis .
  qed
  have finish: "conserves s (ended st err now_ns a b s)"
    if "sv_state s = Armed" "st = Missed \<or> st = Failed" for st err now_ns a b
    using that by (intro conserves_ended) (auto intro: moves.intros)
  show ?thesis
    by (auto simp: poll_launch_def wp_eqs launched finish split: option.split
        intro!: wp_act_any wp_finish_execution)
qed

lemma tail_pending_conserves:
  assumes "\<And>b d. Q b (s\<lparr>sv_env := d\<rparr>)"
  shows "wp (tail_pending E arm report nominal_end ack now_ns) Q s"
  using assms [of _ "sv_env s"]
  by (auto simp: tail_pending_def wp_eqs split: option.split intro!: wp_snapshot assms)

lemma poll_running_conserves:
  assumes "sv_state s = Running"
  shows "wp (poll_running E now report) (\<lambda>_. conserves s) s"
proof -
  have noted: "conserves s (note_launch rep s) \<and> sv_state (note_launch rep s) = Running" for rep
    using assms by (auto simp: note_launch_def conserves_launch_time split: option.split)
  have finish: "conserves s (ended st err now_ns a b (note_launch rep s))"
    if "st = Missed \<or> st = Failed \<or> st = Complete" for rep st err now_ns a b
    using that noted [of rep] by (intro conserves_trans [OF conjunct1 [OF noted] conserves_ended]) (auto intro: moves.intros)
  have env: "note_launch rep (s\<lparr>sv_env := d\<rparr>) = (note_launch rep s)\<lparr>sv_env := d\<rparr>" for rep d
    by (simp add: note_launch_def split: option.split)
  show ?thesis
    unfolding poll_running_def poll_overdue_def
    by (auto simp: wp_eqs Let_def env finish noted split: option.split engine_state.split
        intro!: wp_act_any wp_finish_execution tail_pending_conserves)
qed

lemma poll_conserves: "wp (poll E) (\<lambda>_. conserves s) s"
  unfolding poll_def wp_eqs
proof (rule wp_snapshot, rule wp_housekeep, rule wp_mono [OF poll_local_conserves], goal_cases)
  case (1 now d t local u)
  then have su: "conserves s u" using conserves_trans by fastforce
  have "wp (poll_launch E now) (\<lambda>a t. wp (perform_when (a \<and> sv_state t = Running) (poll_running E now report)) (\<lambda>_. conserves s) t) u"
    for report
  proof (rule wp_mono [OF poll_launch_conserves])
    fix proceed v assume "conserves u v"
    then have sv: "conserves s v" using su conserves_trans by blast
    have "wp (poll_running E now report) (\<lambda>_. conserves s) v" if "sv_state v = Running"
      by (rule wp_mono [OF poll_running_conserves [OF that]]) (use sv conserves_trans in blast)
    then show "wp (perform_when (proceed \<and> sv_state v = Running) (poll_running E now report)) (\<lambda>_. conserves s) v"
      using sv by (simp add: wp_eqs)
  qed
  then show ?case using su by (cases local) (simp_all add: wp_eqs)
qed

end
