(* ===== verification/Job_Control.thy ===== *)
theory Job_Control
  imports Job_Protocol
begin

text \<open>
  The local controls of the service (maintenance, abort, the permanent output interlock, reset and
  construction), the step relation that interleaves all operations with arbitrary changes of the
  environment, and the properties of every reachable state.
\<close>

section \<open>Local controls\<close>

lemma begin_maintenance_conserves: "wp (begin_maintenance E) (\<lambda>_. conserves s) s"
proof -
  have deadline: "conserves s (s\<lparr>maintenance_deadline_ns := x\<rparr>)" for x
    by (auto simp: conserves_def ok_defs)
  show ?thesis
    by (auto simp: begin_maintenance_def wp_eqs Let_def deadline intro!: wp_rules)
qed

lemma abort_job_aborts:
  assumes "service_ok s"
  shows "wp (abort_job E ident) (\<lambda>rsp t. conserves s t \<and> (rsp_ok rsp \<longrightarrow> sv_state t = Aborted)) s"
  unfolding wp_conj
proof
  show "wp (abort_job E ident) (\<lambda>_. conserves s) s" by (rule conserves_abort_job [OF assms])
  show "wp (abort_job E ident) (\<lambda>rsp t. rsp_ok rsp \<longrightarrow> sv_state t = Aborted) s"
    by (auto simp: abort_job_def wp_eqs Let_def intro!: wp_rules split: option.split)
qed

lemma local_abort_conserves:
  assumes "service_ok s"
  shows "wp (local_abort E) (\<lambda>rsp t. conserves s t \<and>
     (rsp_ok rsp \<longrightarrow> current_owner t = None \<and> \<not> engaged (sv_state t) \<and> sv_state t \<noteq> Failed)) s"
  unfolding local_abort_def wp_eqs
proof (rule wp_mono [OF poll_conserves], goal_cases)
  case (1 u t)
  then have t: "conserves s t" "service_ok t" using assms by (auto simp: conserves_def)
  let ?Q = "\<lambda>rsp t. conserves s t \<and>
     (rsp_ok rsp \<longrightarrow> current_owner t = None \<and> \<not> engaged (sv_state t) \<and> sv_state t \<noteq> Failed)"
  have drop: "?Q rsp (v\<lparr>current_owner := None\<rparr>)"
    if "conserves s v" "\<not> engaged (sv_state v)" "sv_state v \<noteq> Failed" for rsp v
    using that conserves_trans conserves_drop_owner by auto
  have finish: "wp (perform_when (rsp_ok rsp) (drop_owner E)) (\<lambda>_. ?Q rsp) v"
    if "conserves s v" "rsp_ok rsp \<Longrightarrow> \<not> engaged (sv_state v) \<and> sv_state v \<noteq> Failed" for rsp v
    using that drop [of v rsp] by (auto simp: wp_eqs intro!: wp_drop_owner)
  have abort: "wp (abort_job E ident) (\<lambda>rsp. wp (perform_when (rsp_ok rsp) (drop_owner E)) (\<lambda>_. ?Q rsp)) t" for ident
  proof (rule wp_mono [OF abort_job_aborts [OF t(2)]])
    fix rsp v assume "conserves t v \<and> (rsp_ok rsp \<longrightarrow> sv_state v = Aborted)"
    then show "wp (perform_when (rsp_ok rsp) (drop_owner E)) (\<lambda>_. ?Q rsp) v"
      using conserves_trans [OF t(1)] by (intro finish) auto
  qed
  have idle: "\<not> engaged (sv_state t)" if "sv_state t \<noteq> Failed"
      "current_job t = None \<or> sv_state t = Complete \<or> sv_state t = Missed"
    using t(2) that by (auto simp: service_ok_def job_ok_def)
  have dropped: "conserves s (t\<lparr>current_owner := None\<rparr>)" if "\<not> engaged (sv_state t)"
    using t(1) that conserves_trans conserves_drop_owner by blast
  have dropping: "wp (drop_owner E) (\<lambda>_ v. conserves s v \<and> current_owner v = None \<and> \<not> engaged (sv_state v) \<and>
      sv_state v \<noteq> Failed) (t\<lparr>sv_env := d\<rparr>)" if "\<not> engaged (sv_state t)" "sv_state t \<noteq> Failed" for d
    using dropped [OF that(1)] that by (intro wp_drop_owner) simp
  show ?case
  proof (cases "sv_state t = Failed \<or> \<not> ready t \<or> current_job t = None \<or> sv_state t = Complete \<or> sv_state t = Missed")
    case True
    then show ?thesis
      using t(1) idle dropping
      by (auto simp: wp_eqs split: option.split intro!: wp_reject wp_output_active wp_success)
  next
    case False
    then obtain j where "current_job t = Some j" by auto
    with False show ?thesis
      using abort [unfolded wp_eqs, of "job_id j"] by (simp split del: if_split)
  qed
qed

lemma advances_inhibit_flag:
  "service_ok (s\<lparr>output_inhibited := True\<rparr>) = service_ok s"
  by (simp add: ok_defs)

definition inhibits :: "'d service \<Rightarrow> 'd service \<Rightarrow> bool" where
  "inhibits s t \<longleftrightarrow> (service_ok s \<longrightarrow> service_ok t) \<and> moves\<^sup>*\<^sup>* (sv_state s) (sv_state t) \<and>
     output_inhibited t \<and> config t = config s \<and> ready t = ready s"

lemma local_inhibit_output_inhibits:
  assumes "service_ok s"
  shows "wp (local_inhibit_output E) (\<lambda>ok t. inhibits s t \<and>
     (ok \<longrightarrow> current_owner t = None \<and> \<not> engaged (sv_state t) \<and> sv_state t \<noteq> Failed)) s"
  unfolding local_inhibit_output_def wp_eqs
proof (rule wp_act_any, rule wp_mono [OF local_abort_conserves], goal_cases)
  case (1 u d)
  then show ?case using assms by (simp add: advances_inhibit_flag)
next
  case (2 u d rsp t)
  then have t: "inhibits s t" "rsp_ok rsp \<Longrightarrow> current_owner t = None \<and> \<not> engaged (sv_state t) \<and> sv_state t \<noteq> Failed"
    by (simp_all add: conserves_def inhibits_def advances_inhibit_flag)
  have "inhibits s (t\<lparr>sv_env := d\<rparr>)" for d using t(1) by (simp add: inhibits_def)
  then show ?case using t(2) by (auto intro!: wp_snapshot wp_act_any wp_activity simp: wp_eqs)
qed

text \<open>\<open>reset\<close> leaves an empty, well-formed service, or a failed one when the shutdown or the new
  boot identity is not good.\<close>

lemma reset_result:
  "wp (reset E) (\<lambda>_ t. service_ok t \<and> sv_state t \<in> {Empty, Failed} \<and> current_owner t = None \<and>
     current_job t = None \<and> replay_cache t = [] \<and> sessions t = [] \<and>
     output_inhibited t = output_inhibited s \<and> config t = config s \<and>
     (ready t \<longrightarrow> boot_id t \<noteq> boot_id s)) s"
  by (auto simp: reset_def wp_eqs ok_defs end_maintenance_def finish_update_verification_def
      intro!: wp_snapshot wp_engine_stopped wp_calibration_boundary wp_act_any)

lemma construct_result:
  "wp (construct E) (\<lambda>_ t. service_ok t \<and> sv_state t \<in> {Empty, Failed} \<and> \<not> output_inhibited t \<and>
     (ready t \<longrightarrow> configuration_valid (config t)) \<and> config t = lead_config E cfg) (blank_service cfg d)"
  by (auto simp: construct_def wp_eqs Let_def ok_defs blank_service_def intro!: wp_snapshot wp_act_any wp_output_active)

section \<open>Reachable states\<close>

text \<open>The operations of the service in any order, with the environment changing between them as it
  likes (time passes, an interrupt fires, hardware fails). \<open>reset\<close> is kept apart: it is the only
  operation that leaves \<open>Failed\<close>.\<close>

inductive step :: "'d environment \<Rightarrow> 'd service \<Rightarrow> 'd service \<Rightarrow> bool" for E where
  step_handle: "run_state (handle E r) s = (rsp, t) \<Longrightarrow> step E s t"
| step_handle_internal: "run_state (handle_internal E r) s = (rsp, t) \<Longrightarrow> step E s t"
| step_poll: "run_state (poll E) s = (u, t) \<Longrightarrow> step E s t"
| step_local_abort: "run_state (local_abort E) s = (rsp, t) \<Longrightarrow> step E s t"
| step_inhibit: "run_state (local_inhibit_output E) s = (ok, t) \<Longrightarrow> step E s t"
| step_begin_maintenance: "run_state (begin_maintenance E) s = (ok, t) \<Longrightarrow> step E s t"
| step_observe: "run_state (status E h) s = (st, t) \<Longrightarrow> step E s t"
| step_end_maintenance: "step E s (end_maintenance s)"
| step_hold: "step E s (hold_update_verification s)"
| step_finish: "step E s (finish_update_verification s)"
| step_environment: "step E s (s\<lparr>sv_env := d\<rparr>)"

inductive reachable :: "'d environment \<Rightarrow> service_config \<Rightarrow> 'd service \<Rightarrow> bool" for E cfg where
  reach_new: "reachable E cfg (new_service E cfg d)"
| reach_step: "reachable E cfg s \<Longrightarrow> step E s t \<Longrightarrow> reachable E cfg t"
| reach_reset: "reachable E cfg s \<Longrightarrow> run_state (reset E) s = (u, t) \<Longrightarrow> reachable E cfg t"

lemmas steps = step.intros

lemma wpD: "wp m Q s \<Longrightarrow> run_state m s = (a, t) \<Longrightarrow> Q a t"
  by (simp add: wp_def)

lemma step_advances:
  assumes "step E s t" "service_ok s" "configuration_valid (config s)"
  shows "service_ok t \<and> moves\<^sup>*\<^sup>* (sv_state s) (sv_state t) \<and> config t = config s \<and> ready t = ready s \<and>
    (output_inhibited s \<longrightarrow> output_inhibited t)"
  using assms
proof cases
  case (step_handle r rsp)
  then show ?thesis
    using wpD [OF handle_owned_advances [of s E r True]] assms by (auto simp: handle_def advances_def)
next
  case (step_handle_internal r rsp)
  then show ?thesis
    using wpD [OF handle_owned_advances [of s E r False]] assms by (auto simp: handle_internal_def advances_def)
next
  case (step_poll u)
  then show ?thesis using wpD [OF poll_conserves] assms by (fastforce simp: conserves_def)
next
  case (step_local_abort rsp)
  then show ?thesis using wpD [OF local_abort_conserves] assms by (fastforce simp: conserves_def)
next
  case (step_inhibit ok)
  then show ?thesis using wpD [OF local_inhibit_output_inhibits] assms by (fastforce simp: inhibits_def)
next
  case (step_begin_maintenance ok)
  then show ?thesis using wpD [OF begin_maintenance_conserves] assms by (fastforce simp: conserves_def)
next
  case (step_observe h st)
  have "wp (status E h) (\<lambda>_. conserves s) s" by (rule wp_status) simp
  then show ?thesis using step_observe wpD assms by (fastforce simp: conserves_def)
qed (use assms in \<open>auto simp: end_maintenance_def hold_update_verification_def finish_update_verification_def ok_defs\<close>)

lemma reachable_ok:
  assumes "reachable E cfg s" "configuration_valid (lead_config E cfg)"
  shows "service_ok s \<and> config s = lead_config E cfg"
  using assms(1)
proof induction
  case (reach_new d)
  show ?case
    using construct_result [of E cfg d] by (simp add: new_service_def wp_run)
next
  case (reach_step s t)
  then show ?case using step_advances [of E s t] assms(2) by simp
next
  case (reach_reset s u t)
  then show ?case using wpD [OF reset_result reach_reset.hyps(2)] by simp
qed

end
