(* ===== verification/Job_Safety.thy ===== *)
theory Job_Safety
  imports Job_Control
begin

text \<open>
  Safety of the job service in every reachable state: the bookkeeping invariant, the latching of faults and the finality of the physical output interlock. The
  concrete instances are the device of \<open>src/wtp/inhibited_rf_engine.cpp\<close>.
\<close>

section \<open>The output interlock\<close>

definition silenced :: "'d service \<Rightarrow> bool" where
  "silenced s \<longleftrightarrow> output_inhibited s \<and> current_owner s = None \<and> \<not> engaged (sv_state s)"

lemma silenced_env [simp]: "silenced (s\<lparr>sv_env := d\<rparr>) = silenced s"
  by (simp add: silenced_def)

lemma silenced_ended: "silenced s \<Longrightarrow> \<not> engaged st \<Longrightarrow> silenced (ended st err now_ns a b s)"
  using ended_owner [of st err now_ns a b s] by (auto simp: silenced_def)

lemma silenced_housekeep:
  assumes "silenced s"
  shows "wp (housekeep E now_ns) (\<lambda>_. silenced) s"
proof -
  have "silenced (prune_replay now_ns s)" if "silenced s" for s :: "'a service"
    using that by (simp add: silenced_def prune_replay_def)
  moreover have "silenced (prune_terminals now_ns s)" if "silenced s" for s :: "'a service"
    using that prune_terminals_cases [of now_ns s] by (auto simp: silenced_def pruned_history_def)
  moreover have "silenced (prune_sessions now_ns s)" if "silenced s" for s :: "'a service"
    using that by (simp add: silenced_def prune_sessions_def)
  ultimately show ?thesis
    using assms by (simp add: housekeep_def wp_eqs expire_resources_def silenced_def)
qed

lemma silenced_query: "silenced s \<Longrightarrow> wp (dispatch_query E r now) (\<lambda>_. silenced) s"
  by (auto simp: dispatch_query_def wp_eqs Let_def intro!: wp_rules)

lemma silenced_dispatch:
  assumes "silenced s" "req_operation r \<notin> set guarded_operations"
  shows "wp (dispatch E r) (\<lambda>_. silenced) s"
  using assms
  by (auto simp: dispatch_def wp_eqs guarded_operations_def silenced_query intro!: wp_snapshot wp_reject)
     (auto simp: silenced_def)

lemma silenced_admit: "silenced s \<Longrightarrow> wp (admit_session E r now_ns) (\<lambda>_. silenced) s"
  by (auto simp: admit_session_def wp_eqs Let_def intro!: wp_reject split: option.split)
     (auto simp: silenced_def)

lemma silenced_answer:
  assumes "silenced s" "req_operation r \<notin> set guarded_operations"
  shows "wp (answer E r retain now_ns) (\<lambda>_. silenced) s"
proof -
  have "wp (replay r) (\<lambda>_. silenced) s"
    using assms by (auto simp: replay_def wp_eqs Let_def split: option.split) (auto simp: silenced_def)
  moreover have "silenced (remember r rsp now_ns t)" if "silenced t" for rsp and t :: "'a service"
    using that by (simp add: silenced_def remember_def Let_def)
  ultimately show ?thesis
    using assms
    by (auto simp: answer_def wp_eqs split: replay_result.split elim!: wp_mono
        intro!: wp_reject wp_mono [OF silenced_dispatch])
qed

lemma silenced_handle:
  assumes "silenced s"
  shows "wp (handle_owned E r retain) (\<lambda>_. silenced) s"
  unfolding handle_owned_def wp_eqs
proof (rule wp_snapshot, rule wp_mono [OF silenced_housekeep], goal_cases)
  case (2 now d u t)
  have "wp (admit_session E r (monotonic_now_ns now)) (\<lambda>early t. case early of
      None \<Rightarrow> wp (answer E r retain (monotonic_now_ns now)) (\<lambda>_. silenced) t | Some rsp \<Rightarrow> silenced t) t"
    if "req_operation r \<notin> set guarded_operations"
    by (rule wp_mono [OF silenced_admit [OF 2]]) (auto simp: silenced_answer that split: option.split)
  moreover have "output_inhibited t" using 2 by (simp add: silenced_def)
  ultimately show ?case using 2 by (auto intro!: wp_reject)
qed (use assms in simp)

lemma silenced_poll:
  assumes "silenced s"
  shows "wp (poll E) (\<lambda>_. silenced) s"
  unfolding poll_def wp_eqs
proof (rule wp_snapshot, rule wp_mono [OF silenced_housekeep], goal_cases)
  case (2 now d u t)
  then have "sv_state t \<noteq> Armed" "sv_state t \<noteq> Running" by (auto simp: silenced_def)
  then show ?case using 2 by (auto simp: poll_local_def poll_launch_def wp_eqs split: option.split)
qed (use assms in simp)

lemma silenced_abort: "silenced s \<Longrightarrow> wp (abort_job E ident) (\<lambda>_. silenced) s"
  by (auto simp: abort_job_def wp_eqs Let_def silenced_ended intro!: wp_rules split: option.split)

lemma silenced_local_abort:
  assumes "silenced s"
  shows "wp (local_abort E) (\<lambda>_. silenced) s"
  unfolding local_abort_def wp_eqs
proof (rule wp_mono [OF silenced_poll [OF assms]], goal_cases)
  case (1 u t)
  then have drop: "silenced (t\<lparr>current_owner := None\<rparr>)" if "silenced t" for t :: "'a service"
    using that by (simp add: silenced_def)
  have "wp (abort_job E ident) (\<lambda>a s. (rsp_ok a \<longrightarrow> wp (drop_owner E) (\<lambda>_. silenced) s) \<and>
      (\<not> rsp_ok a \<longrightarrow> silenced s)) t" for ident
    by (rule wp_mono [OF silenced_abort [OF 1]]) (auto simp: drop intro!: wp_drop_owner)
  then show ?case
    using 1 drop by (auto split: option.split intro!: wp_reject wp_output_active wp_success wp_drop_owner simp: wp_eqs)
qed

lemma silenced_inhibit:
  assumes "silenced s"
  shows "wp (local_inhibit_output E) (\<lambda>_. silenced) s"
  unfolding local_inhibit_output_def wp_eqs
proof (rule wp_act_any, rule wp_mono [OF silenced_local_abort], goal_cases)
  case (2 u d rsp t)
  then show ?case by (auto intro!: wp_snapshot wp_act_any wp_activity simp: wp_eqs)
qed (use assms in \<open>simp add: silenced_def\<close>)

lemma silenced_reset: "silenced s \<Longrightarrow> wp (reset E) (\<lambda>_. silenced) s"
  by (rule wp_mono [OF reset_result]) (auto simp: silenced_def)

definition step_or_reset :: "'d environment \<Rightarrow> 'd service \<Rightarrow> 'd service \<Rightarrow> bool" where
  "step_or_reset E s t \<longleftrightarrow> step E s t \<or> snd (run_state (reset E) s) = t"

lemma silenced_step:
  assumes "step_or_reset E s t" "silenced s"
  shows "silenced t"
proof (cases "step E s t")
  case True
  then show ?thesis
  proof cases
    case (step_observe h st)
    have "wp (status E h) (\<lambda>_. silenced) s" by (rule wp_status) (use assms in simp)
    then show ?thesis using step_observe wpD by fastforce
  next
    case (step_begin_maintenance ok)
    have "wp (begin_maintenance E) (\<lambda>_. silenced) s"
      using assms(2) by (auto simp: begin_maintenance_def wp_eqs Let_def silenced_def intro!: wp_snapshot)
    then show ?thesis using step_begin_maintenance wpD by fastforce
  next
    case (step_handle r rsp)
    then show ?thesis using wpD [OF silenced_handle [OF assms(2)]] by (simp add: handle_def)
  next
    case (step_handle_internal r rsp)
    then show ?thesis using wpD [OF silenced_handle [OF assms(2)]] by (simp add: handle_internal_def)
  next
    case (step_poll u)
    then show ?thesis by (rule wpD [OF silenced_poll [OF assms(2)]])
  next
    case (step_local_abort rsp)
    then show ?thesis by (rule wpD [OF silenced_local_abort [OF assms(2)]])
  next
    case (step_inhibit ok)
    then show ?thesis by (rule wpD [OF silenced_inhibit [OF assms(2)]])
  qed (use assms(2) in \<open>simp_all add: silenced_def end_maintenance_def hold_update_verification_def
      finish_update_verification_def\<close>)
next
  case False
  then show ?thesis
    using assms silenced_reset [of s E] by (auto simp: step_or_reset_def wp_run)
qed


section \<open>A concrete device\<close>

text \<open>The device without RF hardware, used as the concrete instance of the properties.\<close>

definition sample_clock :: clock_snapshot where
  "sample_clock = \<lparr>clock_state = Synchronized, utc_now_ns = 1000000000000, monotonic_now_ns = 5000000000,
     uncertainty_ns = 1000, sync_age_ns = 0, leap = LeapNormal, leap_transition_utc_ns = None,
     rate_ppb = 0, rate_uncertainty_ppb = 0, model_generation = 1, rate_until_monotonic_ns = u64_max,
     subsequent_rate_ppb = 0, valid_until_utc_ns = u64_max\<rparr>"

definition sample_world :: "string list \<Rightarrow> world" where
  "sample_world ids = \<lparr>world_engine = inhibited_init, world_clock = sample_clock, world_boot_ids = ids\<rparr>"

definition sample_boot_id :: string where
  "sample_boot_id = replicate 32 CHR ''a''"

lemma lead_config_inhibited [simp]: "lead_config inhibited_environment cfg = cfg"
  by (simp add: lead_config_def inhibited_environment_def)

lemma default_config_valid [simp]: "configuration_valid default_config"
  by (simp add: configuration_valid_def default_config_def capability_text_def char_between_def
      maximum_arm_ahead_limit_ns_def maximum_output_disable_timeout_ns_def)

lemma sample_boot_id_valid [simp]: "valid_id sample_boot_id" "\<not> valid_id []"
  by (simp_all add: valid_id_def sample_boot_id_def char_between_def list_all_iff)

lemma new_inhibited_service:
  "sv_state (new_service inhibited_environment default_config (sample_world ids)) =
     (case ids of i # is \<Rightarrow> if valid_id i then Empty else Failed | [] \<Rightarrow> Failed)"
  "ready (new_service inhibited_environment default_config (sample_world ids)) =
     (case ids of i # is \<Rightarrow> valid_id i | [] \<Rightarrow> False)"
  "output_inhibited (new_service inhibited_environment default_config (sample_world ids)) = False"
  using default_config_valid
  by (auto simp: new_service_def construct_def blank_service_def snapshot_def output_active_def
      sample_world_def inhibited_environment_def on_engine_def inhibited_disable_def
      inhibited_output_active_def lead_config_def Let_def
      split: list.split)

definition sample_service :: "world service" where
  "sample_service = new_service inhibited_environment default_config (sample_world [sample_boot_id])"

definition sample_world_running :: world where
  "sample_world_running = \<lparr>world_engine = inhibited_init, world_clock = sample_clock, world_boot_ids = []\<rparr>"

lemma sample_service_eq:
  "sample_service = (blank_service default_config sample_world_running)\<lparr>boot_id := sample_boot_id, ready := True\<rparr>"
  by (simp add: sample_service_def new_service_def construct_def blank_service_def snapshot_def output_active_def
      sample_world_def inhibited_environment_def on_engine_def inhibited_disable_def sample_world_running_def
      inhibited_output_active_def lead_config_def Let_def inhibited_init_def)

definition sample_hello :: request where
  "sample_hello = \<lparr>req_protocol = ''WTP/1'', req_session_id = sample_boot_id, req_request_id = sample_boot_id,
     req_principal = ''usb'', req_operation = ''HELLO'', req_payload_digest = replicate 32 0,
     req_body = HelloBody [''WTP/1''], req_body_valid = True\<rparr>"

lemmas run_defs = snapshot_def output_active_def calibration_boundary_def reject_def success_def
  housekeep_def expire_resources_def prune_replay_def prune_terminals_def prune_sessions_def
  poll_def poll_local_def poll_launch_def perform_when_def on_engine_def

lemma sample_inhibit: "fst (run_state (local_inhibit_output inhibited_environment) sample_service)"
  by (simp add: local_inhibit_output_def local_abort_def run_defs activity_def drop_owner_def
      sample_service_eq blank_service_def sample_world_running_def Let_def
      inhibited_environment_def inhibited_disable_def inhibited_output_active_def inhibited_init_def blank_response_def)

section \<open>Properties\<close>

text \<open>C1: the bookkeeping invariant of the transmitter authority. In every state reachable by any
  interleaving of requests, polls, local controls and resets, with any behaviour of the clock and of
  the RF engine in between: an armed or running job has a job and an arm record; a loaded, armed or
  running job has an owner, whose session is registered under the owner's principal; the current
  job is not yet in the history; the history of ended jobs and the retained identities agree entry by
  entry, without duplicates and within the configured bound; there are at most 16 sessions with
  distinct identities; and no session holds more cached replies than configured, none twice for
  the same request. The configuration is assumed to be one the constructor accepts.\<close>

theorem service_invariant:
  assumes "reachable E cfg s" "configuration_valid (lead_config E cfg)"
  shows "service_ok s"
  using reachable_ok [OF assms] by simp

theorem service_invariant_witness:
  "service_ok (new_service inhibited_environment default_config (sample_world [sample_boot_id]))"
  by (rule service_invariant [OF reach_new]) simp

lemma failed_steps:
  assumes "(step E)\<^sup>*\<^sup>* s t" "service_ok s" "configuration_valid (config s)" "sv_state s = Failed"
  shows "sv_state t = Failed \<and> service_ok t \<and> config t = config s"
  using assms
proof (induction rule: rtranclp_induct)
  case (step t u)
  then show ?case using step_advances [OF step.hyps(2)] moves_Failed_latch by auto
qed simp

text \<open>C4: a fault latches. Once the service is in \<open>Failed\<close>, no sequence of requests, polls, aborts,
  maintenance calls or changes of the environment leads out of it; only \<open>reset\<close> does.\<close>

theorem failure_latches:
  assumes "reachable E cfg s" "configuration_valid (lead_config E cfg)" "sv_state s = Failed"
    "(step E)\<^sup>*\<^sup>* s t"
  shows "sv_state t = Failed"
  using failed_steps [OF assms(4)] reachable_ok [OF assms(1,2)] assms(2,3) by simp

theorem failure_latches_witness:
  "sv_state (snd (run_state (handle inhibited_environment sample_hello)
     (new_service inhibited_environment default_config (sample_world [])))) = Failed"
proof -
  let ?s = "new_service inhibited_environment default_config (sample_world [])"
  have "step inhibited_environment ?s (snd (run_state (handle inhibited_environment sample_hello) ?s))"
    by (rule step_handle [OF prod.collapse [symmetric]])
  then have steps: "(step inhibited_environment)\<^sup>*\<^sup>* ?s (snd (run_state (handle inhibited_environment sample_hello) ?s))"
    by (rule r_into_rtranclp)
  have "sv_state ?s = Failed" "configuration_valid (lead_config inhibited_environment default_config)"
    by (simp_all add: new_inhibited_service)
  then show ?thesis
    by (intro failure_latches [OF reach_new _ _ steps])
qed

lemma silenced_steps: "(step_or_reset E)\<^sup>*\<^sup>* s t \<Longrightarrow> silenced s \<Longrightarrow> silenced t"
  by (induction rule: rtranclp_induct) (auto dest: silenced_step)

text \<open>C3: the physical output interlock is final. When \<open>local_inhibit_output\<close> reports success, then
  after any further sequence of operations, resets included, nobody owns the transmitter and the
  service is never loaded, armed or running again.\<close>

theorem inhibition_is_final:
  assumes "reachable E cfg s" "configuration_valid (lead_config E cfg)"
    "run_state (local_inhibit_output E) s = (True, t)" "(step_or_reset E)\<^sup>*\<^sup>* t u"
  shows "output_inhibited u \<and> current_owner u = None \<and> sv_state u \<notin> {Loaded, Armed, Running}"
proof -
  have "silenced t"
    using wpD [OF local_inhibit_output_inhibits assms(3)] reachable_ok [OF assms(1,2)]
    by (simp add: silenced_def inhibits_def)
  then show ?thesis using silenced_steps [OF assms(4)] by (simp add: silenced_def)
qed


theorem inhibition_is_final_witness:
  "\<exists>t. run_state (local_inhibit_output inhibited_environment) sample_service = (True, t) \<and>
     sv_state (snd (run_state (handle inhibited_environment sample_hello) t)) \<notin> {Loaded, Armed, Running}"
proof -
  obtain t where t: "run_state (local_inhibit_output inhibited_environment) sample_service = (True, t)"
    using sample_inhibit by (metis prod.collapse)
  let ?u = "snd (run_state (handle inhibited_environment sample_hello) t)"
  have "step_or_reset inhibited_environment t ?u"
    unfolding step_or_reset_def by (rule disjI1, rule step_handle [OF prod.collapse [symmetric]])
  then have "(step_or_reset inhibited_environment)\<^sup>*\<^sup>* t ?u" by (rule r_into_rtranclp)
  moreover have "configuration_valid (lead_config inhibited_environment default_config)" by simp
  ultimately have "output_inhibited ?u \<and> current_owner ?u = None \<and> sv_state ?u \<notin> {Loaded, Armed, Running}"
    by (intro inhibition_is_final [OF reach_new _ t [unfolded sample_service_def]])
  with t show ?thesis by blast
qed

end
