(* ===== verification/Job_Admission.thy ===== *)
theory Job_Admission
  imports Job_Service
begin

text \<open>
  What admission promises. \<open>validate_job\<close> and \<open>validate_arm\<close> (\<open>src/wtp/job_service.cpp\<close>, lines
  870-987) are chains of early returns over 64-bit arithmetic; here they are compared with what they
  are for: \<open>transmittable\<close> describes an executable job over the natural numbers, \<open>safe_arm\<close> a start
  that can be promised. Neither description can wrap.
\<close>

section \<open>Jobs\<close>

fun contiguous :: "nat \<Rightarrow> rf_event list \<Rightarrow> bool" where
  "contiguous n [] = True"
| "contiguous n (e # es) \<longleftrightarrow> unat (offset_ns e) = n \<and> contiguous (n + unat (duration_ns e)) es"

definition covered :: "rf_event list \<Rightarrow> nat" where
  "covered es = sum_list (map (unat \<circ> duration_ns) es)"

lemma covered_simps [simp]:
  "covered [] = 0" "covered (e # es) = unat (duration_ns e) + covered es"
  "covered (es @ fs) = covered es + covered fs"
  by (simp_all add: covered_def)

lemma contiguous_append [simp]:
  "contiguous n (es @ fs) \<longleftrightarrow> contiguous n es \<and> contiguous (n + covered es) fs"
  by (induction es arbitrary: n) (auto simp: add.assoc)

definition legal_event :: "service_config \<Rightarrow> rf_event \<Rightarrow> bool" where
  "legal_event cfg e \<longleftrightarrow> duration_ns e > 0 \<and>
     (case frequency_nhz e of None \<Rightarrow> \<not> rf_on e
      | Some f \<Rightarrow> rf_on e \<and> f > 0 \<and> minimum_frequency_nhz cfg \<le> f \<and> f \<le> maximum_frequency_nhz cfg)"

definition transmittable :: "service_config \<Rightarrow> job \<Rightarrow> bool" where
  "transmittable cfg j \<longleftrightarrow> list_failure (events j) = NoFailure \<and> valid_id (job_id j) \<and>
     profile j = ''rf-events/1'' \<and> mode j \<in> set (supported_modes cfg) \<and>
     items (events j) \<noteq> [] \<and> length (items (events j)) \<le> max_events cfg \<and>
     total_duration_ns j \<le> max_job_duration_ns cfg \<and>
     contiguous 0 (items (events j)) \<and> covered (items (events j)) = unat (total_duration_ns j) \<and>
     list_all (legal_event cfg) (items (events j))"

lemma validate_events_Cons:
  "validate_events cfg start (e # es) = Inr c \<longleftrightarrow>
     offset_ns e = start \<and> legal_event cfg e \<and> \<not> duration_ns e > u64_max - start \<and>
     validate_events cfg (start + duration_ns e) es = Inr c"
  by (auto simp: legal_event_def word_gt_0 not_less split: option.splits)

lemma validate_events_iff:
  "validate_events cfg start es = Inr c \<longleftrightarrow>
     contiguous (unat start) es \<and> list_all (legal_event cfg) es \<and> unat c = unat start + covered es"
proof (induction es arbitrary: start)
  case (Cons e es)
  show ?case
  proof (cases "duration_ns e > u64_max - start")
    case True
    then have "unat start + unat (duration_ns e) > unat c" using unat_u64_le [of c]
      by (simp add: word_nat)
    then show ?thesis using True by (auto simp del: validate_events.simps simp: validate_events_Cons)
  next
    case False
    show ?thesis
      using False unat_guarded_plus [OF False] Cons
      by (auto simp del: validate_events.simps simp: validate_events_Cons word_unat_eq_iff)
  qed
qed (auto simp: word_unat_eq_iff)

lemma validate_job_iff: "validate_job cfg j = NoError \<longleftrightarrow> transmittable cfg j"
proof -
  have no_error: "validate_events cfg start es \<noteq> Inl NoError" for start es
    by (induction cfg start es rule: validate_events.induct) auto
  show ?thesis
  proof (cases "validate_events cfg 0 (items (events j))")
    case (Inl err)
    then have "\<not> transmittable cfg j"
      using validate_events_iff [of cfg 0 "items (events j)" "total_duration_ns j"]
      by (auto simp: transmittable_def)
    moreover have "validate_job cfg j \<noteq> NoError" using Inl no_error by (auto simp: validate_job_def)
    ultimately show ?thesis by simp
  next
    case (Inr c)
    have "event_count (events j) = 0 \<longleftrightarrow> items (events j) = []" by (metis length_items length_0_conv)
    then show ?thesis using Inr validate_events_iff [of cfg 0 "items (events j)" c]
      by (auto simp: validate_job_def transmittable_def valid_events_def word_unat_eq_iff not_less)
  qed
qed

section \<open>Arms\<close>

definition clear_of_leap :: "u64 \<Rightarrow> nat \<Rightarrow> u64 option \<Rightarrow> bool" where
  "clear_of_leap first final transition \<longleftrightarrow>
     (case transition of None \<Rightarrow> True
      | Some t \<Rightarrow> unat first > unat t + 1000000000 \<or> final + 1000000000 < unat t)"

definition arm_window_end :: "arm_body \<Rightarrow> nat" where
  "arm_window_end arm = unat (arm_start_utc_ns arm) + unat (start_window_ns (arm_start_utc_ns arm)) - 1"

definition safe_arm :: "service_config \<Rightarrow> u64 \<Rightarrow> arm_body \<Rightarrow> clock_snapshot \<Rightarrow> u64 \<Rightarrow> bool" where
  "safe_arm cfg total_ns arm now start \<longleftrightarrow>
     inverse_utc now (arm_start_utc_ns arm) = Some start \<and>
     clock_trusted cfg now \<and> leap now \<noteq> LeapUnknown \<and>
     uncertainty_ns now \<le> arm_max_start_uncertainty_ns arm \<and>
     uncertainty_ns now \<le> maximum_arm_uncertainty_ns cfg \<and>
     unat (utc_now_ns now) + unat (minimum_arm_lead_ns cfg) \<le> unat (arm_start_utc_ns arm) \<and>
     unat (arm_start_utc_ns arm) \<le> unat (utc_now_ns now) + unat (maximum_arm_ahead_ns cfg) \<and>
     unat start + unat (start_window_ns (arm_start_utc_ns arm)) + unat total_ns < 2 ^ 64 \<and>
     (\<exists>d. duration_utc_bound total_ns now = Some d \<and>
        arm_window_end arm + unat d < unat (valid_until_utc_ns now) \<and>
        clear_of_leap (arm_start_utc_ns arm) (arm_window_end arm + unat d) (leap_transition_utc_ns now))"

text \<open>The guards of an accepted arm, as the code has them. A chain of early returns gives its result
  exactly when every guard is passed.\<close>

lemma passed_guard:
  "(if c then Inl e else x) = Inr r \<longleftrightarrow> \<not> c \<and> x = Inr r"
  "(case v of None \<Rightarrow> Inl e | Some y \<Rightarrow> f y) = Inr r \<longleftrightarrow> (\<exists>y. v = Some y \<and> f y = Inr r)"
  by (simp_all split: option.split)

lemma validate_arm_guards:
  assumes "validate_arm cfg resolution total_ns arm now = Inr start"
  defines "utc \<equiv> arm_start_utc_ns arm"
  defines "window \<equiv> start_window_ns utc"
  shows "inverse_utc now utc = Some start" "clock_trusted cfg now" "leap_announced now"
    "uncertainty_ns now \<le> arm_max_start_uncertainty_ns arm"
    "uncertainty_ns now \<le> maximum_arm_uncertainty_ns cfg"
    "\<not> utc < utc_now_ns now" "\<not> utc - utc_now_ns now < minimum_arm_lead_ns cfg"
    "\<not> utc - utc_now_ns now > maximum_arm_ahead_ns cfg"
    "\<not> start > u64_max - window" "\<not> utc > u64_max - window"
    "\<not> total_ns > u64_max - (start + window)"
    "\<exists>d. duration_utc_bound total_ns now = Some d \<and> \<not> utc + window - 1 \<ge> valid_until_utc_ns now \<and>
       \<not> d \<ge> valid_until_utc_ns now - (utc + window - 1) \<and>
       (case leap_transition_utc_ns now of None \<Rightarrow> True
        | Some t \<Rightarrow> \<not> d > u64_max - (utc + window - 1) \<and>
           \<not> (utc \<le> saturating_add t leap_exclusion_ns \<and>
              utc + window - 1 + d \<ge> (if t > leap_exclusion_ns then t - leap_exclusion_ns else 0)))"
proof -
  note chain = assms(1) [unfolded validate_arm_def Let_def passed_guard, folded utc_def, folded window_def]
  show "inverse_utc now utc = Some start" "leap_announced now"
    "uncertainty_ns now \<le> arm_max_start_uncertainty_ns arm"
    "uncertainty_ns now \<le> maximum_arm_uncertainty_ns cfg"
    "\<not> utc < utc_now_ns now" "\<not> utc - utc_now_ns now < minimum_arm_lead_ns cfg"
    "\<not> utc - utc_now_ns now > maximum_arm_ahead_ns cfg"
    "\<not> start > u64_max - window" "\<not> utc > u64_max - window"
    "\<not> total_ns > u64_max - (start + window)"
    using chain by (auto split: option.splits simp: passed_guard)
  show "clock_trusted cfg now"
    using chain by (cases "clock_state now") (simp_all add: clock_trusted_def word_gt_0 not_less)
  show "\<exists>d. duration_utc_bound total_ns now = Some d \<and> \<not> utc + window - 1 \<ge> valid_until_utc_ns now \<and>
       \<not> d \<ge> valid_until_utc_ns now - (utc + window - 1) \<and>
       (case leap_transition_utc_ns now of None \<Rightarrow> True
        | Some t \<Rightarrow> \<not> d > u64_max - (utc + window - 1) \<and>
           \<not> (utc \<le> saturating_add t leap_exclusion_ns \<and>
              utc + window - 1 + d \<ge> (if t > leap_exclusion_ns then t - leap_exclusion_ns else 0)))"
    using chain by (cases "leap_transition_utc_ns now") (auto simp: passed_guard)
qed

lemma start_window_bounds: "unat (start_window_ns utc) \<ge> 1" "unat (start_window_ns utc) \<le> 1000000000"
proof -
  have m: "unat (utc mod 1000000000) < 1000000000" by (simp add: unat_mod)
  then have "unat (start_window_ns utc) = 1000000000 - unat (utc mod 1000000000)"
    by (simp add: start_window_ns_def unat_u64_minus word_nat)
  then show "unat (start_window_ns utc) \<ge> 1" "unat (start_window_ns utc) \<le> 1000000000"
    using m by simp_all
qed

lemma validate_arm_sound:
  assumes "validate_arm cfg resolution total_ns arm now = Inr start"
  shows "safe_arm cfg total_ns arm now start"
proof -
  define utc window where "utc = arm_start_utc_ns arm" and "window = start_window_ns utc"
  note g = validate_arm_guards [OF assms, folded utc_def, folded window_def]
  note w = start_window_bounds [of utc, folded window_def]
  have s: "unat (start + window) = unat start + unat window"
    and u: "unat (utc + window) = unat utc + unat window"
    using unat_guarded_plus [OF g(9)] unat_guarded_plus [OF g(10)] by (simp_all add: add.commute)
  have last: "unat (utc + window - 1) = arm_window_end arm"
    using w(1) by (simp add: unat_u64_minus word_nat u arm_window_end_def flip: utc_def window_def)
  have "unat start + unat window + unat total_ns < 2 ^ 64"
    using g(11) unat_u64_less [of "start + window"] by (simp add: word_nat s)
  moreover obtain d where d: "duration_utc_bound total_ns now = Some d"
    "\<not> utc + window - 1 \<ge> valid_until_utc_ns now" "\<not> d \<ge> valid_until_utc_ns now - (utc + window - 1)"
    "case leap_transition_utc_ns now of None \<Rightarrow> True
        | Some t \<Rightarrow> \<not> d > u64_max - (utc + window - 1) \<and>
           \<not> (utc \<le> saturating_add t leap_exclusion_ns \<and>
              utc + window - 1 + d \<ge> (if t > leap_exclusion_ns then t - leap_exclusion_ns else 0))"
    using g(12) by blast
  have "arm_window_end arm + unat d < unat (valid_until_utc_ns now)"
    using d(2,3) by (simp add: word_nat unat_u64_minus last)
  moreover have "clear_of_leap utc (arm_window_end arm + unat d) (leap_transition_utc_ns now)"
  proof (cases "leap_transition_utc_ns now")
    case (Some t)
    have "unat (utc + window - 1 + d) = arm_window_end arm + unat d"
      using unat_guarded_plus [where x = "utc + window - 1" and y = d] d(4) Some by (simp add: last)
    then show ?thesis
      using d(4) Some unat_u64_le [of utc]
      by (auto simp: clear_of_leap_def word_nat unat_saturating_add leap_exclusion_ns_def unat_u64_minus
          split: if_splits)
  qed (simp add: clear_of_leap_def)
  ultimately show ?thesis
    using g(1-8) d(1) by (auto simp: safe_arm_def leap_announced_def word_nat unat_u64_minus simp flip: utc_def window_def)
qed

section \<open>Properties\<close>

text \<open>C8: a job is admitted exactly when it can be transmitted. The checks accept a job if and only
  if its identity, profile and mode are legal, its events start at zero, follow each other without
  gap or overlap and cover exactly the declared duration, every event lasts, is keyed on exactly
  when it names a frequency, and that frequency is within the device's range; and the number of
  events and the duration are within the limits. The right-hand side is arithmetic without
  wrap-around, so no overflow of the 64-bit sums lets a malformed job through.\<close>

theorem job_admission_exact: "validate_job cfg j = NoError \<longleftrightarrow> transmittable cfg j"
  by (rule validate_job_iff)

text \<open>C9: an accepted arm is a promise that can be kept. When the checks accept an arm, the start
  they return is the first monotonic instant of the requested UTC time; the clock is trusted and
  its uncertainty within both limits; the start is neither too close nor too far; start, window and
  duration fit the monotonic clock; and from the requested start to the end of a transmission
  launched at the last instant of the window, however fast UTC may run, the interval stays before
  the validity limit of the clock model and away from an announced leap second by more than one
  second on either side.\<close>

theorem arm_admission_sound:
  assumes "validate_arm cfg resolution total_ns arm now = Inr start"
  shows "safe_arm cfg total_ns arm now start"
  using assms by (rule validate_arm_sound)

definition sample_arm :: arm_body where
  "sample_arm = \<lparr>arm_job_id = replicate 32 CHR ''b'', arm_start_utc_ns = 1010000000000,
     arm_max_start_uncertainty_ns = 1000000\<rparr>"

definition leap_clock :: clock_snapshot where
  "leap_clock = \<lparr>clock_state = Synchronized, utc_now_ns = 1000000000000, monotonic_now_ns = 5000000000,
     uncertainty_ns = 1000, sync_age_ns = 0, leap = InsertPending, leap_transition_utc_ns = Some 1200000000000,
     rate_ppb = 100, rate_uncertainty_ppb = 10, model_generation = 1, rate_until_monotonic_ns = u64_max,
     subsequent_rate_ppb = 0, valid_until_utc_ns = u64_max\<rparr>"

lemma sample_arm_accepted:
  "validate_arm default_config 1000 110592000000 sample_arm leap_clock = Inr 14999999001"
  by code_simp

theorem arm_admission_sound_witness:
  "safe_arm default_config 110592000000 sample_arm leap_clock 14999999001"
  by (rule arm_admission_sound [OF sample_arm_accepted])

end
