(* ===== verification/Job_Launch.thy ===== *)
theory Job_Launch
  imports Job_Safety Job_Admission "HOL-Library.Sublist"
begin

text \<open>
  Who may start a transmission. The RF engine is started in two ways: the service calls \<open>begin\<close>
  from \<open>poll\<close>, or it hands an armed job over with \<open>schedule\<close> to an engine that keeps its own time.
  To speak about these calls, an environment is extended with a log of them and a log of the snapshots
  its clock showed; the service cannot see the logs. An action is \<open>silent\<close> when it adds no start. Every
  helper of the service is silent except the two that start a transmission, and these say under which
  conditions they do, and on which snapshot.
\<close>

section \<open>Environments with a log of launches\<close>

datatype launch = Begun job u64 | Scheduled job u64 local_start_conditions

type_synonym 'd recorded = "'d \<times> launch list \<times> clock_snapshot list"

definition recording :: "launch \<Rightarrow> ('d \<Rightarrow> 'a \<times> 'd) \<Rightarrow> 'd recorded \<Rightarrow> 'a \<times> 'd recorded" where
  "recording launch f w = (case f (fst w) of (a, d) \<Rightarrow> (a, d, fst (snd w) @ [launch], snd (snd w)))"

definition showing :: "('d \<Rightarrow> clock_snapshot \<times> 'd) \<Rightarrow> 'd recorded \<Rightarrow> clock_snapshot \<times> 'd recorded" where
  "showing f w = (case f (fst w) of (a, d) \<Rightarrow> (a, d, fst (snd w), snd (snd w) @ [a]))"

definition logged :: "'d environment \<Rightarrow> 'd recorded environment" where
  "logged E =
    \<lparr>env_snapshot = showing (env_snapshot E), env_new_boot_id = aside (env_new_boot_id E),
     env_available_memory = map_option aside (env_available_memory E),
     env_prepare = (\<lambda>j. aside (env_prepare E j)), env_inhibit_output = aside (env_inhibit_output E),
     env_calibration_boundary = aside (env_calibration_boundary E),
     env_schedule = (\<lambda>j start c. recording (Scheduled j start c) (env_schedule E j start c)),
     env_begin = (\<lambda>j start. recording (Begun j start) (env_begin E j start)),
     env_poll = (\<lambda>now. aside (env_poll E now)), env_disable = (\<lambda>deadline. aside (env_disable E deadline)),
     env_output_active = aside (env_output_active E),
     env_execution_started = aside (env_execution_started E),
     env_arm_observer = map_option (\<lambda>ob j i u m c p. aside (ob j i u m c p)) (env_arm_observer E),
     env_preparation_memory_bytes = env_preparation_memory_bytes E,
     env_schedules_locally = env_schedules_locally E, env_owns_execution_plan = env_owns_execution_plan E,
     env_externally_controlled_completion = env_externally_controlled_completion E,
     env_start_resolution_ns = env_start_resolution_ns E,
     env_completion_acknowledgement_ns = env_completion_acknowledgement_ns E,
     env_filter_preparation_ns = env_filter_preparation_ns E,
     env_amplifier_lead_ns = env_amplifier_lead_ns E, env_amplifier_tail_ns = env_amplifier_tail_ns E\<rparr>"

abbreviation launches :: "'d recorded service \<Rightarrow> launch list" where
  "launches s \<equiv> fst (snd (sv_env s))"

abbreviation seen :: "'d recorded service \<Rightarrow> clock_snapshot list" where
  "seen s \<equiv> snd (snd (sv_env s))"

section \<open>Silent actions\<close>

named_theorems silent_rules "rules that an action adds no launch"

definition silent :: "('d recorded, 'a) action \<Rightarrow> bool" where
  "silent m \<longleftrightarrow> (\<forall>s. launches (snd (run_state m s)) = launches s \<and> prefix (seen s) (seen (snd (run_state m s))))"

lemma silent_ret [silent_rules]: "silent (ret a)"
  and silent_gets [silent_rules]: "silent (gets f)"
  and silent_when [silent_rules]: "silent n \<Longrightarrow> silent (perform_when c n)"
  by (simp_all add: silent_def perform_when_def)

lemma silent_bind [silent_rules]:
  assumes "silent m" "\<And>a. silent (k a)"
  shows "silent (m \<bind> k)"
  unfolding silent_def
proof
  fix s
  obtain a u where run: "run_state m s = (a, u)" by fastforce
  have "launches u = launches s" "prefix (seen s) (seen u)"
    using assms(1) run unfolding silent_def by (metis snd_conv)+
  moreover have "launches (snd (run_state (k a) u)) = launches u" "prefix (seen u) (seen (snd (run_state (k a) u)))"
    using assms(2) unfolding silent_def by blast+
  ultimately show "launches (snd (run_state (m \<bind> k) s)) = launches s \<and>
      prefix (seen s) (seen (snd (run_state (m \<bind> k) s)))"
    using run prefix_order.trans by fastforce
qed

lemma silent_modify [silent_rules]: "(\<And>s. sv_env (f s) = sv_env s) \<Longrightarrow> silent (modify f)"
  by (simp add: silent_def)

lemma silent_act [silent_rules]: "silent (act (aside f))"
  by (simp add: silent_def act_def aside_def split: prod.split)

lemma silent_if [silent_rules]: "(c \<Longrightarrow> silent m) \<Longrightarrow> (\<not> c \<Longrightarrow> silent n) \<Longrightarrow> silent (if c then m else n)"
  by simp

lemma silent_option [silent_rules]:
  "silent m \<Longrightarrow> (\<And>y. silent (k y)) \<Longrightarrow> silent (case x of None \<Rightarrow> m | Some y \<Rightarrow> k y)"
  by (simp split: option.split)

lemma silent_prod [silent_rules]: "(\<And>a b. silent (k a b)) \<Longrightarrow> silent (case x of (a, b) \<Rightarrow> k a b)"
  by (simp split: prod.split)

lemma silent_let [silent_rules]: "silent (k e) \<Longrightarrow> silent (let x = e in k x)"
  by simp

lemma logged_fields [simp]:
  "env_snapshot (logged E) = showing (env_snapshot E)" "env_new_boot_id (logged E) = aside (env_new_boot_id E)"
  "env_available_memory (logged E) = map_option aside (env_available_memory E)"
  "env_prepare (logged E) j = aside (env_prepare E j)" "env_inhibit_output (logged E) = aside (env_inhibit_output E)"
  "env_calibration_boundary (logged E) = aside (env_calibration_boundary E)"
  "env_schedule (logged E) j start c = recording (Scheduled j start c) (env_schedule E j start c)"
  "env_begin (logged E) j start = recording (Begun j start) (env_begin E j start)"
  "env_poll (logged E) now = aside (env_poll E now)" "env_disable (logged E) deadline = aside (env_disable E deadline)"
  "env_output_active (logged E) = aside (env_output_active E)"
  "env_execution_started (logged E) = aside (env_execution_started E)"
  "env_arm_observer (logged E) = map_option (\<lambda>ob j i u m c p. aside (ob j i u m c p)) (env_arm_observer E)"
  "env_schedules_locally (logged E) = env_schedules_locally E"
  "env_start_resolution_ns (logged E) = env_start_resolution_ns E"
  by (simp_all add: logged_def)

lemma silent_showing: "silent (act (showing f))"
  by (simp add: silent_def act_def showing_def split: prod.split)

lemma silent_observations [silent_rules]:
  "silent (snapshot (logged E))" "silent (output_active (logged E))"
  "silent (calibration_boundary (logged E))"
  by (simp_all add: snapshot_def output_active_def calibration_boundary_def silent_act silent_showing)

lemma silent_available_memory [silent_rules]: "silent (available_memory (logged E))"
  unfolding available_memory_def
  by (cases "env_available_memory E") (auto intro!: silent_rules)

lemma world_kept [simp]:
  "sv_env (clear_job s) = sv_env s" "sv_env (touch_terminal ident s) = sv_env s"
  "sv_env (release_execution_input E s) = sv_env s" "sv_env (prune_replay n s) = sv_env s"
  "sv_env (prune_terminals n s) = sv_env s" "sv_env (prune_sessions n s) = sv_env s"
  "sv_env (remember r rsp n s) = sv_env s" "sv_env (accept_job j dg adj s) = sv_env s"
  "sv_env (note_launch report s) = sv_env s" "sv_env (see_session r n s) = sv_env s"
  by (simp_all add: clear_job_def touch_terminal_def release_execution_input_def prune_replay_def
      prune_terminals_def prune_sessions_def remember_def accept_job_def note_launch_def see_session_def Let_def
      split: option.split prod.split)

lemma silent_replies [silent_rules]:
  "silent (reject (logged E) code)" "silent (success (logged E))" "silent (activity (logged E))"
  "silent (maintenance (logged E))"
  by (auto simp: reject_def success_def activity_def maintenance_def Let_def intro!: silent_rules)

lemma silent_status [silent_rules]: "silent (status (logged E) history)"
  by (auto simp: status_def intro!: silent_rules)

lemma silent_endings [silent_rules]:
  "silent (drop_owner (logged E))" "silent (engine_stopped (logged E) now)"
  by (auto simp: drop_owner_def engine_stopped_def intro!: silent_rules)

lemma silent_record_terminal [silent_rules]: "silent (record_terminal (logged E) st err now)"
  by (auto simp: record_terminal_def intro!: silent_rules split: prod.split)

lemma silent_finish_execution [silent_rules]: "silent (finish_execution (logged E) st err now)"
  by (auto simp: finish_execution_def intro!: silent_rules)

lemma silent_housekeep [silent_rules]: "silent (housekeep (logged E) now)"
  by (auto simp: housekeep_def expire_resources_def intro!: silent_rules)

lemma silent_replay [silent_rules]: "silent (replay r)"
  by (auto simp: replay_def Let_def intro!: silent_rules)

lemma silent_body [silent_rules]:
  assumes "silent m" "\<And>versions. silent (h versions)" "\<And>w l. silent (c w l)" "\<And>w l. silent (n w l)" "\<And>j. silent (b j)"
    "\<And>a. silent (a' a)" "\<And>i. silent (x i)" "\<And>p. silent (g p)" "\<And>i d. silent (l i d)"
  shows "silent (case body of NoBody \<Rightarrow> m | HelloBody versions \<Rightarrow> h versions | ClaimBody ow le \<Rightarrow> c ow le
    | RenewBody ow le \<Rightarrow> n ow le | JobBody j \<Rightarrow> b j | ArmBody a \<Rightarrow> a' a | AbortBody i \<Rightarrow> x i
    | PingBody p \<Rightarrow> g p | LoadReplayBody i d \<Rightarrow> l i d)"
  using assms by (simp split: request_body.split)

lemma silent_operations [silent_rules]:
  "silent (dispatch_query (logged E) r now)" "silent (dispatch_claim (logged E) r now)"
  "silent (dispatch_renew (logged E) r now)" "silent (dispatch_release (logged E) r)"
  "silent (load_response (logged E) ident)"
  by (auto simp: dispatch_query_def dispatch_claim_def dispatch_renew_def dispatch_release_def load_response_def
      Let_def intro!: silent_rules)

lemma silent_loads [silent_rules]:
  "silent (dispatch_load_replay (logged E) ident digest)" "silent (dispatch_load (logged E) j)"
  "silent (abort_job (logged E) ident)"
  by (auto simp: dispatch_load_replay_def dispatch_load_def abort_job_def Let_def intro!: silent_rules)

lemma silent_admit_session [silent_rules]: "silent (admit_session (logged E) r now)"
  by (auto simp: admit_session_def Let_def intro!: silent_rules)

lemma silent_poll_parts [silent_rules]:
  "silent (poll_local (logged E) now)" "silent (poll_running (logged E) now report)"
  by (auto simp: poll_local_def poll_running_def poll_overdue_def tail_pending_def Let_def
      intro!: silent_rules split: engine_state.split)

section \<open>What housekeeping leaves of a waiting job\<close>

definition same_tenant :: "owner option \<Rightarrow> owner option \<Rightarrow> bool" where
  "same_tenant w w' \<longleftrightarrow> (case w' of None \<Rightarrow> True
     | Some own' \<Rightarrow> (case w of None \<Rightarrow> False
         | Some own \<Rightarrow> own_session_id own' = own_session_id own \<and> own_principal own' = own_principal own))"

definition aged :: "'d service \<Rightarrow> 'd service \<Rightarrow> bool" where
  "aged s t \<longleftrightarrow> config t = config s \<and> output_inhibited t = output_inhibited s \<and>
     (sv_state t \<in> {Loaded, Armed} \<longrightarrow> sv_state t = sv_state s \<and> current_job t = current_job s \<and>
        current_arm t = current_arm s) \<and>
     same_tenant (current_owner s) (current_owner t)"

lemma same_tenant_refl [simp]: "same_tenant w w" "same_tenant w None"
  by (simp_all add: same_tenant_def split: option.split)

lemma aged_refl [simp]: "aged s s" "aged s (s\<lparr>sv_env := d\<rparr>)"
  by (simp_all add: aged_def)

lemma aged_trans [trans]: "aged s t \<Longrightarrow> aged t u \<Longrightarrow> aged s u"
  by (auto simp: aged_def same_tenant_def split: option.splits)

lemma aged_pruned:
  "aged s (prune_replay n s)" "aged s (prune_terminals n s)" "aged s (prune_sessions n s)"
  by (auto simp: aged_def prune_replay_def prune_terminals_def prune_sessions_def Let_def split: option.split)

lemma expire_aged: "wp (expire_resources E now) (\<lambda>_. aged s) s"
  by (auto simp: expire_resources_def wp_eqs aged_def same_tenant_def split: option.split
      intro!: wp_engine_stopped wp_record_terminal wp_drop_owner)

lemma housekeep_aged: "wp (housekeep E now) (\<lambda>_. aged s) s"
  unfolding housekeep_def wp_eqs
proof (rule wp_mono [OF expire_aged])
  fix t assume "aged s t"
  also note aged_pruned(1) [of _ now]
  also note aged_pruned(2) [of _ now]
  also note aged_pruned(3) [of _ now]
  finally show "aged s (prune_sessions now (prune_terminals now (prune_replay now t)))" .
qed

section \<open>The two places that start a transmission\<close>

lemma silent_wp: "silent m \<Longrightarrow> wp m (\<lambda>_ t. launches t = launches s \<and> prefix (seen s) (seen t)) s"
  by (simp add: silent_def wp_run)

lemma silent_launches: "silent m \<Longrightarrow> wp m (\<lambda>_ t. launches t = launches s) s"
  by (simp add: silent_def wp_run)

lemma shown_later: "prefix ss ss' \<Longrightarrow> now \<in> set (drop k ss) \<Longrightarrow> now \<in> set (drop k ss')"
  by (auto simp: prefix_def)

definition begun :: "'d recorded service \<Rightarrow> clock_snapshot \<Rightarrow> launch list \<Rightarrow> bool" where
  "begun s now n \<longleftrightarrow> n = [] \<or> (\<exists>arm j. n = [Begun j (monotonic_now_ns now)] \<and>
     sv_state s = Armed \<and> current_arm s = Some arm \<and> current_job s = Some j \<and>
     rec_start_monotonic_ns arm \<le> monotonic_now_ns now \<and>
     launch_permitted (config s) arm (total_duration_ns j) now)"

lemma begun_aged: "aged s t \<Longrightarrow> begun t now n \<Longrightarrow> begun s now n"
  by (auto simp: begun_def aged_def)

lemma poll_launch_begun:
  "wp (poll_launch (logged E) now) (\<lambda>_ t. \<exists>n. launches t = launches s @ n \<and> begun s now n) s"
proof (cases "\<exists>arm j. current_arm s = Some arm \<and> current_job s = Some j \<and> sv_state s = Armed \<and>
    \<not> monotonic_now_ns now < rec_start_monotonic_ns arm \<and> launch_permitted (config s) arm (total_duration_ns j) now")
  case False
  then have "wp (poll_launch (logged E) now) (\<lambda>_ t. launches t = launches s) s"
    unfolding poll_launch_def wp_eqs
    by (auto split: option.split intro!: silent_launches silent_rules wp_mono [OF silent_launches] simp: wp_eqs)
  then show ?thesis by (rule wp_mono) (simp add: begun_def)
next
  case True
  then obtain arm j where arm: "current_arm s = Some arm" "current_job s = Some j" "sv_state s = Armed"
    "\<not> monotonic_now_ns now < rec_start_monotonic_ns arm"
    "launch_permitted (config s) arm (total_duration_ns j) now" by blast
  let ?n = "[Begun j (monotonic_now_ns now)]"
  have n: "begun s now ?n" using arm by (auto simp: begun_def)
  obtain ok d where "env_begin E j (monotonic_now_ns now) (fst (sv_env s)) = (ok, d)" by fastforce
  then have "wp (poll_launch (logged E) now) (\<lambda>_ t. launches t = launches s @ ?n) s"
    unfolding poll_launch_def wp_eqs using arm
    by (auto simp: wp_act recording_def wp_eqs
        intro!: wp_mono [OF silent_launches [OF silent_finish_execution]])
  then show ?thesis by (rule wp_mono) (use n in blast)
qed

lemma poll_local_aged: "wp (poll_local E now) (\<lambda>_. aged s) s"
  by (auto simp: poll_local_def wp_eqs aged_def intro!: wp_act_any)

text \<open>Sequencing: steps that are silent and only age the state are passed over; silent steps at the
  end add nothing.\<close>

definition kept :: "'d recorded service \<Rightarrow> 'd recorded service \<Rightarrow> bool" where
  "kept s u \<longleftrightarrow> aged s u \<and> launches u = launches s \<and> prefix (seen s) (seen u)"

lemma kept_refl [simp]: "kept s s"
  by (simp add: kept_def)

lemma kept_trans [trans]: "kept s t \<Longrightarrow> kept t u \<Longrightarrow> kept s u"
  by (auto simp: kept_def intro: aged_trans prefix_order.trans)

lemma pass_over:
  assumes "silent m" "\<And>u. wp m (\<lambda>_. aged u) u" "kept s v" "\<And>a u. kept s u \<Longrightarrow> wp (k a) Q u"
  shows "wp (m \<bind> k) Q v"
  unfolding wp_bind
proof (rule wp_mono [OF wp_conj [THEN iffD2, OF conjI [OF assms(2) silent_wp [OF assms(1)]]]])
  fix a u assume "aged v u \<and> launches u = launches v \<and> prefix (seen v) (seen u)"
  then have "kept v u" by (simp add: kept_def)
  then show "wp (k a) Q u" by (intro assms(4) kept_trans [OF assms(3)])
qed

text \<open>A condition on the two logs that more snapshots do not spoil.\<close>

definition lasting :: "(launch list \<Rightarrow> clock_snapshot list \<Rightarrow> bool) \<Rightarrow> bool" where
  "lasting R \<longleftrightarrow> (\<forall>l ss ss'. R l ss \<longrightarrow> prefix ss ss' \<longrightarrow> R l ss')"

lemma then_silent:
  assumes "lasting R" "wp m (\<lambda>_ t. R (launches t) (seen t)) s" "\<And>a. silent (k a)"
  shows "wp (m \<bind> k) (\<lambda>_ t. R (launches t) (seen t)) s"
  unfolding wp_bind
proof (rule wp_mono [OF assms(2)])
  fix a and t :: "'a recorded service" assume "R (launches t) (seen t)"
  then show "wp (k a) (\<lambda>_ t. R (launches t) (seen t)) t"
    using assms(1) by (intro wp_mono [OF silent_wp [OF assms(3)]]) (auto simp: lasting_def)
qed

lemma snapshot_aged: "wp (snapshot E) (\<lambda>_. aged s) s"
  by (rule wp_snapshot) simp

lemma poll_begun:
  fixes s :: "'d recorded service"
  shows "wp (poll (logged E)) (\<lambda>_ t. \<exists>n. launches t = launches s @ n \<and>
     begun s (fst (env_snapshot E (fst (sv_env s)))) n) s"
proof -
  obtain now d where snap: "env_snapshot E (fst (sv_env s)) = (now, d)" by fastforce
  let ?Q = "\<lambda>l ss. \<exists>n. l = launches s @ n \<and> begun s now n"
  let ?shown = "(d, launches s, seen s @ [now])"
  have lasting: "lasting ?Q" by (simp add: lasting_def)
  have launched: "wp (poll_launch (logged E) now) (\<lambda>_ t. ?Q (launches t) (seen t)) u" if "kept s u" for u
    using that begun_aged by (intro wp_mono [OF poll_launch_begun]) (fastforce simp: kept_def)
  have start: "kept s (s\<lparr>sv_env := ?shown\<rparr>)" by (simp add: kept_def)
  have "wp (housekeep (logged E) (monotonic_now_ns now) \<bind> (\<lambda>_. poll_local (logged E) now \<bind>
      (\<lambda>a. case a of None \<Rightarrow> ret () | Some report \<Rightarrow>
       poll_launch (logged E) now \<bind> (\<lambda>proceed. gets sv_state \<bind>
         (\<lambda>st. perform_when (proceed \<and> st = Running) (poll_running (logged E) now report))))))
      (\<lambda>_ t. ?Q (launches t) (seen t)) (s\<lparr>sv_env := ?shown\<rparr>)"
  proof (rule pass_over [OF silent_housekeep housekeep_aged start], rule pass_over [OF _ poll_local_aged])
    fix a and u :: "'d recorded service" assume u: "kept s u"
    show "wp (case a of None \<Rightarrow> ret () | Some report \<Rightarrow>
       poll_launch (logged E) now \<bind> (\<lambda>proceed. gets sv_state \<bind>
         (\<lambda>st. perform_when (proceed \<and> st = Running) (poll_running (logged E) now report))))
      (\<lambda>_ t. ?Q (launches t) (seen t)) u"
    proof (cases a)
      case None
      then show ?thesis using u by (simp add: wp_ret kept_def begun_def)
    next
      case (Some report)
      then show ?thesis
        by (simp only: option.case) (rule then_silent [OF lasting launched [OF u]], intro silent_rules)
    qed
  qed (auto intro: silent_rules)
  then show ?thesis
    by (simp add: poll_def wp_bind [of "act (showing (env_snapshot E))"] snapshot_def wp_act showing_def snap)
qed

definition scheduled ::
    "'d environment \<Rightarrow> request \<Rightarrow> 'd recorded service \<Rightarrow> clock_snapshot list \<Rightarrow> launch list \<Rightarrow> bool" where
  "scheduled E r s shown n \<longleftrightarrow> n = [] \<or> (\<exists>j start c body. \<exists>now \<in> set shown. n = [Scheduled j start c] \<and>
     req_operation r = ''ARM'' \<and> req_body r = ArmBody body \<and> env_schedules_locally E \<and>
     sv_state s = Loaded \<and> current_job s = Some j \<and> job_id j = arm_job_id body \<and>
     safe_arm (config s) (total_duration_ns j) body now start \<and>
     conditions_start_utc_ns c = arm_start_utc_ns body \<and>
     conditions_maximum_uncertainty_ns c =
       min (arm_max_start_uncertainty_ns body) (maximum_arm_uncertainty_ns (config s)))"

lemma scheduled_aged: "aged s t \<Longrightarrow> scheduled E r t shown n \<Longrightarrow> scheduled E r s shown n"
  by (auto simp: scheduled_def aged_def)

lemma scheduled_lasting: "scheduled E r s (drop k ss) n \<Longrightarrow> prefix ss ss' \<Longrightarrow> scheduled E r s (drop k ss') n"
  using shown_later [of ss ss' _ k] unfolding scheduled_def by blast

lemma lasting_scheduled: "lasting (\<lambda>l ss. \<exists>n. l = l0 @ n \<and> scheduled E r s (drop k ss) n \<and> P n)"
  unfolding lasting_def using scheduled_lasting by blast

lemmas lasting_schedule = lasting_scheduled [where P = "\<lambda>n. True", simplified]

lemma quiet:
  assumes "lasting R" "silent m" "R (launches s) (seen s)"
  shows "wp m (\<lambda>_ t. R (launches t) (seen t)) s"
  using assms(1,3) by (intro wp_mono [OF silent_wp [OF assms(2)]]) (auto simp: lasting_def)

lemma pass_silent:
  assumes "silent m" "\<And>a u. launches u = launches v \<Longrightarrow> prefix (seen v) (seen u) \<Longrightarrow> wp (k a) Q u"
  shows "wp (m \<bind> k) Q v"
  unfolding wp_bind by (rule wp_mono [OF silent_wp [OF assms(1)]]) (simp add: assms(2))

text \<open>The snapshot a step takes is shown during the call.\<close>

lemma pass_snapshot:
  assumes "k \<le> length (seen s)" "\<And>now u. kept s u \<Longrightarrow> now \<in> set (drop k (seen u)) \<Longrightarrow> wp (f now) Q u"
  shows "wp (snapshot (logged E) \<bind> f) Q s"
  unfolding wp_bind snapshot_def wp_act logged_fields showing_def
  by (auto split: prod.split intro!: assms(2) simp: kept_def assms(1))

lemma silent_observer:
  "silent (case env_arm_observer (logged E) of None \<Rightarrow> ret () | Some observer \<Rightarrow> act (observer j i u m now p))"
  by (cases "env_arm_observer E") (auto intro!: silent_rules)

lemma schedule_silently:
  assumes "lasting R" "R (launches v @ [Scheduled j start c]) (seen v)" "\<And>a. silent (f a)"
  shows "wp (act (env_schedule (logged E) j start c) \<bind> f) (\<lambda>_ t. R (launches t) (seen t)) v"
  unfolding wp_bind wp_act logged_fields recording_def
  by (auto split: prod.split intro!: quiet [OF assms(1,3)] simp: assms(2))

lemma arm_current_scheduled:
  fixes s :: "'d recorded service"
  assumes "req_operation r = ''ARM''" "req_body r = ArmBody body" "now \<in> set (drop k (seen s))"
  shows "wp (arm_current (logged E) r body now)
    (\<lambda>_ t. \<exists>n. launches t = launches s @ n \<and> scheduled E r s (drop k (seen t)) n) s"
proof -
  let ?R = "\<lambda>l ss. \<exists>n. l = launches s @ n \<and> scheduled E r s (drop k ss) n"
  have R: "?R (launches s) (seen s)" by (simp add: scheduled_def)
  note lasting = lasting_schedule [of "launches s" E r s k]
  note still = quiet [where R = ?R, OF lasting _ R] and stays = quiet [where R = ?R, OF lasting]
  show ?thesis
  proof (cases "current_job s")
    case None
    then show ?thesis unfolding arm_current_def wp_bind [of "gets id"] wp_gets
      by (auto intro!: still silent_rules)
  next
    case (Some j)
    show ?thesis
    proof (cases "job_id j = arm_job_id body \<and> sv_state s = Loaded")
      case False
      then show ?thesis unfolding arm_current_def wp_bind [of "gets id"] wp_gets
        using Some by (auto intro!: still silent_rules)
    next
      case loaded: True
      have asked: "?R (launches s @ [Scheduled j start c]) ss"
        if "env_schedules_locally E" "safe_arm (config s) (total_duration_ns j) body now start" "now \<in> set (drop k ss)"
          "conditions_start_utc_ns c = arm_start_utc_ns body" "conditions_maximum_uncertainty_ns c =
            min (arm_max_start_uncertainty_ns body) (maximum_arm_uncertainty_ns (config s))" for start c ss
        using that loaded Some assms(1,2) by (auto simp: scheduled_def)
      show ?thesis
        unfolding arm_current_def Let_def wp_bind [of "gets id"] wp_gets using Some loaded
        apply (simp split del: if_split)
        apply (rule pass_silent [OF silent_observations(2)])
        apply (split if_split, intro conjI impI)
         apply (rule stays, rule silent_rules, simp add: scheduled_def)
        apply (split sum.split, intro conjI allI impI)
         apply (rule stays, rule silent_rules, simp add: scheduled_def)
        apply (rule pass_silent, rule silent_modify, simp)
        apply (rule then_silent [OF lasting])
        subgoal premises p for a u start ua v
        proof -
          have safe: "safe_arm (config s) (total_duration_ns j) body now start"
            using p by (auto dest: validate_arm_sound)
          have later: "now \<in> set (drop k (seen v))"
            using p prefix_order.trans shown_later assms(3) by metis
          have l: "launches v = launches s" using p by simp
          show ?thesis
          proof (cases "env_schedules_locally E")
            case True
            show ?thesis
              using True l
              by (simp del: logged_fields(7) split del: if_split)
                (intro schedule_silently [where R = ?R, OF lasting] asked True safe later silent_rules;
                  use asked [OF True safe later] in simp)
          next
            case False
            then show ?thesis using l by (auto simp: wp_ret scheduled_def)
          qed
        qed
        subgoal by (auto intro!: silent_rules silent_observer)
        done
    qed
  qed
qed

lemma dispatch_arm_scheduled:
  fixes s :: "'d recorded service"
  assumes "req_operation r = ''ARM''" "req_body r = ArmBody body" "now \<in> set (drop k (seen s))"
  shows "wp (dispatch_arm (logged E) r body now)
    (\<lambda>_ t. \<exists>n. launches t = launches s @ n \<and> scheduled E r s (drop k (seen t)) n) s"
proof -
  let ?R = "\<lambda>l ss. \<exists>n. l = launches s @ n \<and> scheduled E r s (drop k ss) n"
  have R: "?R (launches s) (seen s)" by (simp add: scheduled_def)
  show ?thesis
    using arm_current_scheduled [OF assms] quiet [where R = ?R, OF lasting_schedule silent_replies(1) R] R
    by (auto simp: dispatch_arm_def wp_eqs split: option.split)
qed

lemma dispatch_scheduled:
  fixes s :: "'d recorded service"
  assumes "k \<le> length (seen s)"
  shows "wp (dispatch (logged E) r) (\<lambda>_ t. \<exists>n. launches t = launches s @ n \<and> scheduled E r s (drop k (seen t)) n \<and>
     (n \<noteq> [] \<longrightarrow> owns s r)) s"
proof -
  let ?R = "\<lambda>l ss. \<exists>n. l = launches s @ n \<and> scheduled E r s (drop k ss) n \<and> (n \<noteq> [] \<longrightarrow> owns s r)"
  note lasting = lasting_scheduled [of "launches s" E r s k "\<lambda>n. n \<noteq> [] \<longrightarrow> owns s r"]
  have R: "?R (launches s) ss" for ss by (simp add: scheduled_def)
  have others: "wp m (\<lambda>_ t. ?R (launches t) (seen t)) u" if "silent m" "kept s u" for u and m :: "('d recorded, response) action"
    by (rule quiet [where R = ?R, OF lasting that(1)]) (use that(2) R in \<open>simp add: kept_def\<close>)
  have arm: "wp (dispatch_owned (logged E) r now) (\<lambda>_ t. ?R (launches t) (seen t)) u"
    if "kept s u" "owns u r" "now \<in> set (drop k (seen u))" for now u
  proof (cases "req_operation r = ''ARM'' \<and> (\<exists>body. req_body r = ArmBody body)")
    case False
    then show ?thesis
      unfolding dispatch_owned_def
      by (auto intro!: others [OF _ that(1)] silent_rules split: request_body.split)
  next
    case True
    then obtain body where b: "req_operation r = ''ARM''" "req_body r = ArmBody body" by blast
    have "owns s r" using that
      by (auto simp: kept_def aged_def same_tenant_def owns_def split: option.splits)
    moreover have "scheduled E r s shown n" if "scheduled E r u shown n" for shown n
      using that \<open>kept s u\<close> scheduled_aged by (auto simp: kept_def)
    moreover have "launches u = launches s" using that by (simp add: kept_def)
    ultimately have "wp (dispatch_arm (logged E) r body now) (\<lambda>_ t. ?R (launches t) (seen t)) u"
      by (intro wp_mono [OF dispatch_arm_scheduled [OF b that(3)]]) auto
    then show ?thesis using b by (simp add: dispatch_owned_def)
  qed
  show ?thesis unfolding dispatch_def
  proof (rule pass_snapshot [OF assms])
    fix now and u :: "'d recorded service" assume u: "kept s u" "now \<in> set (drop k (seen u))"
    show "wp (gets id \<bind> (\<lambda>s. if req_operation r \<notin> set operations then reject (logged E) UnknownOperation
     else if \<not> req_body_valid r then reject (logged E) InvalidMessage
     else if req_operation r \<in> set query_operations then dispatch_query (logged E) r now
     else if req_operation r = ''CLAIM'' then dispatch_claim (logged E) r now
     else if \<not> owner_body_matches (req_operation r) (req_body r) then reject (logged E) InvalidMessage
     else if current_owner s = None then reject (logged E) LeaseExpired
     else if \<not> owns s r then reject (logged E) NotOwner
     else dispatch_owned (logged E) r now)) (\<lambda>_ t. ?R (launches t) (seen t)) u"
      unfolding wp_bind wp_gets using arm [OF u(1) _ u(2)] others [OF _ u(1)]
      by (simp add: silent_replies silent_operations)
  qed
qed

definition arm_authorised ::
    "'d environment \<Rightarrow> request \<Rightarrow> 'd recorded service \<Rightarrow> clock_snapshot list \<Rightarrow> launch list \<Rightarrow> bool" where
  "arm_authorised E r s shown n \<longleftrightarrow> n = [] \<or> (scheduled E r s shown n \<and> owns s r \<and> \<not> output_inhibited s)"

lemma lasting_authorised: "lasting (\<lambda>l ss. \<exists>n. l = l0 @ n \<and> arm_authorised E r s (drop k ss) n)"
  unfolding lasting_def arm_authorised_def using scheduled_lasting by blast

lemma admit_session_aged: "wp (admit_session E r now) (\<lambda>_. aged s) s"
  unfolding admit_session_def Let_def wp_eqs
  by (auto split: option.split intro!: wp_reject simp: aged_def see_session_def wp_eqs)

lemma replay_aged: "wp (replay r) (\<lambda>_. aged s) s"
  by (auto simp: replay_def wp_eqs Let_def aged_def split: option.split)

lemma wp_if_intro:
  "(c \<Longrightarrow> wp m Q s) \<Longrightarrow> (\<not> c \<Longrightarrow> wp n Q s) \<Longrightarrow> wp (if c then m else n) Q s"
  by simp

lemma handle_owned_authorised:
  fixes s :: "'d recorded service"
  shows "wp (handle_owned (logged E) r retain) (\<lambda>_ t. \<exists>n. launches t = launches s @ n \<and>
    arm_authorised E r s (drop (length (seen s)) (seen t)) n) s"
proof -
  let ?k = "length (seen s)"
  let ?R = "\<lambda>l ss. \<exists>n. l = launches s @ n \<and> arm_authorised E r s (drop ?k ss) n"
  note lasting = lasting_authorised [of "launches s" E r s ?k]
  have R: "?R (launches s) ss" for ss by (simp add: arm_authorised_def)
  have quiet: "wp m (\<lambda>_ t. ?R (launches t) (seen t)) u" if "silent m" "kept s u" for u and m :: "('d recorded, response) action"
    by (rule quiet [where R = ?R, OF lasting that(1)]) (use that(2) R in \<open>simp add: kept_def\<close>)
  have answered: "wp (answer (logged E) r retain now) (\<lambda>_ t. ?R (launches t) (seen t)) u"
    if "kept s u" "req_operation r \<in> set guarded_operations \<Longrightarrow> \<not> output_inhibited s" for now u
    unfolding answer_def
  proof (rule pass_over [OF silent_replay replay_aged that(1)])
    fix c and v :: "'d recorded service" assume v: "kept s v"
    have "owns s r" if "owns v r" using v that
      by (auto simp: kept_def aged_def same_tenant_def owns_def split: option.splits)
    moreover have "scheduled E r s shown n" if "scheduled E r v shown n" for shown n
      using that v scheduled_aged by (auto simp: kept_def)
    moreover have "launches v = launches s" using v by (simp add: kept_def)
    moreover have "\<not> output_inhibited s" if "scheduled E r v shown n" "n \<noteq> []" for shown n
      using that \<open>_ \<Longrightarrow> \<not> output_inhibited s\<close> by (auto simp: scheduled_def guarded_operations_def)
    ultimately have "wp (dispatch (logged E) r) (\<lambda>_ t. ?R (launches t) (seen t)) v"
      using v by (intro wp_mono [OF dispatch_scheduled [of ?k]])
        (auto simp: arm_authorised_def kept_def prefix_length_le)
    note sent = then_silent [where R = ?R, OF lasting this]
    show "wp (case c of NotSeen \<Rightarrow> dispatch (logged E) r \<bind> (\<lambda>rsp. perform_when retain (modify (remember r rsp now)) \<bind> (\<lambda>_. ret rsp))
        | Conflict \<Rightarrow> reject (logged E) RequestIdReuse \<bind> (\<lambda>rsp. ret (closing rsp)) | Cached rsp \<Rightarrow> ret rsp)
        (\<lambda>_ t. ?R (launches t) (seen t)) v"
    proof (cases c)
      case NotSeen
      then show ?thesis by simp (intro sent silent_rules, simp)
    qed (auto intro!: quiet [OF _ v] silent_rules)
  qed
  show ?thesis
    unfolding handle_owned_def
  proof (rule pass_over [OF silent_observations(1) snapshot_aged kept_refl],
      rule pass_over [OF silent_housekeep housekeep_aged])
    fix now :: clock_snapshot and a and u :: "'d recorded service" assume u: "kept s u"
    have closed: "wp ((if output_inhibited u then ret True else maintenance (logged E)) \<bind> (\<lambda>closed.
        if closed \<and> req_operation r \<in> set guarded_operations then reject (logged E) Busy
        else admit_session (logged E) r (monotonic_now_ns now) \<bind> (\<lambda>early.
          case early of Some rsp \<Rightarrow> ret rsp | None \<Rightarrow> answer (logged E) r retain (monotonic_now_ns now))))
        (\<lambda>_ t. ?R (launches t) (seen t)) u"
    proof -
      have go: "wp (admit_session (logged E) r (monotonic_now_ns now) \<bind> (\<lambda>early.
          case early of Some rsp \<Rightarrow> ret rsp | None \<Rightarrow> answer (logged E) r retain (monotonic_now_ns now)))
          (\<lambda>_ t. ?R (launches t) (seen t)) v"
        if "kept s v" "req_operation r \<in> set guarded_operations \<Longrightarrow> \<not> output_inhibited s" for v
        by (rule pass_over [OF silent_admit_session admit_session_aged that(1)])
           (use that(2) answered quiet in \<open>auto intro!: silent_rules split: option.split\<close>)
      have same: "output_inhibited u = output_inhibited s" using u by (simp add: kept_def aged_def)
      show ?thesis
      proof (cases "output_inhibited u")
        case True
        then show ?thesis unfolding wp_bind [of "ret True"] wp_ret if_P [OF True]
          using go [OF u] same
          by (cases "req_operation r \<in> set guarded_operations") (simp_all add: quiet [OF silent_replies(1) u])
      next
        case False
        have "wp (maintenance E') (\<lambda>_. aged v) v" for E' :: "'d recorded environment" and v
          by (rule wp_maintenance) simp
        then show ?thesis unfolding if_not_P [OF False]
          by (rule pass_over [OF silent_replies(4) _ u])
             (use False same go quiet in \<open>auto intro!: silent_rules\<close>)
      qed
    qed
    show "wp (gets id \<bind> (\<lambda>s. if \<not> ready s then reject (logged E) DeviceFault
     else if \<not> valid_id (req_session_id r) \<or> \<not> valid_id (req_request_id r) \<or>
             list_all (\<lambda>b. b = 0) (req_payload_digest r)
     then reject (logged E) InvalidMessage
     else if req_principal r = [] then reject (logged E) AuthenticationRequired
     else if req_protocol r \<noteq> ''WTP/1'' then reject (logged E) UnsupportedVersion \<bind> (\<lambda>rsp. ret (closing rsp))
     else (if output_inhibited s then ret True else maintenance (logged E)) \<bind> (\<lambda>closed.
        if closed \<and> req_operation r \<in> set guarded_operations then reject (logged E) Busy
        else admit_session (logged E) r (monotonic_now_ns now) \<bind> (\<lambda>early.
          case early of Some rsp \<Rightarrow> ret rsp | None \<Rightarrow> answer (logged E) r retain (monotonic_now_ns now)))))
        (\<lambda>_ t. ?R (launches t) (seen t)) u"
      unfolding wp_bind [of "gets id"] wp_gets id_apply
      by (intro wp_if_intro closed quiet [OF silent_replies(1) u]
          quiet [OF silent_bind [OF silent_replies(1) silent_ret] u])
  qed
qed

section \<open>Properties\<close>

text \<open>C5: the transmitter starts only with authority. A call of \<open>poll\<close> asks the engine to start at
  most once, and only when the service was armed on entry: then the job that starts is the armed
  one, its start time has been reached, and the clock at that moment satisfies every condition of
  the arm: trusted, within both uncertainty limits, in agreement with the armed mapping, inside the
  requested second and clear of leap seconds. The environment is arbitrary; the log that records
  the starts is invisible to the service.\<close>

theorem launch_authorised:
  assumes "run_state (poll (logged E)) s = ((), t)" "launches t \<noteq> launches s"
  shows "\<exists>arm j. launches t = launches s @ [Begun j (monotonic_now_ns (fst (env_snapshot E (fst (sv_env s)))))] \<and>
    sv_state s = Armed \<and> current_arm s = Some arm \<and> current_job s = Some j \<and>
    rec_start_monotonic_ns arm \<le> monotonic_now_ns (fst (env_snapshot E (fst (sv_env s)))) \<and>
    launch_permitted (config s) arm (total_duration_ns j) (fst (env_snapshot E (fst (sv_env s))))"
  using poll_begun [of E s] assms by (auto simp: wp_def begun_def)

text \<open>C6: a schedule is handed to the engine only for the owner. A request adds at most one
  scheduled start, and only when it is an \<open>ARM\<close> from the session and principal that own the
  transmitter, output is not inhibited, the job it names is the loaded one, and the start it
  receives is a safe one (as the admission theorem describes it) for a snapshot that the clock showed the
  service during this very call (\<open>seen\<close> logs what the clock returned, and the call's own entries follow those
  logged before it); the limits handed to the engine are those of the request and the configuration.\<close>

theorem schedule_authorised:
  assumes "run_state (handle_owned (logged E) r retain) s = (rsp, t)" "launches t \<noteq> launches s"
  shows "\<exists>j start c body own. \<exists>now \<in> set (drop (length (seen s)) (seen t)).
    launches t = launches s @ [Scheduled j start c] \<and>
    req_operation r = ''ARM'' \<and> req_body r = ArmBody body \<and> \<not> output_inhibited s \<and>
    current_owner s = Some own \<and> own_session_id own = req_session_id r \<and> own_principal own = req_principal r \<and>
    sv_state s = Loaded \<and> current_job s = Some j \<and> job_id j = arm_job_id body \<and>
    safe_arm (config s) (total_duration_ns j) body now start \<and>
    conditions_start_utc_ns c = arm_start_utc_ns body \<and>
    conditions_maximum_uncertainty_ns c =
      min (arm_max_start_uncertainty_ns body) (maximum_arm_uncertainty_ns (config s))"
  using handle_owned_authorised [of E r retain s] assms
  by (auto simp: wp_def arm_authorised_def scheduled_def owns_def split: option.splits)

text \<open>An armed service on the device without RF output, and a loaded one on a device that keeps its
  own time, evaluated.\<close>

definition launch_job :: job where
  "launch_job = \<lparr>job_id = sample_boot_id, profile = ''rf-events/1'', mode = ''tone'',
     total_duration_ns = 1000000000, events = no_events, allow_frequency_adjustment = False, message = None\<rparr>"

definition launch_arm :: arm_record where
  "launch_arm = \<lparr>rec_start_utc_ns = 1000000000000, rec_max_uncertainty_ns = 1000000,
     rec_start_monotonic_ns = 5000000000, rec_clock_snapshot = sample_clock, rec_scheduled_locally = False,
     rec_launch_monotonic_ns = None\<rparr>"

definition launch_owner :: owner where
  "launch_owner = \<lparr>own_owner_id = sample_boot_id, own_session_id = sample_boot_id, own_principal = ''usb'',
     own_expires_monotonic_ns = 60000000000, own_release_after_terminal = False\<rparr>"

definition held_service :: "world recorded service" where
  "held_service = (blank_service default_config (sample_world [], [], []))
     \<lparr>ready := True, boot_id := sample_boot_id, current_owner := Some launch_owner,
      current_job := Some launch_job, sv_state := Loaded,
      sessions := [\<lparr>sess_session_id = sample_boot_id, sess_principal = ''usb'', sess_last_seen_monotonic_ns = 0\<rparr>]\<rparr>"

definition armed_service :: "world recorded service" where
  "armed_service = held_service\<lparr>sv_state := Armed, current_arm := Some launch_arm\<rparr>"

lemma armed_service_launches:
  "launches (snd (run_state (poll (logged inhibited_environment)) armed_service)) = [Begun launch_job 5000000000]"
  by code_simp

theorem launch_authorised_witness:
  "launch_permitted default_config launch_arm 1000000000 sample_clock"
proof -
  obtain t where t: "run_state (poll (logged inhibited_environment)) armed_service = ((), t)"
    "launches t = [Begun launch_job 5000000000]"
    using armed_service_launches by (metis (full_types) old.unit.exhaust prod.collapse)
  have "launches armed_service = []" by (simp add: armed_service_def held_service_def blank_service_def)
  then show ?thesis
    using launch_authorised [OF t(1)] t(2)
    by (auto simp: armed_service_def held_service_def blank_service_def sample_world_def launch_job_def
        inhibited_environment_def)
qed

definition timed_environment :: "world environment" where
  "timed_environment = inhibited_environment
     \<lparr>env_schedules_locally := True, env_schedule := (\<lambda>j start conditions. Pair True)\<rparr>"

definition arm_request :: request where
  "arm_request = \<lparr>req_protocol = ''WTP/1'', req_session_id = sample_boot_id, req_request_id = sample_boot_id,
     req_principal = ''usb'', req_operation = ''ARM'', req_payload_digest = replicate 32 1,
     req_body = ArmBody \<lparr>arm_job_id = sample_boot_id, arm_start_utc_ns = 1010000000000,
       arm_max_start_uncertainty_ns = 1000000\<rparr>, req_body_valid = True\<rparr>"

definition timed_body :: arm_body where
  "timed_body = \<lparr>arm_job_id = sample_boot_id, arm_start_utc_ns = 1010000000000,
     arm_max_start_uncertainty_ns = 1000000\<rparr>"

lemma timed_body_id [simp]: "arm_job_id timed_body = sample_boot_id"
  by (simp add: timed_body_def)

lemma timed_arm_accepted: "validate_arm default_config 1 1000000000 timed_body sample_clock = Inr 15000000000"
  by code_simp

lemma held_service_schedules:
  "\<exists>c. launches (snd (run_state (handle_owned (logged timed_environment) arm_request True) held_service))
     = [Scheduled launch_job 15000000000 c]"
proof -
  have nonzero: "\<not> list_all (\<lambda>b. b = 0) (replicate 32 (1 :: u8))" by code_simp
  have lease: "\<not> own_expires_monotonic_ns launch_owner \<le> 5000000000" by (simp add: launch_owner_def)
  show ?thesis
    by (simp add: handle_owned_def run_defs admit_session_def answer_def replay_def dispatch_def dispatch_owned_def
        dispatch_arm_def arm_current_def held_service_def blank_service_def arm_request_def timed_body_def [symmetric]
        guarded_operations_def operations_def query_operations_def owner_body_matches_def owns_def launch_owner_def
        sample_world_def sample_clock_def timed_environment_def inhibited_environment_def maintenance_def
        launch_job_def aside_def recording_def showing_def see_session_def timed_arm_accepted [unfolded sample_clock_def]
        nonzero Let_def inhibited_output_active_def)
qed

lemma held_fields:
  "launches held_service = []" "seen held_service = []" "config held_service = default_config" "req_body arm_request = ArmBody timed_body"
  by (simp_all add: held_service_def blank_service_def arm_request_def timed_body_def)

theorem schedule_authorised_witness:
  "\<exists>now \<in> set (seen (snd (run_state (handle_owned (logged timed_environment) arm_request True) held_service))).
     safe_arm default_config 1000000000 timed_body now 15000000000"
proof -
  obtain rsp t where t: "run_state (handle_owned (logged timed_environment) arm_request True) held_service = (rsp, t)"
    by fastforce
  then obtain c where "launches t = [Scheduled launch_job 15000000000 c]"
    using held_service_schedules by auto
  moreover have "total_duration_ns launch_job = 1000000000" by (simp add: launch_job_def)
  ultimately show ?thesis
    using schedule_authorised [OF t] unfolding held_fields arg_cong [OF t, of snd, unfolded snd_conv]
    by fastforce
qed

end
