(* ===== verification/Job_Errors.thy ===== *)
theory Job_Errors
  imports Job_Launch
begin

text \<open>
  Refused requests (\<open>dispatch\<close> in \<open>src/wtp/job_service.cpp\<close>): every handler tests before it changes the
  service, so a request that is not accepted leaves no trace. \<open>refused\<close> is shown handler by handler.
\<close>

section \<open>Handlers\<close>

definition refused :: "'d service \<Rightarrow> response \<Rightarrow> 'd service \<Rightarrow> bool" where
  "refused s rsp t \<longleftrightarrow> rsp_ok rsp \<or> (\<exists>d. t = s\<lparr>sv_env := d\<rparr>) \<or>
     (sv_state t = Failed \<and> (rsp_error rsp = DeviceFault \<or> rsp_error rsp = OutputStateUnknown))"

lemma refused_ok [simp]: "rsp_ok rsp \<Longrightarrow> refused s rsp t"
  by (simp add: refused_def)

lemma refused_env [simp]: "refused s rsp (s\<lparr>sv_env := d\<rparr>)"
  by (auto simp: refused_def)

lemma refused_same [simp]: "refused s rsp s"
proof -
  have "refused s rsp (s\<lparr>sv_env := sv_env s\<rparr>)" by (rule refused_env)
  then show ?thesis by (simp del: refused_env)
qed

lemma ok_responses [simp]:
  "rsp_ok (retained_load_response b rt)" "rsp_ok (arm_response b i a)" "rsp_ok (lease_response rsp i l e) = rsp_ok rsp"
  by (simp_all add: retained_load_response_def arm_response_def lease_response_def)

lemma query_refused: "wp (dispatch_query E r now) (refused s) s"
  unfolding dispatch_query_def wp_eqs Let_def
  by (auto intro!: wp_rules simp: wp_eqs split: request_body.split)

lemma claim_refused: "wp (dispatch_claim E r now) (refused s) s"
  unfolding dispatch_claim_def by (auto simp: wp_eqs split: request_body.split intro!: wp_rules)

lemma renew_refused: "wp (dispatch_renew E r now) (refused s) s"
  unfolding dispatch_renew_def by (auto simp: wp_eqs split: request_body.split option.split intro!: wp_rules)

lemma release_refused: "wp (dispatch_release E r) (refused s) s"
  unfolding dispatch_release_def by (auto simp: wp_eqs intro!: wp_rules)

lemma load_response_refused: "wp (load_response E i) (\<lambda>rsp t. rsp_ok rsp) s"
  unfolding load_response_def by (auto simp: wp_eqs intro!: wp_rules)

lemma load_replay_refused: "wp (dispatch_load_replay E i digest) (refused s) s"
  unfolding dispatch_load_replay_def
  by (auto simp: wp_eqs split: option.split intro!: wp_rules wp_mono [OF load_response_refused])

lemma load_refused: "wp (dispatch_load E j) (refused s) s"
  unfolding dispatch_load_def
  by (auto simp: wp_eqs split: option.split intro!: wp_rules wp_mono [OF load_response_refused])

lemma failed_refused:
  "err = DeviceFault \<or> err = OutputStateUnknown \<Longrightarrow>
    refused s (rejection u err active) ((ended Failed err' now a b t)\<lparr>sv_env := d\<rparr>)"
  by (auto simp: refused_def ended_def rejection_def Let_def)

lemma arm_current_refused: "wp (arm_current E r body now) (refused s) s"
proof -
  have launch: "wp (if env_schedules_locally E then modify (release_execution_input E) else ret ()) (\<lambda>_. wp (ret (arm_response b i a)) (refused s)) t"
    for t b i a by (auto simp: wp_eqs)
  show ?thesis
    unfolding arm_current_def
    by (auto simp: wp_eqs Let_def failed_refused split: option.split sum.split intro!: wp_rules)
qed

lemma arm_refused: "wp (dispatch_arm E r body now) (refused s) s"
  unfolding dispatch_arm_def
  by (auto simp: wp_eqs arm_current_refused split: option.split intro!: wp_rules)

lemma abort_refused: "wp (abort_job E i) (refused s) s"
  unfolding abort_job_def
  by (auto simp: wp_eqs Let_def failed_refused split: option.split intro!: wp_rules)

lemma refused_prior: "refused (s\<lparr>sv_env := d\<rparr>) rsp t \<Longrightarrow> refused s rsp t"
  by (auto simp: refused_def)

lemma owned_refused: "wp (dispatch_owned E r now) (refused s) s"
  unfolding dispatch_owned_def
  by (auto simp: wp_eqs renew_refused release_refused load_replay_refused load_refused arm_refused abort_refused
      split: request_body.split intro!: wp_reject)

lemma dispatch_refused: "wp (dispatch E r) (refused s) s"
proof -
  have "wp (dispatch_query E r now) (refused s) (s\<lparr>sv_env := d\<rparr>)" "wp (dispatch_claim E r now) (refused s) (s\<lparr>sv_env := d\<rparr>)"
    "wp (dispatch_owned E r now) (refused s) (s\<lparr>sv_env := d\<rparr>)" for now d
    using query_refused claim_refused owned_refused by (blast intro: wp_mono refused_prior)+
  then show ?thesis
    unfolding dispatch_def by (auto simp: wp_eqs intro!: wp_rules)
qed

section \<open>Properties\<close>

text \<open>C7: a refused request is atomic. When \<open>dispatch\<close> answers with an error (unknown operation, wrong
  owner, bad state, invalid or conflicting job, rejected frequencies, unsafe arm, full memory), every member
  of the service is as before: job, arm, owner, history, public state. The one exception is an engine that
  did not accept its schedule or did not acknowledge its stop: then the answer is a device fault or unknown
  output, and the service is latched as failed.\<close>

theorem rejection_is_atomic:
  assumes "run_state (dispatch E r) s = (rsp, t)" "rsp_ok rsp = False"
  shows "(\<exists>d. t = s\<lparr>sv_env := d\<rparr>) \<or>
    (sv_state t = Failed \<and> (rsp_error rsp = DeviceFault \<or> rsp_error rsp = OutputStateUnknown))"
  using dispatch_refused [of E r s] assms by (auto simp: wp_def refused_def)

definition stray_arm :: request where
  "stray_arm = arm_request\<lparr>req_body := ArmBody (timed_body\<lparr>arm_job_id := replicate 32 CHR ''e''\<rparr>)\<rparr>"

lemma stray_arm_refused:
  "wp (dispatch (logged inhibited_environment) stray_arm) (\<lambda>rsp t. rsp_ok rsp = False \<and> sv_state t = Loaded) held_service"
proof -
  let ?other = "replicate 32 CHR ''e''"
  have ids: "valid_id ?other" "sample_boot_id \<noteq> ?other" by code_simp+
  have request: "req_operation stray_arm = ''ARM''" "req_body_valid stray_arm" "req_session_id stray_arm = sample_boot_id"
    "req_principal stray_arm = ''usb''" "req_body stray_arm = ArmBody (timed_body\<lparr>arm_job_id := ?other\<rparr>)"
    by (simp_all add: stray_arm_def arm_request_def)
  have held: "current_owner held_service = Some launch_owner" "retained_jobs held_service = []" "current_arm held_service = None"
    "current_job held_service = Some launch_job" "sv_state held_service = Loaded"
    by (simp_all add: held_service_def blank_service_def)
  show ?thesis
    unfolding dispatch_def dispatch_owned_def dispatch_arm_def arm_current_def
    by (auto simp: wp_eqs request held ids operations_def query_operations_def owns_def launch_owner_def launch_job_def
        intro!: wp_rules)
qed

theorem rejection_is_atomic_witness:
  "\<exists>d. snd (run_state (dispatch (logged inhibited_environment) stray_arm) held_service) = held_service\<lparr>sv_env := d\<rparr>"
  using rejection_is_atomic [OF prod.collapse [symmetric], of "logged inhibited_environment" stray_arm held_service]
    stray_arm_refused by (simp add: wp_run)

end
