(* ===== verification/Morse.thy ===== *)
theory Morse
  imports Job_Admission
begin

text \<open>
  The message compiler (\<open>src/encoding/morse.hpp\<close>): a text of at most 32 characters in one of the
  slow Morse modes becomes a job of RF events. \<open>measure_message\<close> checks the message and computes its
  length without storing anything; \<open>compile_message\<close> repeats the same walk and fills the paged event
  container. The nested lambda \<open>visit\<close>, written twice in the source, is the list \<open>visit_text\<close> of the
  emissions it makes; the callbacks are folds over that list. The main theorem composes this encoder
  with the admission of the job service: what the compiler produces, the service accepts.
\<close>

section \<open>Alphabet\<close>

definition max_message_characters :: nat where
  "max_message_characters = 32"

definition max_message_duration_ns :: u64 where
  "max_message_duration_ns = 3600000000000"

definition message_tail_ns :: u64 where
  "message_tail_ns = 1000"

definition morse_alphabet :: string where
  "morse_alphabet = ''ABCDEFGHIJKLMNOPQRSTUVWXYZ0123456789/?.,-+=''"

definition morse_codes :: "string list" where
  "morse_codes =
    [''.-'', ''-...'', ''-.-.'', ''-..'', ''.'', ''..-.'', ''--.'', ''....'', ''..'',
     ''.---'', ''-.-'', ''.-..'', ''--'', ''-.'', ''---'', ''.--.'', ''--.-'', ''.-.'',
     ''...'', ''-'', ''..-'', ''...-'', ''.--'', ''-..-'', ''-.--'', ''--..'', ''-----'',
     ''.----'', ''..---'', ''...--'', ''....-'', ''.....'', ''-....'', ''--...'', ''---..'', ''----.'',
     ''-..-.'', ''..--..'', ''.-.-.-'', ''--..--'', ''-....-'', ''.-.-.'', ''-...-'']"

definition message_space :: "char \<Rightarrow> bool" where
  "message_space c \<longleftrightarrow> c = CHR '' '' \<or> c = CHR 0x09 \<or> c = CHR 0x0A \<or> c = CHR 0x0D \<or>
     c = CHR 0x0C \<or> c = CHR 0x0B"

definition upper_char :: "char \<Rightarrow> char" where
  "upper_char c = (if char_between CHR ''a'' CHR ''z'' c then char_of ((of_char c :: nat) - 32) else c)"

definition morse_code :: "char \<Rightarrow> string" where
  "morse_code c =
     (let index = index_of (upper_char c) morse_alphabet in
      if index = length morse_alphabet then [] else morse_codes ! index)"

definition maximum_morse_elements :: nat where
  "maximum_morse_elements = fold (\<lambda>code n. max n (length code)) morse_codes 0"

definition worst_single_message_events :: nat where
  "worst_single_message_events = max_message_characters * maximum_morse_elements * 2"

section \<open>Messages\<close>

record morse_message =
  mm_job_id :: string
  mm_mode :: string
  mm_text :: string
  mm_mark_frequency_nhz :: u64
  mm_space_frequency_nhz :: u64
  mm_dot_ns :: u64
  mm_dash_ns :: u64
  mm_intra_gap_ns :: u64
  mm_character_gap_ns :: u64
  mm_word_gap_ns :: u64
  mm_repeat_count :: u32
  mm_repeat_gap_ns :: u64
  mm_allow_frequency_adjustment :: bool

record morse_result =
  mr_job :: "job option"
  mr_error :: string
  mr_calculated_duration_ns :: u64
  mr_calculated_events :: nat

definition blank_result :: morse_result where
  "blank_result = \<lparr>mr_job = None, mr_error = [], mr_calculated_duration_ns = 0, mr_calculated_events = 0\<rparr>"

definition alnum :: "char \<Rightarrow> bool" where
  "alnum c \<longleftrightarrow> char_between CHR ''A'' CHR ''Z'' c \<or> char_between CHR ''0'' CHR ''9'' c"

definition placeholder_at :: "string \<Rightarrow> nat \<Rightarrow> bool" where
  "placeholder_at text i \<longleftrightarrow> take 6 (drop i text) = ''N0CALL'' \<and>
     (i = 0 \<or> \<not> alnum (text ! (i - 1))) \<and> (i + 6 = length text \<or> \<not> alnum (text ! (i + 6)))"

definition has_placeholder :: "string \<Rightarrow> bool" where
  "has_placeholder text = list_ex (placeholder_at text) [0..<length text]"

definition legal_frequencies :: "morse_message \<Rightarrow> bool" where
  "legal_frequencies m \<longleftrightarrow>
     \<not> (mm_mark_frequency_nhz m = 0 \<or>
        (mm_mode m \<noteq> ''qrss'' \<and>
         (mm_space_frequency_nhz m = 0 \<or> mm_mark_frequency_nhz m = mm_space_frequency_nhz m \<or>
          (mm_mode m = ''fskcw'' \<and> mm_mark_frequency_nhz m < mm_space_frequency_nhz m))))"

definition legal_timing :: "morse_message \<Rightarrow> bool" where
  "legal_timing m \<longleftrightarrow>
     \<not> (mm_dot_ns m = 0 \<or> mm_dash_ns m = 0 \<or> mm_intra_gap_ns m = 0 \<or> mm_character_gap_ns m = 0 \<or>
        mm_word_gap_ns m = 0 \<or> mm_repeat_count m = 0 \<or> mm_repeat_count m > 512 \<or>
        (mm_repeat_count m > 1 \<and> mm_repeat_gap_ns m = 0))"

section \<open>The walk over the text\<close>

type_synonym emission = "u64 \<times> bool \<times> u64"

definition key_down :: "morse_message \<Rightarrow> char \<Rightarrow> emission" where
  "key_down m element =
     (if mm_mode m = ''dfcw'' \<or> element = CHR ''.'' then mm_dot_ns m else mm_dash_ns m, True,
      if mm_mode m = ''dfcw'' \<and> element = CHR ''-'' then mm_space_frequency_nhz m
      else mm_mark_frequency_nhz m)"

definition pause :: "morse_message \<Rightarrow> u64 \<Rightarrow> emission" where
  "pause m duration = (duration, mm_mode m = ''fskcw'', mm_space_frequency_nhz m)"

fun visit_code :: "morse_message \<Rightarrow> string \<Rightarrow> emission list" where
  "visit_code m [] = []"
| "visit_code m [e] = [key_down m e]"
| "visit_code m (e # es) = key_down m e # pause m (mm_intra_gap_ns m) # visit_code m es"

fun visit_text :: "morse_message \<Rightarrow> string \<Rightarrow> emission list" where
  "visit_text m [] = []"
| "visit_text m (c # cs) =
     (if message_space c then visit_text m cs
      else
        visit_code m (morse_code c) @
        (let rest = dropWhile message_space cs in
         if rest \<noteq> [] then
           [pause m (if length rest = length cs then mm_character_gap_ns m else mm_word_gap_ns m)]
         else []) @
        visit_text m cs)"

section \<open>Measuring\<close>

definition measure_emission :: "emission \<Rightarrow> bool \<times> u64 \<times> nat \<Rightarrow> bool \<times> u64 \<times> nat" where
  "measure_emission e acc =
     (case acc of (overflow, duration, count) \<Rightarrow>
        if fst e > u64_max - duration then (True, duration, count + 1)
        else (overflow, duration + fst e, count + 1))"

definition measure_pattern :: "morse_message \<Rightarrow> bool \<times> u64 \<times> nat" where
  "measure_pattern m = fold measure_emission (visit_text m (mm_text m)) (False, 0, 0)"

definition measure_message :: "morse_message \<Rightarrow> nat \<Rightarrow> u64 \<Rightarrow> morse_result" where
  "measure_message m event_limit duration_limit =
     (let fail = (\<lambda>reason. blank_result\<lparr>mr_error := reason\<rparr>);
          count = (ucast (mm_repeat_count m) :: u64) in
      if mm_text m = [] \<or> length (mm_text m) > max_message_characters then fail ''message_length_limit_32''
      else if has_placeholder (map upper_char (mm_text m)) then fail ''replace_placeholder_callsign''
      else if mm_mode m \<noteq> ''qrss'' \<and> mm_mode m \<noteq> ''fskcw'' \<and> mm_mode m \<noteq> ''dfcw''
      then fail ''unsupported_message_mode''
      else if \<not> legal_frequencies m then fail ''invalid_message_frequency''
      else if \<not> legal_timing m then fail ''invalid_message_timing_or_repetition''
      else if list_ex (\<lambda>c. \<not> message_space c \<and> morse_code c = []) (mm_text m)
      then fail ''unsupported_message_character''
      else case measure_pattern m of (overflow, pattern_duration, pattern_events) \<Rightarrow>
        if pattern_events = 0 then fail ''message_has_no_marks''
        else if overflow \<or> pattern_duration > u64_max div count \<or>
                (mm_repeat_count m > 1 \<and> mm_repeat_gap_ns m > u64_max div (count - 1))
        then fail ''message_duration_overflow''
        else
          let repeated = pattern_duration * count; gaps = mm_repeat_gap_ns m * (count - 1) in
          if gaps > u64_max - repeated \<or> message_tail_ns > u64_max - repeated - gaps
          then fail ''message_duration_overflow''
          else
            let result = blank_result\<lparr>mr_calculated_duration_ns := repeated + gaps + message_tail_ns,
                  mr_calculated_events := pattern_events * unat count + unat count\<rparr> in
            if mr_calculated_duration_ns result > min duration_limit max_message_duration_ns
            then result\<lparr>mr_error := ''message_duration_limit_exceeded''\<rparr>
            else if mr_calculated_events result > min event_limit 512
            then result\<lparr>mr_error := ''message_event_limit_exceeded''\<rparr>
            else result)"

section \<open>Compiling\<close>

text \<open>The emissions of the whole message, in the order of the calls of \<open>emit\<close>.\<close>

definition script :: "morse_message \<Rightarrow> emission list" where
  "script m =
     concat (map (\<lambda>repeat. visit_text m (mm_text m) @
         (if repeat + 1 < unat (mm_repeat_count m) then [(mm_repeat_gap_ns m, False, 0)] else []))
       [0..<unat (mm_repeat_count m)])
     @ [(message_tail_ns, False, 0)]"

definition emit_event :: "(nat \<Rightarrow> bool) \<Rightarrow> emission \<Rightarrow> bool \<times> u64 \<times> event_list \<Rightarrow> bool \<times> u64 \<times> event_list" where
  "emit_event grant e acc =
     (case (e, acc) of ((duration, on, frequency), (stored, offset, l)) \<Rightarrow>
        if stored then
          (case push_back grant \<lparr>offset_ns = offset, duration_ns = duration, rf_on = on,
               frequency_nhz = (if on then Some frequency else None)\<rparr> l of
             (ok, l) \<Rightarrow> (ok, offset + duration, l))
        else (False, offset + duration, l))"

definition message_job :: "morse_message \<Rightarrow> u64 \<Rightarrow> job" where
  "message_job m duration =
     \<lparr>job_id = mm_job_id m, profile = ''rf-events/1'', mode = mm_mode m, total_duration_ns = duration,
      events = no_events, allow_frequency_adjustment = mm_allow_frequency_adjustment m,
      message = Some \<lparr>message_text = mm_text m, message_frequency_nhz = mm_mark_frequency_nhz m,
        space_frequency_nhz = mm_space_frequency_nhz m, dot_ns = mm_dot_ns m,
        dash_ns = (if mm_mode m = ''dfcw'' then mm_dot_ns m else mm_dash_ns m),
        repeat_gap_ns = mm_repeat_gap_ns m, repeat_count = mm_repeat_count m\<rparr>\<rparr>"

definition compile_message :: "(nat \<Rightarrow> bool) \<Rightarrow> morse_message \<Rightarrow> nat \<Rightarrow> u64 \<Rightarrow> morse_result" where
  "compile_message grant m event_limit duration_limit =
     (let result = measure_message m event_limit duration_limit in
      if mr_error result \<noteq> [] then result
      else
        let j = message_job m (mr_calculated_duration_ns result) in
        case reserve_events grant (mr_calculated_events result) (events j) of (reserved, l) \<Rightarrow>
          if \<not> reserved then result\<lparr>mr_error := ''resource_exhausted''\<rparr>
          else
            case fold (emit_event grant) (script m) (True, 0, l) of (stored, offset, l) \<Rightarrow>
              if \<not> stored then result\<lparr>mr_error := ''resource_exhausted''\<rparr>
              else result\<lparr>mr_job := Some (j\<lparr>events := l\<rparr>)\<rparr>)"

section \<open>Measuring is exact\<close>

definition span :: "emission list \<Rightarrow> nat" where
  "span es = sum_list (map (unat \<circ> fst) es)"

lemma span_simps [simp]:
  "span [] = 0" "span (e # es) = unat (fst e) + span es" "span (es @ fs) = span es + span fs"
  by (simp_all add: span_def)

lemma measure_exact:
  "fold measure_emission es (f, d, n) = (False, d', n') \<Longrightarrow>
     \<not> f \<and> unat d' = unat d + span es \<and> n' = n + length es"
proof (induction es arbitrary: f d n)
  case (Cons e es)
  show ?case
  proof (cases "fst e > u64_max - d")
    case True
    then show ?thesis using Cons.IH [of True d "n + 1"] Cons.prems by (simp add: measure_emission_def)
  next
    case False
    then show ?thesis
      using Cons.IH [of f "d + fst e" "n + 1"] Cons.prems unat_guarded_plus [OF False]
      by (simp add: measure_emission_def)
  qed
qed auto

lemma unat_message_tail [simp]: "unat message_tail_ns = 1000"
  by (simp add: message_tail_ns_def)

lemma span_script:
  assumes "mm_repeat_count m > 0"
  shows "span (script m) = unat (mm_repeat_count m) * span (visit_text m (mm_text m)) +
      (unat (mm_repeat_count m) - 1) * unat (mm_repeat_gap_ns m) + 1000"
    and "length (script m) = unat (mm_repeat_count m) * length (visit_text m (mm_text m)) + unat (mm_repeat_count m)"
proof -
  let ?v = "visit_text m (mm_text m)" and ?gap = "(mm_repeat_gap_ns m, False, 0)"
  let ?body = "\<lambda>n k. concat (map (\<lambda>repeat. ?v @ (if repeat + 1 < n then [?gap] else [])) [0..<k])"
  have repeats: "span (?body n k) = k * (span ?v + unat (mm_repeat_gap_ns m)) \<and>
      length (?body n k) = k * (length ?v + 1)" if "k < n" for n k :: nat
    using that by (induction k) simp_all
  obtain k where k: "unat (mm_repeat_count m) = Suc k"
    using assms by (metis gr0_conv_Suc word_less_nat_alt unsigned_0)
  show "span (script m) = unat (mm_repeat_count m) * span (visit_text m (mm_text m)) +
      (unat (mm_repeat_count m) - 1) * unat (mm_repeat_gap_ns m) + 1000"
    "length (script m) = unat (mm_repeat_count m) * length (visit_text m (mm_text m)) + unat (mm_repeat_count m)"
    using repeats [of k "Suc k"] by (simp_all add: script_def k algebra_simps)
qed

section \<open>Every emission is a legal event\<close>

definition legal_emission :: "morse_message \<Rightarrow> emission \<Rightarrow> bool" where
  "legal_emission m e \<longleftrightarrow> fst e > 0 \<and>
     (fst (snd e) \<longrightarrow> snd (snd e) > 0 \<and>
        (snd (snd e) = mm_mark_frequency_nhz m \<or>
         mm_mode m \<noteq> ''qrss'' \<and> snd (snd e) = mm_space_frequency_nhz m))"

lemma legal_script:
  assumes "legal_frequencies m" "legal_timing m"
  shows "list_all (legal_emission m) (script m)"
proof -
  have down: "legal_emission m (key_down m e)" for e
    using assms by (auto simp: legal_emission_def key_down_def legal_frequencies_def legal_timing_def word_gt_0)
  have pause: "legal_emission m (pause m d)" if "d > 0" for d
    using assms that by (auto simp: legal_emission_def pause_def legal_frequencies_def word_gt_0)
  have gaps: "mm_intra_gap_ns m > 0" "mm_character_gap_ns m > 0" "mm_word_gap_ns m > 0"
    using assms(2) by (auto simp: legal_timing_def word_gt_0)
  have code: "list_all (legal_emission m) (visit_code m code)" for code
    by (induction code rule: induct_list012) (simp_all add: down pause gaps)
  have walk: "list_all (legal_emission m) (visit_text m cs)" for cs
    by (induction cs) (simp_all add: code pause gaps Let_def)
  have gap: "legal_emission m (mm_repeat_gap_ns m, False, 0)" if "r + 1 < unat (mm_repeat_count m)" for r
  proof -
    have "mm_repeat_count m > 1" using that by (simp add: word_less_nat_alt)
    then show ?thesis using assms(2) by (auto simp: legal_emission_def legal_timing_def word_gt_0)
  qed
  have "legal_emission m (message_tail_ns, False, 0)"
    by (simp add: legal_emission_def message_tail_ns_def)
  then show ?thesis using walk gap by (auto simp: script_def list_all_iff)
qed

section \<open>Storing loses nothing\<close>

fun timeline :: "u64 \<Rightarrow> emission list \<Rightarrow> rf_event list" where
  "timeline offset [] = []"
| "timeline offset ((duration, on, frequency) # es) =
     \<lparr>offset_ns = offset, duration_ns = duration, rf_on = on,
      frequency_nhz = (if on then Some frequency else None)\<rparr> # timeline (offset + duration) es"

lemma length_timeline [simp]: "length (timeline offset es) = length es"
  by (induction offset es rule: timeline.induct) auto

lemma covered_timeline [simp]: "covered (timeline offset es) = span es"
  by (induction offset es rule: timeline.induct) auto

lemma contiguous_timeline:
  "unat offset + span es < 2 ^ 64 \<Longrightarrow> contiguous (unat offset) (timeline offset es)"
proof (induction offset es rule: timeline.induct)
  case (2 offset duration on frequency es)
  then have "unat (offset + duration) = unat offset + unat duration" by (intro unat_u64_plus) simp
  then show ?case using 2 by (simp add: add.assoc)
qed simp

lemma emit_event_simps [simp]:
  "emit_event grant e (False, offset, l) = (False, offset + fst e, l)"
  "emit_event grant (duration, on, frequency) (True, offset, l) =
     (case push_back grant \<lparr>offset_ns = offset, duration_ns = duration, rf_on = on,
         frequency_nhz = (if on then Some frequency else None)\<rparr> l of
        (ok, l) \<Rightarrow> (ok, offset + duration, l))"
  by (simp_all add: emit_event_def split: prod.split)

lemma emit_events:
  assumes "events_ok l" "fold (emit_event grant) es (True, offset, l) = (True, last_offset, l')"
  shows "events_ok l' \<and> items l' = items l @ timeline offset es \<and> list_failure l' = list_failure l"
  using assms
proof (induction es arbitrary: offset l)
  case (Cons e es)
  obtain duration on frequency where e: "e = (duration, on, frequency)" by (cases e)
  let ?event = "\<lparr>offset_ns = offset, duration_ns = duration, rf_on = on,
      frequency_nhz = (if on then Some frequency else None)\<rparr>"
  obtain ok l2 where p: "push_back grant ?event l = (ok, l2)" by fastforce
  have lost: "fold (emit_event grant) xs (False, x, y) \<noteq> (True, last_offset, l')" for xs x y
    by (induction xs arbitrary: x y) simp_all
  then have ok: ok using Cons.prems(2) p e by (cases ok) simp_all
  then show ?case
    using Cons.IH [of l2 "offset + duration"] Cons.prems push_back_result [OF Cons.prems(1) p] p e
    by simp
qed simp

section \<open>What a compiled message is\<close>

lemma unat_repeats: "unat (ucast (mm_repeat_count m) :: u64) = unat (mm_repeat_count m)"
  using unsigned_less [of "mm_repeat_count m", where ?'a = nat]
  by (simp add: unsigned_ucast_eq take_bit_nat_eq_self)

lemma passed_check:
  "mr_error (if c then x\<lparr>mr_error := e # reason\<rparr> else y) = [] \<longleftrightarrow> \<not> c \<and> mr_error y = []"
  by simp

lemma measured:
  assumes "mr_error (measure_message m event_limit duration_limit) = []"
  defines "result \<equiv> measure_message m event_limit duration_limit"
  shows "legal_frequencies m" "legal_timing m" "mm_repeat_count m > 0"
    "unat (mr_calculated_duration_ns result) = span (script m)"
    "mr_calculated_events result = length (script m)"
    "mr_calculated_duration_ns result \<le> min duration_limit max_message_duration_ns"
    "length (script m) \<le> min event_limit 512"
proof -
  obtain overflow d n where p: "measure_pattern m = (overflow, d, n)" by (rule prod_cases3)
  define count repeated gaps where "count = (ucast (mm_repeat_count m) :: u64)"
    and "repeated = d * count" and "gaps = mm_repeat_gap_ns m * (count - 1)"
  note chain = assms(1) [unfolded measure_message_def Let_def p prod.case passed_check, folded count_def,
      folded repeated_def gaps_def]
  have checks: "legal_frequencies m \<and> legal_timing m \<and> n \<noteq> 0 \<and> \<not> overflow \<and> \<not> d > u64_max div count \<and>
      \<not> (mm_repeat_count m > 1 \<and> mm_repeat_gap_ns m > u64_max div (count - 1)) \<and>
      \<not> gaps > u64_max - repeated \<and> \<not> message_tail_ns > u64_max - repeated - gaps \<and>
      \<not> repeated + gaps + message_tail_ns > min duration_limit max_message_duration_ns \<and>
      \<not> n * unat count + unat count > min event_limit 512"
    using chain by auto
  show legal: "legal_frequencies m" "legal_timing m" using checks by auto
  then show pos: "mm_repeat_count m > 0" by (auto simp: legal_timing_def word_gt_0)
  have result: "result = blank_result\<lparr>mr_calculated_duration_ns := repeated + gaps + message_tail_ns,
      mr_calculated_events := n * unat count + unat count\<rparr>"
    using chain by (auto simp: result_def measure_message_def p Let_def count_def repeated_def gaps_def)
  have pattern: "unat d = span (visit_text m (mm_text m))" "n = length (visit_text m (mm_text m))"
    using measure_exact [of "visit_text m (mm_text m)" False 0 0 d n] p chain
    by (auto simp: measure_pattern_def)
  have c: "unat count = unat (mm_repeat_count m)" by (simp add: count_def unat_repeats)
  have "1 \<le> count" using pos c by (simp add: word_le_nat_alt word_less_nat_alt)
  then have one: "unat (count - 1) = unat count - 1" by (simp add: unat_u64_minus)
  have within: "unat x * unat k < 2 ^ 64" if "\<not> x > u64_max div k" for x k :: u64
  proof (cases "unat k = 0")
    case False
    then have "unat x \<le> 18446744073709551615 div unat k"
      using that by (simp add: word_nat unat_div not_less)
    then have "unat x * unat k \<le> 18446744073709551615" using False
      by (simp add: less_eq_div_iff_mult_less_eq)
    then show ?thesis by simp
  qed simp
  have repeated: "unat repeated = unat d * unat count"
    unfolding repeated_def using checks within [where x = d and k = count] by (intro unat_u64_times) simp
  have gaps: "unat gaps = unat (mm_repeat_gap_ns m) * (unat count - 1)"
  proof (cases "mm_repeat_count m > 1")
    case True
    then show ?thesis unfolding gaps_def one [symmetric]
      using checks True within [where x = "mm_repeat_gap_ns m" and k = "count - 1"]
      by (intro unat_u64_times) simp
  next
    case False
    then have "unat count = 1" using pos c by (simp add: word_less_nat_alt)
    then have "unat (count - 1) = 0" using one by simp
    then have "count - 1 = 0" by (simp only: unat_eq_zero)
    then show ?thesis using \<open>unat count = 1\<close> by (simp add: gaps_def)
  qed
  have "\<not> gaps > u64_max - repeated" "\<not> message_tail_ns > u64_max - repeated - gaps"
    using chain by auto
  then have "unat (repeated + gaps + message_tail_ns) = unat repeated + unat gaps + 1000"
    using unat_guarded_plus [of repeated gaps] unat_guarded_plus [of "repeated + gaps" message_tail_ns]
    by (simp add: algebra_simps)
  then show "unat (mr_calculated_duration_ns result) = span (script m)"
    using span_script(1) [OF pos] by (simp add: result repeated gaps pattern c algebra_simps)
  show events: "mr_calculated_events result = length (script m)"
    using span_script(2) [OF pos] by (simp add: result pattern c algebra_simps)
  show "mr_calculated_duration_ns result \<le> min duration_limit max_message_duration_ns"
    using checks by (simp add: result not_less)
  show "length (script m) \<le> min event_limit 512"
    using checks events by (simp add: result not_less)
qed

lemma measure_no_job: "mr_job (measure_message m event_limit duration_limit) = None"
  by (simp add: measure_message_def Let_def blank_result_def split: prod.split)

lemma compiled:
  assumes "mr_job (compile_message grant m event_limit duration_limit) = Some j"
  defines "result \<equiv> compile_message grant m event_limit duration_limit"
  shows "legal_frequencies m" "legal_timing m" "mr_error result = []"
    "items (events j) = timeline 0 (script m)" "list_failure (events j) = NoFailure"
    "mr_calculated_events result = length (script m)" "mr_calculated_duration_ns result = total_duration_ns j"
    "unat (total_duration_ns j) = span (script m)"
    "total_duration_ns j \<le> min duration_limit max_message_duration_ns"
    "length (script m) \<le> min event_limit 512"
    "job_id j = mm_job_id m" "profile j = ''rf-events/1''" "mode j = mm_mode m"
proof -
  let ?r = "measure_message m event_limit duration_limit"
  have ok: "mr_error ?r = []" using assms(1) measure_no_job by (auto simp: compile_message_def Let_def split: if_splits)
  note measured = measured [OF ok]
  let ?j = "message_job m (mr_calculated_duration_ns ?r)"
  obtain reserved l where r: "reserve_events grant (mr_calculated_events ?r) (events ?j) = (reserved, l)"
    by fastforce
  obtain stored final l' where f: "fold (emit_event grant) (script m) (True, 0, l) = (stored, final, l')"
    by (rule prod_cases3)
  have j: "reserved" "stored" "j = ?j\<lparr>events := l'\<rparr>"
    and result: "result = ?r\<lparr>mr_job := Some j\<rparr>"
    using assms(1) ok r f measure_no_job [of m event_limit duration_limit]
    by (auto simp: result_def compile_message_def Let_def split: if_splits)
  have "events_ok l" "items l = []" "list_failure l = NoFailure"
    using reserve_keeps [OF r] j(1) by (simp_all add: message_job_def) (simp add: no_events_def)
  then have "items l' = timeline 0 (script m)" "list_failure l' = NoFailure"
    using emit_events [of l grant "script m" 0 final l'] f j(2) by simp_all
  then show "legal_frequencies m" "legal_timing m" "mr_error result = []"
    "items (events j) = timeline 0 (script m)" "list_failure (events j) = NoFailure"
    "mr_calculated_events result = length (script m)" "mr_calculated_duration_ns result = total_duration_ns j"
    "unat (total_duration_ns j) = span (script m)"
    "total_duration_ns j \<le> min duration_limit max_message_duration_ns"
    "length (script m) \<le> min event_limit 512"
    "job_id j = mm_job_id m" "profile j = ''rf-events/1''" "mode j = mm_mode m"
    using measured ok by (simp_all add: result j(3) message_job_def)
qed

lemma legal_timeline:
  assumes "list_all (legal_emission m) es" "minimum_frequency_nhz cfg \<le> mm_mark_frequency_nhz m"
    "mm_mark_frequency_nhz m \<le> maximum_frequency_nhz cfg"
    "mm_mode m \<noteq> ''qrss'' \<longrightarrow> minimum_frequency_nhz cfg \<le> mm_space_frequency_nhz m \<and>
       mm_space_frequency_nhz m \<le> maximum_frequency_nhz cfg"
  shows "list_all (legal_event cfg) (timeline offset es)"
  using assms
  by (induction offset es rule: timeline.induct) (auto simp: legal_emission_def legal_event_def)

section \<open>Properties\<close>

text \<open>C11: the compiler says exactly what it stores. When a message is compiled, the stored events are
  the emissions of the walk over the text, repeated as requested, one directly after the other from
  offset zero; the announced number of events is their number, and the announced duration, which is
  the declared duration of the job, is exactly the sum of theirs, computed without wrap-around. So
  the two copies of the walk in the source agree, and no event is dropped when storage succeeds.\<close>

theorem compile_message_exact:
  assumes "mr_job (compile_message grant m event_limit duration_limit) = Some j"
  shows "items (events j) = timeline 0 (script m) \<and>
    mr_calculated_events (compile_message grant m event_limit duration_limit) = length (items (events j)) \<and>
    mr_calculated_duration_ns (compile_message grant m event_limit duration_limit) = total_duration_ns j \<and>
    unat (total_duration_ns j) = covered (items (events j))"
  using compiled [OF assms] by (simp del: length_items)

text \<open>C10: what the message compiler produces, the transmitter accepts. A compiled message passes the
  admission of the job service, on every configuration that offers the mode, admits the mark (and,
  outside \<open>qrss\<close>, the space) frequency and has limits at least those given to the compiler.\<close>

theorem compile_message_admitted:
  assumes "mr_job (compile_message grant m event_limit duration_limit) = Some j"
    and "valid_id (mm_job_id m)" "mm_mode m \<in> set (supported_modes cfg)"
    and "event_limit \<le> max_events cfg" "duration_limit \<le> max_job_duration_ns cfg"
    and "minimum_frequency_nhz cfg \<le> mm_mark_frequency_nhz m" "mm_mark_frequency_nhz m \<le> maximum_frequency_nhz cfg"
    and "mm_mode m \<noteq> ''qrss'' \<longrightarrow> minimum_frequency_nhz cfg \<le> mm_space_frequency_nhz m \<and>
       mm_space_frequency_nhz m \<le> maximum_frequency_nhz cfg"
  shows "validate_job cfg j = NoError"
proof -
  note c = compiled [OF assms(1)]
  have "script m \<noteq> []" by (simp add: script_def)
  then have "timeline 0 (script m) \<noteq> []" by (metis length_timeline length_0_conv)
  moreover have "span (script m) < 2 ^ 64" using unat_u64_less [of "total_duration_ns j"] c(8) by simp
  then have "contiguous 0 (timeline 0 (script m))" using contiguous_timeline [of 0 "script m"] by simp
  moreover have "list_all (legal_event cfg) (timeline 0 (script m))"
    using legal_timeline legal_script c(1,2) assms(6-8) by blast
  moreover have "total_duration_ns j \<le> max_job_duration_ns cfg"
    using c(9) assms(5) by (meson min.boundedE order_trans)
  ultimately show ?thesis
    using assms(2-4) c by (simp add: validate_job_iff transmittable_def del: length_items)
qed

definition sample_message :: morse_message where
  "sample_message = \<lparr>mm_job_id = replicate 32 CHR ''a'', mm_mode = ''dfcw'', mm_text = ''E T'',
     mm_mark_frequency_nhz = 7000000000000000, mm_space_frequency_nhz = 7000005000000000,
     mm_dot_ns = 3000000000, mm_dash_ns = 9000000000, mm_intra_gap_ns = 1000000000,
     mm_character_gap_ns = 3000000000, mm_word_gap_ns = 7000000000, mm_repeat_count = 2,
     mm_repeat_gap_ns = 10000000000, mm_allow_frequency_adjustment = False\<rparr>"

lemma sample_message_compiles:
  "case mr_job (compile_message (\<lambda>p. True) sample_message 512 3600000000000) of
     None \<Rightarrow> False | Some j \<Rightarrow> items (events j) = timeline 0 (script sample_message)"
  by code_simp

theorem compile_message_exact_witness:
  "unat (total_duration_ns (the (mr_job (compile_message (\<lambda>p. True) sample_message 512 3600000000000))))
     = covered (timeline 0 (script sample_message))"
proof -
  obtain j where j: "mr_job (compile_message (\<lambda>p. True) sample_message 512 3600000000000) = Some j"
    using sample_message_compiles by (auto split: option.splits)
  show ?thesis using compile_message_exact [OF j] j by simp
qed

theorem compile_message_admitted_witness:
  "validate_job default_config (the (mr_job (compile_message (\<lambda>p. True) sample_message 512 3600000000000)))
     = NoError"
proof -
  obtain j where j: "mr_job (compile_message (\<lambda>p. True) sample_message 512 3600000000000) = Some j"
    using sample_message_compiles by (auto split: option.splits)
  have "validate_job default_config j = NoError"
    by (rule compile_message_admitted [OF j])
       (simp_all add: sample_message_def default_config_def valid_id_def char_between_def list_all_iff)
  then show ?thesis using j by simp
qed

end
