(* ===== verification/Gatt_Framing.thy ===== *)
theory Gatt_Framing
  imports Prelude
begin

text \<open>
  The framing of provisioning messages over Bluetooth attributes
  (\<open>src/provisioning/gatt_framing.hpp\<close>, \<open>gatt_framing.cpp\<close>): a message of at most 960 bytes is cut
  into frames of at most 64 bytes with a four-byte header (version, first/last flags, sequence
  number, length), and \<open>GattFrameReceiver\<close> puts it together again, resetting on anything out of
  place. Overwriting the bytes before they are released has no effect in the model.
\<close>

section \<open>Frames and the receiver\<close>

definition gatt_frame_bytes :: nat where
  "gatt_frame_bytes = 64"

definition gatt_frame_header_bytes :: nat where
  "gatt_frame_header_bytes = 4"

definition gatt_frame_payload_bytes :: nat where
  "gatt_frame_payload_bytes = gatt_frame_bytes - gatt_frame_header_bytes"

definition gatt_frame_count :: nat where
  "gatt_frame_count = 16"

datatype frame_result = Pending | FrameComplete | FrameInvalid | Oversize | OutOfOrder

record gatt_receiver =
  maximum_bytes :: nat
  message_bytes :: bytes
  next_sequence :: u8
  receiving :: bool

definition new_receiver :: "nat \<Rightarrow> gatt_receiver" where
  "new_receiver maximum = \<lparr>maximum_bytes = maximum, message_bytes = [], next_sequence = 0, receiving = False\<rparr>"

definition reset_receiver :: "gatt_receiver \<Rightarrow> gatt_receiver" where
  "reset_receiver r = r\<lparr>message_bytes := [], next_sequence := 0, receiving := False\<rparr>"

definition receive :: "bytes \<Rightarrow> gatt_receiver \<Rightarrow> frame_result \<times> gatt_receiver" where
  "receive frame r =
     (if length frame < gatt_frame_header_bytes \<or> length frame > gatt_frame_bytes \<or> frame ! 0 \<noteq> 1 \<or>
         frame ! 1 AND NOT 3 \<noteq> 0 \<or> unat (frame ! 3) \<noteq> length frame - gatt_frame_header_bytes
      then (FrameInvalid, reset_receiver r)
      else
        let first = (frame ! 1 AND 1 \<noteq> 0); final = (frame ! 1 AND 2 \<noteq> 0); sequence = frame ! 2 in
        if (first \<and> (receiving r \<or> sequence \<noteq> 0)) \<or> (\<not> first \<and> \<not> receiving r) \<or>
           sequence \<noteq> next_sequence r \<or> unat sequence \<ge> gatt_frame_count
        then (OutOfOrder, reset_receiver r)
        else
          let r = (if first then r\<lparr>message_bytes := [], receiving := True\<rparr> else r);
              payload = drop gatt_frame_header_bytes frame in
          if payload = [] \<or>
             length payload > maximum_bytes r - min (maximum_bytes r) (length (message_bytes r))
          then (Oversize, reset_receiver r)
          else
            let r = r\<lparr>message_bytes := message_bytes r @ payload, next_sequence := next_sequence r + 1\<rparr> in
            if \<not> final then (Pending, r)
            else (FrameComplete, r\<lparr>receiving := False, next_sequence := 0\<rparr>))"

definition gatt_frame :: "bytes \<Rightarrow> nat \<Rightarrow> nat \<Rightarrow> bytes" where
  "gatt_frame message offset sequence =
     (let count = min gatt_frame_payload_bytes (length message - offset) in
      [1, (if offset = 0 then 1 else 0) OR (if offset + count = length message then 2 else 0),
       of_nat sequence, of_nat count] @ take count (drop offset message))"

function frames_from :: "bytes \<Rightarrow> nat \<Rightarrow> nat \<Rightarrow> bytes list" where
  "frames_from message offset sequence =
     (if offset < length message then
        gatt_frame message offset sequence #
        frames_from message (offset + min gatt_frame_payload_bytes (length message - offset)) (sequence + 1)
      else [])"
  by pat_completeness auto
termination
  by (relation "measure (\<lambda>(message, offset, _). length message - offset)")
     (auto simp: gatt_frame_payload_bytes_def gatt_frame_bytes_def gatt_frame_header_bytes_def)

declare frames_from.simps [simp del]

definition gatt_frames :: "bytes \<Rightarrow> bytes list" where
  "gatt_frames message =
     (if message = [] \<or> length message > gatt_frame_payload_bytes * gatt_frame_count then []
      else frames_from message 0 0)"

text \<open>A client that hands the received frames over one by one.\<close>

fun receive_all :: "bytes list \<Rightarrow> gatt_receiver \<Rightarrow> frame_result list \<times> gatt_receiver" where
  "receive_all [] r = ([], r)"
| "receive_all (f # fs) r =
     (case receive f r of (result, r) \<Rightarrow> case receive_all fs r of (results, r) \<Rightarrow> (result # results, r))"

section \<open>Receiving what was sent\<close>

lemmas gatt_sizes = gatt_frame_payload_bytes_def gatt_frame_bytes_def gatt_frame_header_bytes_def
  gatt_frame_count_def

lemma gatt_frame_fields:
  assumes "offset < length message" "sequence < 16"
  defines "count \<equiv> min 60 (length message - offset)"
  shows "length (gatt_frame message offset sequence) = 4 + count" "gatt_frame message offset sequence ! 0 = 1"
    "gatt_frame message offset sequence ! 1
       = (if offset = 0 then 1 else 0) OR (if offset + count = length message then 2 else 0)"
    "gatt_frame message offset sequence ! 2 = of_nat sequence"
    "unat (gatt_frame message offset sequence ! 3) = count"
    "drop 4 (gatt_frame message offset sequence) = take count (drop offset message)"
  using assms by (simp_all add: gatt_frame_def gatt_sizes Let_def unat_of_nat)

lemma flag_bits:
  "((if a then 1 else 0) OR (if b then 2 else 0) :: u8) AND NOT 3 = 0"
  "((if a then 1 else 0) OR (if b then 2 else 0) :: u8) AND 1 = (if a then 1 else 0)"
  "((if a then 1 else 0) OR (if b then 2 else 0) :: u8) AND 2 = (if b then 2 else 0)"
  by (cases a; cases b; simp)+

lemma receive_gatt_frame:
  assumes r: "receiving r \<longleftrightarrow> offset > 0" "next_sequence r = of_nat sequence"
      "offset > 0 \<Longrightarrow> message_bytes r = take offset message" "length message \<le> maximum_bytes r"
    and pos: "offset < length message" "sequence < 16" "offset = 0 \<Longrightarrow> sequence = 0"
  defines "reach \<equiv> offset + min 60 (length message - offset)"
  shows "receive (gatt_frame message offset sequence) r =
    (if reach = length message then (FrameComplete, r\<lparr>message_bytes := message, receiving := False, next_sequence := 0\<rparr>)
     else (Pending, r\<lparr>message_bytes := take reach message, receiving := True, next_sequence := of_nat (sequence + 1)\<rparr>))"
proof -
  note fields = gatt_frame_fields [OF pos(1,2)]
  let ?c = "min 60 (length message - offset)" and ?F = "gatt_frame message offset sequence"
  have c: "0 < ?c" "?c \<le> 60" using pos by auto
  have s: "unat (of_nat sequence :: u8) = sequence" using pos(2) by (simp add: unat_of_nat)
  have payload: "take ?c (drop offset message) \<noteq> []" "length (take ?c (drop offset message)) = ?c"
    using pos(1) by auto
  have join: "take offset message @ take ?c (drop offset message) = take reach message"
    by (simp add: reach_def take_add)
  have whole: "take reach message = message" if "reach = length message" using that by simp
  show ?thesis
  proof (cases "offset = 0")
    case True
    then have "sequence = 0" using pos(3) by simp
    then show ?thesis
      using True r pos c fields s payload join whole
      by (simp add: receive_def gatt_sizes Let_def flag_bits reach_def)
  next
    case False
    have on: "r\<lparr>message_bytes := x, next_sequence := y\<rparr>
        = r\<lparr>message_bytes := x, receiving := True, next_sequence := y\<rparr>" for x y
      using False r(1) by (cases r) simp
    obtain k where k: "?c = k" "0 < k" "k \<le> length message - offset" "k \<le> 60" using c by auto
    have "\<not> maximum_bytes r - offset < k" "\<not> maximum_bytes r - offset < length message - offset"
      using k(3) r(4) pos(1) by linarith+
    then show ?thesis
      using False r pos k(2,4) fields [unfolded k(1)] s payload [unfolded k(1)] join [unfolded k(1)] whole on
      unfolding reach_def k(1)
      by (simp add: receive_def gatt_sizes Let_def flag_bits add.commute)
  qed
qed

lemma receive_frames_from:
  assumes "receiving r \<longleftrightarrow> offset > 0" "next_sequence r = of_nat sequence"
      "offset > 0 \<Longrightarrow> message_bytes r = take offset message" "length message \<le> maximum_bytes r"
    and "offset < length message" "offset = 60 * sequence" "length message \<le> 960"
  shows "\<exists>n. receive_all (frames_from message offset sequence) r =
    (replicate n Pending @ [FrameComplete], r\<lparr>message_bytes := message, receiving := False, next_sequence := 0\<rparr>)"
  using assms
proof (induction message offset sequence arbitrary: r rule: frames_from.induct)
  case (1 message offset sequence)
  let ?reach = "offset + min 60 (length message - offset)"
  let ?r = "r\<lparr>message_bytes := take ?reach message, receiving := True, next_sequence := of_nat (sequence + 1)\<rparr>"
  have seq: "sequence < 16" "offset = 0 \<Longrightarrow> sequence = 0" using "1.prems" by auto
  note step = receive_gatt_frame [OF "1.prems"(1-5) seq]
  have unfold: "frames_from message offset sequence = gatt_frame message offset sequence # frames_from message ?reach (sequence + 1)"
    using "1.prems"(5) by (subst frames_from.simps) (simp add: gatt_sizes)
  show ?case
  proof (cases "?reach = length message")
    case True
    then have "frames_from message ?reach (sequence + 1) = []" by (subst frames_from.simps) simp
    then have "receive_all (frames_from message offset sequence) r =
        (replicate 0 Pending @ [FrameComplete], r\<lparr>message_bytes := message, receiving := False, next_sequence := 0\<rparr>)"
      using step True by (simp add: unfold)
    then show ?thesis by blast
  next
    case False
    then have reach: "?reach = offset + 60" "?reach < length message" using "1.prems"(5) by auto
    have "\<exists>n. receive_all (frames_from message ?reach (sequence + 1)) ?r =
        (replicate n Pending @ [FrameComplete], ?r\<lparr>message_bytes := message, receiving := False, next_sequence := 0\<rparr>)"
      using "1.IH" [of ?r] "1.prems" reach by (simp add: gatt_sizes)
    then obtain n where "receive_all (frames_from message offset sequence) r =
        (replicate (Suc n) Pending @ [FrameComplete], r\<lparr>message_bytes := message, receiving := False, next_sequence := 0\<rparr>)"
      using step False by (auto simp: unfold)
    then show ?thesis by blast
  qed
qed

section \<open>A bounded receiver\<close>

definition receiver_ok :: "gatt_receiver \<Rightarrow> bool" where
  "receiver_ok r \<longleftrightarrow> length (message_bytes r) \<le> maximum_bytes r \<and> unat (next_sequence r) \<le> 16 \<and>
     (\<not> receiving r \<longrightarrow> next_sequence r = 0)"

lemma receive_ok:
  assumes "receiver_ok r" "receive frame r = (result, r')"
  shows "receiver_ok r' \<and> maximum_bytes r' = maximum_bytes r \<and>
    (result \<notin> {Pending, FrameComplete} \<longrightarrow> r' = reset_receiver r) \<and> (receiving r' \<longleftrightarrow> result = Pending)"
proof -
  have step: "unat (s + 1) \<le> 16" if "\<not> 16 \<le> unat s" for s :: u8
    using that by (simp add: unat_word_ariths)
  show ?thesis using assms step
    by (auto simp: receive_def receiver_ok_def reset_receiver_def Let_def gatt_sizes split: if_splits)
qed

section \<open>Properties\<close>

text \<open>A provisioning message survives the framing. A non-empty message of at most 960 bytes that
  the receiver has room for, cut into frames and received in order by a receiver that is between
  messages, is complete exactly with the last frame, and the bytes received are the message.\<close>

theorem gatt_roundtrip:
  assumes "message \<noteq> []" "length message \<le> 960" "length message \<le> maximum_bytes r"
    "\<not> receiving r" "next_sequence r = 0"
  shows "\<exists>n r'. receive_all (gatt_frames message) r = (replicate n Pending @ [FrameComplete], r') \<and>
    message_bytes r' = message \<and> \<not> receiving r' \<and> next_sequence r' = 0"
  using receive_frames_from [of r 0 0 message] assms by (fastforce simp: gatt_frames_def gatt_sizes)

text \<open>Whatever frames arrive, the receiver stays within its bounds: never more bytes than its
  maximum, never a sequence number above sixteen; a frame that is refused leaves no bytes of the
  message behind, and only an accepted frame that is not the last leaves it inside a message.\<close>

theorem gatt_receiver_bounded:
  assumes "receiver_ok r"
  shows "receiver_ok (snd (receive frame r)) \<and>
    (fst (receive frame r) \<in> {FrameInvalid, Oversize, OutOfOrder} \<longrightarrow> message_bytes (snd (receive frame r)) = []) \<and>
    (receiving (snd (receive frame r)) \<longleftrightarrow> fst (receive frame r) = Pending)"
proof -
  obtain result r' where r: "receive frame r = (result, r')" by fastforce
  show ?thesis using receive_ok [OF assms r] r by (cases result) (auto simp: reset_receiver_def)
qed

theorem gatt_roundtrip_witness:
  "\<exists>n r'. receive_all (gatt_frames (replicate 70 7)) (new_receiver 100) = (replicate n Pending @ [FrameComplete], r') \<and>
    message_bytes r' = replicate 70 7 \<and> \<not> receiving r' \<and> next_sequence r' = 0"
  by (rule gatt_roundtrip) (simp_all add: new_receiver_def)

theorem gatt_receiver_bounded_witness:
  "receiver_ok (snd (receive [1, 1, 0, 2, 5, 6] (new_receiver 100)))"
  using gatt_receiver_bounded [of "new_receiver 100"] by (simp add: receiver_ok_def new_receiver_def)

end
