(* ===== verification/Calibration.thy ===== *)
theory Calibration
  imports Prelude
begin

text \<open>
  The oscillator calibration as text (\<open>src/rf/calibration.hpp\<close>, \<open>calibration.cpp\<close>): a correction of
  at most 100 parts per million is entered and shown with up to three decimals, kept as an integer
  number of parts per billion. The \<open>std::int32_t\<close> values stay far within their range (three digits
  before and after the point at most), so they are integers here. \<open>std::to_string\<close> is \<open>decimal\<close>.
\<close>

definition digit_char :: "nat \<Rightarrow> char" where
  "digit_char d = char_of (48 + d)"

fun decimal :: "nat \<Rightarrow> string" where
  "decimal n = (if n < 10 then [digit_char n] else decimal (n div 10) @ [digit_char (n mod 10)])"

declare decimal.simps [simp del]

definition is_digit :: "char \<Rightarrow> bool" where
  "is_digit c \<longleftrightarrow> \<not> ((of_char c :: nat) < 48 \<or> (of_char c :: nat) > 57)"

definition correction_limit_ppb :: int where
  "correction_limit_ppb = 100000"

record ppm_reader =
  whole :: nat
  fraction :: nat
  digits :: nat
  decimals :: nat
  point :: bool

definition ppm_start :: ppm_reader where
  "ppm_start = \<lparr>whole = 0, fraction = 0, digits = 0, decimals = 0, point = False\<rparr>"

definition read_char :: "char \<Rightarrow> ppm_reader \<Rightarrow> ppm_reader option" where
  "read_char c p =
     (if c = CHR ''.'' \<and> \<not> point p \<and> digits p \<noteq> 0 then Some (p\<lparr>point := True\<rparr>)
      else if \<not> is_digit c then None
      else if point p then
        (if decimals p + 1 > 3 then None
         else Some (p\<lparr>decimals := decimals p + 1, fraction := fraction p * 10 + of_char c - 48\<rparr>))
      else
        (if digits p + 1 > 3 then None
         else Some (p\<lparr>digits := digits p + 1, whole := whole p * 10 + of_char c - 48\<rparr>)))"

fun read_chars :: "string \<Rightarrow> ppm_reader \<Rightarrow> ppm_reader option" where
  "read_chars [] p = Some p"
| "read_chars (c # cs) p = (case read_char c p of None \<Rightarrow> None | Some p \<Rightarrow> read_chars cs p)"

definition parse_ppm :: "string \<Rightarrow> int option" where
  "parse_ppm text =
     (if text = [] \<or> length text > 8 then None
      else
        let negative = (hd text = CHR ''-'');
            text = (if negative \<or> hd text = CHR ''+'' then tl text else text) in
        if text = [] then None
        else case read_chars text ppm_start of None \<Rightarrow> None
        | Some p \<Rightarrow>
            if digits p = 0 \<or> (point p \<and> decimals p = 0) then None
            else
              let ppb = int (whole p * 1000 + fraction p * 10 ^ (3 - decimals p)) in
              if ppb > correction_limit_ppb then None
              else Some (if negative then - ppb else ppb))"

definition format_ppm :: "int \<Rightarrow> string" where
  "format_ppm ppb =
     (let n = nat \<bar>ppb\<bar>; fraction = tl (decimal (n mod 1000 + 1000)) in
      (if ppb < 0 then ''-'' else []) @ decimal (n div 1000) @ ''.'' @ fraction)"

section \<open>Digits\<close>

lemma digit_char_simps [simp]:
  assumes "d < 10"
  shows "is_digit (digit_char d)" "of_char (digit_char d) = 48 + d" "digit_char d \<noteq> CHR ''.''"
    "digit_char d \<noteq> CHR ''-''" "digit_char d \<noteq> CHR ''+''"
proof -
  show of: "of_char (digit_char d) = 48 + d" using assms by (simp add: digit_char_def)
  then show "is_digit (digit_char d)" using assms by (simp add: is_digit_def)
  have "of_char (digit_char d) \<noteq> (of_char c :: nat) \<Longrightarrow> digit_char d \<noteq> c" for c by metis
  then show "digit_char d \<noteq> CHR ''.''" "digit_char d \<noteq> CHR ''-''" "digit_char d \<noteq> CHR ''+''"
    by (simp_all add: of)
qed

lemma decimal_small: "n < 10 \<Longrightarrow> decimal n = [digit_char n]"
  by (simp add: decimal.simps [of n])

lemma decimal_large: "10 \<le> n \<Longrightarrow> decimal n = decimal (n div 10) @ [digit_char (n mod 10)]"
  by (simp add: decimal.simps [of n])

lemma decimal_three:
  assumes "n < 1000"
  shows "decimal n = (if n < 10 then [] else (if n < 100 then [] else [digit_char (n div 100)]) @
      [digit_char (n div 10 mod 10)]) @ [digit_char (n mod 10)]"
proof -
  consider "n < 10" | "10 \<le> n" "n < 100" | "100 \<le> n" by linarith
  then show ?thesis
  proof cases
    case 2
    then have "n div 10 < 10" by (simp add: less_mult_imp_div_less)
    then show ?thesis using 2 by (simp add: decimal_large [of n] decimal_small)
  next
    case 3
    have "n div 10 div 10 = n div 100" by (simp add: div_mult2_eq [symmetric])
    moreover have "n div 100 < 10" using assms by (simp add: less_mult_imp_div_less)
    moreover have "10 \<le> n div 10" using 3 by (simp add: less_eq_div_iff_mult_less_eq)
    ultimately show ?thesis using 3 by (simp add: decimal_large [of n] decimal_large [of "n div 10"] decimal_small)
  qed (simp add: decimal_small)
qed

lemma decimal_padded:
  assumes "n < 1000"
  shows "tl (decimal (n + 1000)) = [digit_char (n div 100), digit_char (n div 10 mod 10), digit_char (n mod 10)]"
proof -
  have shift: "(m + 10 * k) div 10 = m div 10 + k" "(m + 10 * k) mod 10 = m mod 10" for m k :: nat
    by simp_all
  have h: "n div 10 div 10 = n div 100" "n div 100 < 10"
    using assms by (simp_all add: div_mult2_eq [symmetric] less_mult_imp_div_less)
  have one: "(x + 10) div 10 = 1" "(x + 10) mod 10 = x" if "x < 10" for x :: nat
    using that by simp_all
  have d: "(n + 1000) div 10 = n div 10 + 100" "(n + 1000) mod 10 = n mod 10"
    using shift [of n 100] by simp_all
  have d': "(n div 10 + 100) div 10 = n div 100 + 10" "(n div 10 + 100) mod 10 = n div 10 mod 10"
    using shift [of "n div 10" 10] unfolding h(1) by simp_all
  note d = d d' one [OF h(2)]
  show ?thesis
    by (simp add: decimal_large [of "n + 1000"] decimal_large [of "n div 10 + 100"]
        decimal_large [of "n div 100 + 10"] d decimal_small mod_less [OF h(2)])
qed

section \<open>Reading\<close>

lemma read_digit [simp]:
  assumes "d < 10"
  shows "read_char (digit_char d) p =
    (if point p then
       (if decimals p < 3 then Some (p\<lparr>decimals := decimals p + 1, fraction := fraction p * 10 + d\<rparr>) else None)
     else if digits p < 3 then Some (p\<lparr>digits := digits p + 1, whole := whole p * 10 + d\<rparr>) else None)"
  using assms by (simp add: read_char_def)

lemma read_chars_append:
  "read_chars (xs @ ys) p = (case read_chars xs p of None \<Rightarrow> None | Some p \<Rightarrow> read_chars ys p)"
  by (induction xs p rule: read_chars.induct) (simp_all split: option.split)

lemma read_whole:
  assumes "n < 1000"
  shows "\<exists>k. read_chars (decimal n) ppm_start = Some (ppm_start\<lparr>whole := n, digits := k\<rparr>) \<and> 0 < k"
proof -
  have "n div 100 < 10" using assms by (simp add: less_mult_imp_div_less)
  moreover have "n div 100 * 10 + n div 10 mod 10 = n div 10"
    using div_mult_mod_eq [of "n div 10" 10] by (simp add: div_mult2_eq [symmetric])
  moreover have "n div 10 * 10 + n mod 10 = n" by (rule div_mult_mod_eq)
  ultimately show ?thesis
    using assms by (simp add: decimal_three ppm_start_def)
qed

lemma read_fraction:
  assumes "n < 1000" "decimals p = 0" "fraction p = 0" "point p"
  shows "read_chars (tl (decimal (n + 1000))) p = Some (p\<lparr>decimals := 3, fraction := n\<rparr>)"
proof -
  have "n div 100 < 10" using assms by (simp add: less_mult_imp_div_less)
  moreover have "n div 100 * 10 + n div 10 mod 10 = n div 10"
    using div_mult_mod_eq [of "n div 10" 10] by (simp add: div_mult2_eq [symmetric])
  moreover have "n div 10 * 10 + n mod 10 = n" by (rule div_mult_mod_eq)
  ultimately show ?thesis
    using assms by (simp add: decimal_padded)
qed

lemma format_shape:
  assumes "\<bar>ppb\<bar> \<le> 100000"
  shows "\<exists>c cs. decimal (nat \<bar>ppb\<bar> div 1000) = c # cs \<and> c \<noteq> CHR ''-'' \<and> c \<noteq> CHR ''+'' \<and> length cs \<le> 2"
proof -
  define n where "n = nat \<bar>ppb\<bar> div 1000"
  have n: "n < 1000" using assms by (simp add: n_def less_mult_imp_div_less)
  then have "n div 100 < 10" by (simp add: less_mult_imp_div_less)
  then show ?thesis using decimal_three [OF n] by (simp flip: n_def)
qed

text \<open>No text is read as a correction outside the legal range.\<close>

lemma parse_ppm_bounded:
  assumes "parse_ppm text = Some ppb"
  shows "\<bar>ppb\<bar> \<le> correction_limit_ppb"
  using assms
  by (auto simp: parse_ppm_def Let_def simp del: of_nat_add of_nat_mult split: if_splits option.splits)

section \<open>Properties\<close>

text \<open>A correction survives being shown and entered again: reading the text of any legal
  correction gives the same number of parts per billion, sign included.\<close>

theorem ppm_roundtrip:
  assumes "\<bar>ppb\<bar> \<le> correction_limit_ppb"
  shows "parse_ppm (format_ppm ppb) = Some ppb"
proof -
  define n where "n = nat \<bar>ppb\<bar>"
  have n: "n \<le> 100000" and b: "\<bar>ppb\<bar> \<le> 100000" using assms by (simp_all add: n_def correction_limit_ppb_def)
  have w: "n div 1000 < 1000" "n mod 1000 < 1000" using n by simp_all
  obtain c cs where c: "decimal (n div 1000) = c # cs" "c \<noteq> CHR ''-''" "c \<noteq> CHR ''+''" "length cs \<le> 2"
    using format_shape [OF b] unfolding n_def by blast
  obtain k where k: "read_chars (decimal (n div 1000)) ppm_start = Some (ppm_start\<lparr>whole := n div 1000, digits := k\<rparr>)" "0 < k"
    using read_whole [OF w(1)] by blast
  let ?body = "decimal (n div 1000) @ ''.'' @ tl (decimal (n mod 1000 + 1000))"
  have body: "read_chars ?body ppm_start
      = Some (ppm_start\<lparr>whole := n div 1000, digits := k, point := True, decimals := 3, fraction := n mod 1000\<rparr>)"
    using k by (simp add: read_chars_append read_char_def read_fraction [OF w(2)] ppm_start_def)
  have len: "length ?body \<le> 7" using c(1,4) decimal_padded [OF w(2)] by simp
  have sum: "int (n div 1000 * 1000 + n mod 1000) = \<bar>ppb\<bar>" by (simp add: n_def)
  have shown: "format_ppm ppb = (if ppb < 0 then ''-'' else []) @ ?body"
    by (simp add: format_ppm_def Let_def n_def)
  show ?thesis
    using body len sum k(2) c(1-3) b
    by (cases "ppb < 0") (simp_all add: parse_ppm_def shown Let_def ppm_start_def correction_limit_ppb_def)
qed

theorem ppm_roundtrip_witness: "parse_ppm (format_ppm (- 1005)) = Some (- 1005)"
  by (rule ppm_roundtrip) (simp add: correction_limit_ppb_def)

end
