(* ===== verification/Waveform_Plan.thy ===== *)
theory Waveform_Plan
  imports Job_Service
begin

text \<open>
  From a job to NCO words: the numbers and the planner of \<open>src/rf/waveform.hpp\<close> and
  \<open>src/rf/waveform.cpp\<close>. Event boundaries in nanoseconds become sample indexes, frequencies in
  nanohertz become 32-bit phase increments, computed by binary long division because the target has
  no 128-bit arithmetic, and a job becomes a \<open>plan\<close>: one segment per event, with at most four
  distinct increments. The sample rate is the default of the build, 138 MHz.
\<close>

section \<open>Constants\<close>

definition sample_rate :: u64 where
  "sample_rate = 138000000"

definition rf_minimum_frequency_nhz :: u64 where
  "rf_minimum_frequency_nhz = 100000 * 1000000000"

definition rf_maximum_frequency_nhz :: u64 where
  "rf_maximum_frequency_nhz = (sample_rate div 2 - 1) * 1000000000"

definition rf_max_events :: nat where
  "rf_max_events = 512"

definition rf_max_duration_ns :: u64 where
  "rf_max_duration_ns = 3600000000000"

definition increments :: "u32 list" where
  "increments = map (\<lambda>i. ucast ((push_bit 32 3570100 + of_nat i * push_bit 24 375 + sample_rate div 2)
     div sample_rate)) [0..<4]"

definition max_correction_ppb :: i32 where
  "max_correction_ppb = 100000"

definition legal_correction :: "i32 \<Rightarrow> bool" where
  "legal_correction ppb \<longleftrightarrow> \<not> (sint ppb < - sint max_correction_ppb \<or> sint ppb > sint max_correction_ppb)"

section \<open>Frequencies\<close>

definition realized_nhz :: "u32 \<Rightarrow> u64" where
  "realized_nhz increment =
     (let product = sample_rate * ucast increment in
      drop_bit 32 product * 1000000000 +
        drop_bit 32 ((product AND 0xFFFFFFFF) * 1000000000 + push_bit 31 1))"

definition corrected_increment :: "nat \<Rightarrow> i32 \<Rightarrow> u32" where
  "corrected_increment tone ppb =
     (if tone \<ge> length increments \<or> \<not> legal_correction ppb then 0
      else let divisor = 1000000000 + scast ppb :: u64 in
        ucast ((ucast (increments ! tone) * 1000000000 + divisor div 2) div divisor))"

fun long_division :: "nat \<Rightarrow> u64 \<Rightarrow> u64 \<times> u64 \<Rightarrow> u64 \<times> u64" where
  "long_division 0 divisor (remainder, quot) = (remainder, quot)"
| "long_division (Suc bits) divisor (remainder, quot) =
     (let remainder = remainder * 2; quot = push_bit 1 quot in
      long_division bits divisor
        (if remainder \<ge> divisor then (remainder - divisor, quot + 1) else (remainder, quot)))"

definition frequency_increment :: "u64 \<Rightarrow> i32 \<Rightarrow> u32 option" where
  "frequency_increment frequency correction_ppb =
     (if frequency < rf_minimum_frequency_nhz \<or> frequency > rf_maximum_frequency_nhz \<or>
         \<not> legal_correction correction_ppb then None
      else
        let divisor = sample_rate * (1000000000 + scast correction_ppb);
            (remainder, quot) = long_division 32 divisor (frequency, 0);
            quot = (if remainder * 2 \<ge> divisor then quot + 1 else quot)
        in if quot = 0 \<or> quot \<ge> push_bit 31 1 then None else Some (ucast quot))"

section \<open>Boundaries\<close>

definition sample_ratio :: "u64 \<times> u64" where
  "sample_ratio =
     (let common = of_int (gcd (uint sample_rate) 1000000000) in
      (sample_rate div common, 1000000000 div common))"

definition samples_at :: "u64 \<Rightarrow> bool \<Rightarrow> u64 option" where
  "samples_at ns terminal_off =
     (if ns > rf_max_duration_ns then None
      else let (numerator, denominator) = sample_ratio in
        Some (if terminal_off then (ns * numerator + denominator - 1) div denominator
              else (ns * numerator + denominator div 2) div denominator))"

section \<open>Plans\<close>

record segment =
  end_sample :: u64
  increment :: u32
  tone_index :: nat

record plan =
  tone_increments :: "u32 list"
  segments :: "segment list"
  segment_count :: nat
  total_samples :: u64

record plan_cursor =
  cur_plan :: plan
  tone_count :: nat
  previous_ns :: u64
  previous_sample :: u64

definition plan_tone :: "u32 \<Rightarrow> plan_cursor \<Rightarrow> (nat \<times> plan_cursor) option" where
  "plan_tone selected c =
     (let tones = tone_increments (cur_plan c);
          found = length (takeWhile (\<lambda>t. t \<noteq> selected) (take (tone_count c) tones))
      in if found = tone_count c then
           if tone_count c = length tones then None
           else Some (found, c\<lparr>cur_plan := (cur_plan c)\<lparr>tone_increments := tones[tone_count c := selected]\<rparr>,
             tone_count := tone_count c + 1\<rparr>)
         else Some (found, c))"

definition event_tone :: "bool \<Rightarrow> i32 \<Rightarrow> rf_event \<Rightarrow> plan_cursor \<Rightarrow> (u32 \<times> nat \<times> plan_cursor) option" where
  "event_tone adjustable correction_ppb e c =
     (if rf_on e then
        case frequency_nhz e of None \<Rightarrow> None
        | Some f \<Rightarrow>
            (case frequency_increment f correction_ppb of None \<Rightarrow> None
             | Some selected \<Rightarrow>
                 if \<not> adjustable \<and> realized_nhz selected \<noteq> f then None
                 else map_option (\<lambda>(tone, c). (selected, tone, c)) (plan_tone selected c))
      else if frequency_nhz e \<noteq> None then None else Some (0, 0, c))"

definition plan_event :: "job \<Rightarrow> i32 \<Rightarrow> bool \<Rightarrow> rf_event \<Rightarrow> plan_cursor \<Rightarrow> plan_cursor option" where
  "plan_event j correction_ppb at_end e c =
     (if offset_ns e \<noteq> previous_ns c \<or> duration_ns e = 0 \<or>
         duration_ns e > total_duration_ns j - previous_ns c then None
      else
        let c = c\<lparr>previous_ns := previous_ns c + duration_ns e\<rparr> in
        case samples_at (previous_ns c) (at_end \<and> \<not> rf_on e) of None \<Rightarrow> None
        | Some sample \<Rightarrow>
            if sample \<le> previous_sample c then None
            else case event_tone (allow_frequency_adjustment j) correction_ppb e c of None \<Rightarrow> None
              | Some (inc, tone, c) \<Rightarrow>
                  let p = cur_plan c in
                  Some (c\<lparr>cur_plan := p\<lparr>segments := (segments p)[segment_count p :=
                        \<lparr>end_sample = sample, increment = inc, tone_index = tone\<rparr>],
                      segment_count := segment_count p + 1\<rparr>,
                    previous_sample := sample\<rparr>))"

fun plan_events :: "job \<Rightarrow> i32 \<Rightarrow> rf_event list \<Rightarrow> plan_cursor \<Rightarrow> plan_cursor option" where
  "plan_events j correction_ppb [] c = Some c"
| "plan_events j correction_ppb (e # es) c =
     (case plan_event j correction_ppb (es = []) e c of None \<Rightarrow> None
      | Some c \<Rightarrow> plan_events j correction_ppb es c)"

definition blank_segment :: segment where
  "blank_segment = \<lparr>end_sample = 0, increment = 0, tone_index = 0\<rparr>"

definition empty_plan :: plan where
  "empty_plan = \<lparr>tone_increments = increments, segments = [], segment_count = 0, total_samples = 0\<rparr>"

definition plan_start :: "job \<Rightarrow> plan_cursor" where
  "plan_start j =
     \<lparr>cur_plan = empty_plan\<lparr>segments := replicate (event_count (events j)) blank_segment,
        tone_increments := replicate 4 0\<rparr>,
      tone_count = 0, previous_ns = 0, previous_sample = 0\<rparr>"

definition hex_id :: "string \<Rightarrow> bool" where
  "hex_id i \<longleftrightarrow> length i = 32 \<and>
     list_all (\<lambda>c. char_between CHR ''0'' CHR ''9'' c \<or> char_between CHR ''a'' CHR ''f'' c) i \<and>
     \<not> list_all (\<lambda>c. c = CHR ''0'') i"

definition plannable :: "job \<Rightarrow> bool" where
  "plannable j \<longleftrightarrow> hex_id (job_id j) \<and> profile j = ''rf-events/1'' \<and>
     mode j \<in> {''tone'', ''wspr'', ''qrss'', ''fskcw'', ''dfcw''} \<and>
     valid_events (events j) \<and> event_count (events j) \<noteq> 0 \<and> event_count (events j) \<le> rf_max_events \<and>
     total_duration_ns j \<noteq> 0"

definition plan_job :: "job \<Rightarrow> i32 \<Rightarrow> plan option" where
  "plan_job j correction_ppb =
     (if \<not> legal_correction correction_ppb \<or> (correction_ppb \<noteq> 0 \<and> \<not> allow_frequency_adjustment j) then None
      else if \<not> plannable j then None
      else case samples_at (total_duration_ns j) (\<not> rf_on (last (items (events j)))) of None \<Rightarrow> None
        | Some samples \<Rightarrow>
            if samples = 0 then None
            else case plan_events j correction_ppb (items (events j)) (plan_start j) of None \<Rightarrow> None
              | Some c \<Rightarrow>
                  if previous_ns c \<noteq> total_duration_ns j then None
                  else Some ((cur_plan c)\<lparr>total_samples := samples\<rparr>))"

section \<open>The numbers are exact\<close>

lemma and_mask_32: "n AND 4294967295 = n mod (4294967296 :: nat)"
  using take_bit_eq_mask [of 32 n] by (simp add: take_bit_eq_mod mask_eq_exp_minus_1)

lemma unat_realized_nhz:
  "unat (realized_nhz i) = (138000000 * unat i * 10 ^ 9 + 2 ^ 31) div 2 ^ 32"
proof -
  let ?p = "138000000 * unat i"
  have i: "unat i < 2 ^ 32" using unsigned_less [of i, where ?'a = nat] by simp
  have u: "unat (ucast i :: u64) = unat i" using i by (simp add: unsigned_ucast_eq take_bit_nat_eq_self)
  have p: "unat (sample_rate * ucast i :: u64) = ?p"
    using i u by (subst unat_u64_times) (simp_all add: sample_rate_def)
  have low: "unat ((sample_rate * ucast i :: u64) AND 0xFFFFFFFF) = ?p mod 2 ^ 32"
    using p by (simp add: unsigned_and_eq and_mask_32)
  have high: "unat (drop_bit 32 (sample_rate * ucast i :: u64)) = ?p div 2 ^ 32"
    using i by (subst unsigned_drop_bit_eq) (simp add: p drop_bit_eq_div take_bit_nat_eq_self)
  have m: "?p mod 2 ^ 32 < 2 ^ 32" by simp
  have d: "?p div 2 ^ 32 < 138000000" using i by (simp add: less_mult_imp_div_less)
  have half: "unat ((sample_rate * ucast i AND 0xFFFFFFFF) * 1000000000 + push_bit 31 1 :: u64) =
      ?p mod 2 ^ 32 * 1000000000 + 2 ^ 31"
    using m low by (simp add: unat_word_ariths)
  let ?r = "(?p mod 2 ^ 32 * 1000000000 + 2 ^ 31) div 2 ^ 32"
  have r: "?r < 1000000001" using m by (intro less_mult_imp_div_less) simp
  have frac: "unat (drop_bit 32 ((sample_rate * ucast i AND 0xFFFFFFFF) * 1000000000 + push_bit 31 1 :: u64)) = ?r"
    using m by (subst unsigned_drop_bit_eq, subst half) (simp add: drop_bit_eq_div take_bit_nat_eq_self)
  have scaled: "unat (drop_bit 32 (sample_rate * ucast i :: u64) * 1000000000) = ?p div 2 ^ 32 * 1000000000"
    using d by (subst unat_u64_times) (simp_all only: high, simp_all)
  have "unat (realized_nhz i) = ?p div 2 ^ 32 * 1000000000 + ?r"
  proof -
    have "realized_nhz i = drop_bit 32 (sample_rate * ucast i) * 1000000000 +
        drop_bit 32 ((sample_rate * ucast i AND 0xFFFFFFFF) * 1000000000 + push_bit 31 1)"
      by (simp only: realized_nhz_def Let_def)
    moreover have "?p div 2 ^ 32 * 1000000000 + ?r < 18446744073709551616"
      using d r by (auto intro: order.strict_trans1 [OF add_mono [OF mult_le_mono1 less_imp_le]])
    ultimately show ?thesis using unat_u64_plus [unfolded scaled frac] scaled frac by metis
  qed
  also have "\<dots> = (?p div 2 ^ 32 * 1000000000 * 2 ^ 32 + (?p mod 2 ^ 32 * 1000000000 + 2 ^ 31)) div 2 ^ 32"
    by (subst div_mult_self3) simp_all
  also have "?p div 2 ^ 32 * 1000000000 * 2 ^ 32 + (?p mod 2 ^ 32 * 1000000000 + 2 ^ 31) =
      ?p * 10 ^ 9 + 2 ^ 31"
    using div_mult_mod_eq [of ?p "2 ^ 32"] by simp
  finally show ?thesis .
qed

lemma long_division_steps:
  assumes "unat r < unat d" "unat d < 2 ^ 62" "unat q < 2 ^ k" "n + k \<le> 32"
    "long_division n d (r, q) = (r', q')"
  shows "unat r * 2 ^ n + unat q * 2 ^ n * unat d = unat q' * unat d + unat r' \<and> unat r' < unat d \<and> unat q' < 2 ^ (n + k)"
  using assms
proof (induction n arbitrary: r q k)
  case 0
  then show ?case by simp
next
  case (Suc n)
  have kk: "(2::nat) ^ k \<le> 2 ^ 31" using Suc.prems by (intro power_increasing) auto
  have r2: "unat (r * 2) = unat r * 2" using Suc.prems by (subst unat_u64_times) simp_all
  have q2: "unat (push_bit 1 q) = unat q * 2"
    using Suc.prems kk by (simp add: push_bit_eq_mult unat_u64_times)
  have q3: "unat (push_bit 1 q + 1) = unat q * 2 + 1" using q2 Suc.prems kk by (subst unat_u64_plus) simp_all
  show ?case
  proof (cases "r * 2 \<ge> d")
    case True
    have d: "unat (r * 2 - d) = unat r * 2 - unat d" using True r2 by (simp add: unat_u64_minus)
    have e: "unat d \<le> unat r * 2" using True r2 by (simp add: word_nat)
    have "long_division n d (r * 2 - d, push_bit 1 q + 1) = (r', q')"
      using Suc.prems True by (simp add: Let_def)
    note IH = Suc.IH [OF _ _ _ _ this, of "Suc k", unfolded d q3]
    obtain x where x: "unat r * 2 = x + unat d" using e le_Suc_ex [of "unat d" "unat r * 2"] by auto
    have "unat r * (2 * 2 ^ n) = (unat r * 2) * 2 ^ n" by simp
    also have "\<dots> = x * 2 ^ n + unat d * 2 ^ n" by (simp add: x add_mult_distrib)
    finally show ?thesis using IH Suc.prems x by (auto simp: algebra_simps)
  next
    case False
    have e: "unat r * 2 < unat d" using False r2 by (simp add: word_nat)
    have "long_division n d (r * 2, push_bit 1 q) = (r', q')"
      using Suc.prems False by (simp add: Let_def)
    note IH = Suc.IH [OF _ _ _ _ this, of "Suc k", unfolded r2 q2]
    show ?thesis using IH Suc.prems e by (auto simp: algebra_simps)
  qed
qed


definition increment_of :: "u64 \<Rightarrow> i32 \<Rightarrow> nat" where
  "increment_of f correction =
     (let d = 138000000 * nat (1000000000 + sint correction) in (unat f * 2 ^ 33 + d) div (2 * d))"

lemma legal_correction_bounds: "legal_correction c \<longleftrightarrow> - 100000 \<le> sint c \<and> sint c \<le> 100000"
  by (auto simp: legal_correction_def max_correction_ppb_def)

lemma corrected_rate:
  assumes "legal_correction c"
  shows "unat (sample_rate * (1000000000 + scast c)) = 138000000 * nat (1000000000 + sint c)"
proof -
  define k where "k = nat (1000000000 + sint c)"
  have k: "k \<le> 1000100000" "1000000000 + sint c = int k"
    using assms by (auto simp: k_def legal_correction_bounds)
  have "(1000000000 + scast c :: u64) = of_int (1000000000 + sint c)" by (simp only: scast_eq of_int_add of_int_numeral)
  also have "\<dots> = of_nat k" unfolding k by simp
  finally have "unat (1000000000 + scast c :: u64) = k"
    using k by (simp add: unat_of_nat)
  then show ?thesis using k unfolding k_def [symmetric]
    by (subst unat_u64_times) (simp_all add: sample_rate_def)
qed

lemma frequency_increment_eq:
  "frequency_increment f c =
     (if rf_minimum_frequency_nhz \<le> f \<and> f \<le> rf_maximum_frequency_nhz \<and> legal_correction c \<and>
         increment_of f c < 2 ^ 31
      then Some (of_nat (increment_of f c)) else None)"
proof (cases "rf_minimum_frequency_nhz \<le> f \<and> f \<le> rf_maximum_frequency_nhz \<and> legal_correction c")
  case True
  let ?d = "138000000 * nat (1000000000 + sint c)"
  let ?D = "sample_rate * (1000000000 + scast c)"
  have D: "unat ?D = ?d" using True corrected_rate by blast
  have n: "999900000 \<le> nat (1000000000 + sint c)" "nat (1000000000 + sint c) \<le> 1000100000"
    using True by (auto simp: legal_correction_bounds)
  have f: "100000000000000 \<le> unat f" "unat f \<le> 68999999000000000"
    using True by (simp_all add: rf_minimum_frequency_nhz_def rf_maximum_frequency_nhz_def sample_rate_def word_nat)
  obtain r q where rq: "long_division 32 ?D (f, 0) = (r, q)" by fastforce
  have lt: "unat f < unat ?D" "unat ?D < 2 ^ 62" using f n D by simp_all
  have split: "unat f * 2 ^ 32 = unat q * ?d + unat r" and r: "unat r < ?d" and q: "unat q < 2 ^ 32"
    using long_division_steps [OF lt, of 0 0 32 r q] rq by (simp_all add: D)
  have r2: "unat (r * 2) = unat r * 2" using r n by (subst unat_u64_times) simp_all
  have q1: "unat (q + 1) = unat q + 1" using q by (subst unat_u64_plus) simp_all
  have "increment_of f c = (2 * unat r + ?d + unat q * (2 * ?d)) div (2 * ?d)"
  proof -
    have "unat f * 2 ^ 33 + ?d = 2 * unat r + ?d + unat q * (2 * ?d)"
      using arg_cong [OF split, of "\<lambda>x. 2 * x"] by simp
    then show ?thesis by (simp only: increment_of_def Let_def)
  qed
  also have "\<dots> = unat q + (2 * unat r + ?d) div (2 * ?d)" using n by (subst div_mult_self1) simp_all
  also have "(2 * unat r + ?d) div (2 * ?d) = (if ?d \<le> unat r * 2 then 1 else 0)"
    using r n by (simp add: div_nat_eqI) 
  finally have inc: "increment_of f c = unat (if ?D \<le> r * 2 then q + 1 else q)"
    using r2 q1 by (simp add: word_le_nat_alt D)
  have "increment_of f c > 0"
  proof -
    have "2 * ?d \<le> unat f * 2 ^ 33 + ?d" using f n by simp
    then show ?thesis using n by (simp add: increment_of_def Let_def div_greater_zero_iff)
  qed
  moreover define Q where "Q = (if ?D \<le> r * 2 then q + 1 else q)"
  have fi: "frequency_increment f c = (if Q = 0 \<or> Q \<ge> push_bit 31 1 then None else Some (ucast Q))"
    using True rq by (simp add: frequency_increment_def Q_def Let_def linorder_not_less [symmetric] del: linorder_not_less)
  have "ucast Q = (of_nat (unat Q) :: u32)" by (simp add: unsigned_ucast_eq)
  moreover have "Q = 0 \<longleftrightarrow> unat Q = 0" by (simp add: unat_eq_0)
  moreover have "push_bit 31 1 \<le> Q \<longleftrightarrow> \<not> unat Q < 2 ^ 31" by (simp add: word_nat not_less)
  ultimately show ?thesis using True inc [folded Q_def] unfolding fi by simp
qed (auto simp: frequency_increment_def)


section \<open>Plans are sound\<close>

lemma sample_ratio: "sample_ratio = (69, 500)"
  by (code_simp)

definition nearest_sample :: "u64 \<Rightarrow> bool \<Rightarrow> nat" where
  "nearest_sample ns terminal_off = (unat ns * 69 + (if terminal_off then 499 else 250)) div 500"

lemma samples_at_eq:
  "samples_at ns terminal_off =
     (if ns \<le> rf_max_duration_ns then Some (of_nat (nearest_sample ns terminal_off)) else None)"
proof (cases "ns \<le> rf_max_duration_ns")
  case True
  then have ns: "unat ns \<le> 3600000000000" by (simp add: rf_max_duration_ns_def word_nat)
  have times: "unat (ns * 69) = unat ns * 69" using ns by (subst unat_u64_times) simp_all
  have up: "unat (ns * 69 + 499) = unat ns * 69 + 499" "unat (ns * 69 + 250) = unat ns * 69 + 250"
    using ns times by (subst unat_u64_plus; simp)+
  have "(of_nat (nearest_sample ns True) :: u64) = of_nat (unat ((ns * 69 + 499) div 500))"
    "(of_nat (nearest_sample ns False) :: u64) = of_nat (unat ((ns * 69 + 250) div 500))"
    by (simp_all add: unat_div up nearest_sample_def)
  moreover have "ns * 69 + 500 - 1 = ns * 69 + 499" by simp
  moreover have "\<not> rf_max_duration_ns < ns" using True by (rule leD)
  ultimately show ?thesis using True
    by (simp add: samples_at_def sample_ratio add.commute [of "499 :: u64"])
qed (simp add: samples_at_def linorder_not_le)

lemma unat_nearest_sample:
  assumes "ns \<le> rf_max_duration_ns"
  shows "unat (of_nat (nearest_sample ns off) :: u64) = nearest_sample ns off"
proof -
  have "unat ns \<le> 3600000000000" using assms by (simp add: rf_max_duration_ns_def word_nat)
  then have "nearest_sample ns off < 2 ^ 64" by (auto simp: nearest_sample_def)
  then show ?thesis by (simp add: unat_of_nat)
qed

text \<open>A plan that can be rendered: the segments follow one another, each active one names the table
  of its increment, and the last one ends with the plan.\<close>

fun legal_segments :: "u32 list \<Rightarrow> u64 \<Rightarrow> segment list \<Rightarrow> bool" where
  "legal_segments ts start [] \<longleftrightarrow> True"
| "legal_segments ts start (s # ss) \<longleftrightarrow> start < end_sample s \<and>
     (increment s \<noteq> 0 \<longrightarrow> tone_index s < length ts \<and> ts ! tone_index s = increment s) \<and>
     legal_segments ts (end_sample s) ss"

definition legal_plan :: "plan \<Rightarrow> bool" where
  "legal_plan p \<longleftrightarrow> length (tone_increments p) = 4 \<and> segments p \<noteq> [] \<and>
     segment_count p = length (segments p) \<and> legal_segments (tone_increments p) 0 (segments p) \<and>
     end_sample (last (segments p)) = total_samples p"

text \<open>What a segment must be for its event, and the segments of a job.\<close>

definition realises :: "job \<Rightarrow> i32 \<Rightarrow> bool \<Rightarrow> rf_event \<Rightarrow> segment \<Rightarrow> bool" where
  "realises j correction_ppb at_end e s \<longleftrightarrow>
     unat (end_sample s) = nearest_sample (offset_ns e + duration_ns e) (at_end \<and> \<not> rf_on e) \<and>
     (if rf_on e then
        (\<exists>f. frequency_nhz e = Some f \<and> frequency_increment f correction_ppb = Some (increment s) \<and>
           (allow_frequency_adjustment j \<or> realized_nhz (increment s) = f))
      else frequency_nhz e = None \<and> increment s = 0)"

fun realised :: "job \<Rightarrow> i32 \<Rightarrow> rf_event list \<Rightarrow> segment list \<Rightarrow> bool" where
  "realised j correction_ppb [] ss \<longleftrightarrow> ss = []"
| "realised j correction_ppb (e # es) ss \<longleftrightarrow>
     (case ss of [] \<Rightarrow> False
      | s # ss \<Rightarrow> realises j correction_ppb (es = []) e s \<and> realised j correction_ppb es ss)"

definition used_tones :: "plan_cursor \<Rightarrow> u32 list" where
  "used_tones c = take (tone_count c) (tone_increments (cur_plan c))"

definition planned :: "plan_cursor \<Rightarrow> segment list" where
  "planned c = take (segment_count (cur_plan c)) (segments (cur_plan c))"

definition cursor_ok :: "plan_cursor \<Rightarrow> bool" where
  "cursor_ok c \<longleftrightarrow> length (tone_increments (cur_plan c)) = 4 \<and> tone_count c \<le> 4 \<and>
     legal_segments (used_tones c) 0 (planned c) \<and>
     previous_sample c = (if planned c = [] then 0 else end_sample (last (planned c)))"

lemma legal_segments_mono: "legal_segments ts start ss \<Longrightarrow> legal_segments (ts @ us) start ss"
  by (induction ss arbitrary: start) (auto simp: nth_append)

lemma legal_segments_append:
  "legal_segments ts start (ss @ rs) \<longleftrightarrow>
     legal_segments ts start ss \<and> legal_segments ts (if ss = [] then start else end_sample (last ss)) rs"
  by (induction ss arbitrary: start) auto

lemma plan_tone_used:
  assumes "plan_tone selected c = Some (i, c')" "length (tone_increments (cur_plan c)) = 4" "tone_count c \<le> 4"
  shows "(\<exists>us. used_tones c' = used_tones c @ us) \<and> i < length (used_tones c') \<and> used_tones c' ! i = selected \<and>
    tone_count c' \<le> 4 \<and> length (tone_increments (cur_plan c')) = 4 \<and> segments (cur_plan c') = segments (cur_plan c) \<and>
    segment_count (cur_plan c') = segment_count (cur_plan c) \<and> previous_ns c' = previous_ns c \<and>
    previous_sample c' = previous_sample c"
proof -
  let ?ts = "tone_increments (cur_plan c)"
  let ?found = "length (takeWhile (\<lambda>t. t \<noteq> selected) (take (tone_count c) ?ts))"
  show ?thesis
  proof (cases "?found = tone_count c")
    case True
    have "take (Suc (tone_count c)) (?ts[tone_count c := selected]) = take (tone_count c) ?ts @ [selected]"
      if "tone_count c < 4" using that assms by (simp add: take_Suc_conv_app_nth)
    then show ?thesis using True assms
      by (auto simp: plan_tone_def Let_def used_tones_def nth_append split: if_splits)
  next
    case False
    have "?found \<le> tone_count c" using length_takeWhile_le [of _ "take (tone_count c) ?ts"] assms by simp
    with False have lt: "?found < length (take (tone_count c) ?ts)" using assms by simp
    then show ?thesis using False assms nth_length_takeWhile [OF lt]
      by (auto simp: plan_tone_def Let_def used_tones_def)
  qed
qed

lemma event_tone_used:
  assumes "event_tone adjustable correction e c = Some (inc, i, c')"
    "length (tone_increments (cur_plan c)) = 4" "tone_count c \<le> 4"
  shows "(\<exists>us. used_tones c' = used_tones c @ us) \<and>
    (inc \<noteq> 0 \<longrightarrow> i < length (used_tones c') \<and> used_tones c' ! i = inc) \<and>
    tone_count c' \<le> 4 \<and> length (tone_increments (cur_plan c')) = 4 \<and> segments (cur_plan c') = segments (cur_plan c) \<and>
    segment_count (cur_plan c') = segment_count (cur_plan c) \<and> previous_ns c' = previous_ns c \<and>
    previous_sample c' = previous_sample c \<and>
    (if rf_on e then
       (\<exists>f. frequency_nhz e = Some f \<and> frequency_increment f correction = Some inc \<and>
          (adjustable \<or> realized_nhz inc = f))
     else frequency_nhz e = None \<and> inc = 0)"
  using assms plan_tone_used [of inc c i c']
  by (auto simp: event_tone_def split: if_splits option.splits)

lemma plan_event_step:
  assumes step: "plan_event j k at_end e c = Some c'" and ok: "cursor_ok c"
    and room: "segment_count (cur_plan c) < length (segments (cur_plan c))"
  shows "cursor_ok c' \<and> (\<exists>s. planned c' = planned c @ [s] \<and> realises j k at_end e s) \<and>
    segment_count (cur_plan c') = segment_count (cur_plan c) + 1 \<and>
    length (segments (cur_plan c')) = length (segments (cur_plan c)) \<and>
    previous_ns c' = offset_ns e + duration_ns e"
proof -
  let ?c = "c\<lparr>previous_ns := previous_ns c + duration_ns e\<rparr>"
  obtain sample inc i d where sample: "samples_at (previous_ns c + duration_ns e) (at_end \<and> \<not> rf_on e) = Some sample"
    and later: "previous_sample c < sample"
    and tone: "event_tone (allow_frequency_adjustment j) k e ?c = Some (inc, i, d)"
    and offset: "offset_ns e = previous_ns c"
    and c': "c' = d\<lparr>cur_plan := (cur_plan d)\<lparr>segments := (segments (cur_plan d))[segment_count (cur_plan d) :=
          \<lparr>end_sample = sample, increment = inc, tone_index = i\<rparr>], segment_count := segment_count (cur_plan d) + 1\<rparr>,
        previous_sample := sample\<rparr>"
    using step by (auto simp: plan_event_def Let_def split: if_splits option.splits)
  note used = event_tone_used [OF tone] 
  let ?s = "\<lparr>end_sample = sample, increment = inc, tone_index = i\<rparr>"
  have extend: "planned c' = planned c @ [?s]"
    using used ok room by (simp add: c' planned_def cursor_ok_def take_Suc_conv_app_nth)
  have same: "used_tones c' = used_tones d" "used_tones ?c = used_tones c" by (simp_all add: c' used_tones_def)
  obtain us where us: "used_tones d = used_tones c @ us"
    using used ok same by (auto simp: cursor_ok_def)
  have "inc \<noteq> 0 \<longrightarrow> i < length (used_tones d) \<and> used_tones d ! i = inc" using used ok by (simp add: cursor_ok_def)
  then have legal: "legal_segments (used_tones c') 0 (planned c @ [?s])"
    using ok later legal_segments_mono [of "used_tones c" 0 "planned c" us]
    by (simp add: legal_segments_append cursor_ok_def same us)
  have "realises j k at_end e ?s"
  proof -
    have ns: "previous_ns c + duration_ns e \<le> rf_max_duration_ns"
      "sample = of_nat (nearest_sample (previous_ns c + duration_ns e) (at_end \<and> \<not> rf_on e))"
      using sample by (auto simp: samples_at_eq split: if_splits)
    then show ?thesis using used ok unat_nearest_sample [OF ns(1)]
      by (auto simp: realises_def offset cursor_ok_def)
  qed
  moreover have "cursor_ok c'" using used ok extend legal by (simp add: cursor_ok_def c')
  ultimately show ?thesis using used ok extend by (auto simp: cursor_ok_def c' offset)
qed

lemma plan_events_steps:
  assumes "plan_events j k es c = Some c'" "cursor_ok c"
    "segment_count (cur_plan c) + length es = length (segments (cur_plan c))"
  shows "cursor_ok c' \<and> (\<exists>ss. planned c' = planned c @ ss \<and> realised j k es ss) \<and>
    segment_count (cur_plan c') = segment_count (cur_plan c) + length es \<and>
    length (segments (cur_plan c')) = length (segments (cur_plan c)) \<and>
    (es \<noteq> [] \<longrightarrow> previous_ns c' = offset_ns (last es) + duration_ns (last es))"
  using assms
proof (induction es arbitrary: c)
  case (Cons e es)
  then obtain d where d: "plan_event j k (es = []) e c = Some d" "plan_events j k es d = Some c'"
    by (auto split: option.splits)
  note step = plan_event_step [OF d(1)]
  show ?case using Cons.IH [OF d(2)] Cons.prems step d by (cases es) (auto split: list.splits)
qed simp

lemma realised_length: "realised j k es ss \<Longrightarrow> length ss = length es"
  by (induction j k es ss rule: realised.induct) (auto split: list.splits)

lemma realised_last:
  "realised j k es ss \<Longrightarrow> es \<noteq> [] \<Longrightarrow> realises j k True (last es) (last ss)"
  by (induction j k es ss rule: realised.induct) (auto dest: realised_length split: list.splits)

lemma plan_job_sound:
  assumes "plan_job j k = Some p"
  shows "legal_plan p \<and> realised j k (items (events j)) (segments p)"
proof -
  obtain c samples where c: "plan_events j k (items (events j)) (plan_start j) = Some c"
    and samples: "samples_at (total_duration_ns j) (\<not> rf_on (last (items (events j)))) = Some samples"
    and complete: "previous_ns c = total_duration_ns j" and p: "p = (cur_plan c)\<lparr>total_samples := samples\<rparr>"
    and some: "event_count (events j) \<noteq> 0"
    using assms by (auto simp: plan_job_def plannable_def split: if_splits option.splits)
  have es: "items (events j) \<noteq> []" using some by (metis length_items length_0_conv)
  have start: "cursor_ok (plan_start j)" "planned (plan_start j) = []"
    "segment_count (cur_plan (plan_start j)) = 0" "length (segments (cur_plan (plan_start j))) = length (items (events j))"
    by (simp_all add: plan_start_def cursor_ok_def planned_def empty_plan_def)
  obtain ss where ok: "cursor_ok c" and ss: "planned c = ss" "realised j k (items (events j)) ss"
    and count: "segment_count (cur_plan c) = length (items (events j))"
      "length (segments (cur_plan c)) = length (items (events j))"
    and final: "previous_ns c = offset_ns (last (items (events j))) + duration_ns (last (items (events j)))"
    using plan_events_steps [OF c] start es by auto
  have whole: "segments p = ss" using ss count by (simp add: p planned_def)
  have nonempty: "ss \<noteq> []" using realised_length [OF ss(2)] es by (metis length_0_conv)
  have last: "end_sample (last ss) = samples"
  proof -
    let ?off = "\<not> rf_on (last (items (events j)))"
    have ns: "total_duration_ns j \<le> rf_max_duration_ns" "samples = of_nat (nearest_sample (total_duration_ns j) ?off)"
      using samples by (auto simp: samples_at_eq split: if_splits)
    have "unat (end_sample (last ss)) = nearest_sample (total_duration_ns j) ?off"
      using realised_last [OF ss(2) es] complete final by (simp add: realises_def)
    then show ?thesis using unat_nearest_sample [OF ns(1), of ?off] by (simp add: ns(2) word_unat_eq_iff)
  qed
  have "legal_segments (tone_increments p) 0 ss"
    using ok ss legal_segments_mono [of "used_tones c" 0 ss "drop (tone_count c) (tone_increments p)"]
    by (simp add: cursor_ok_def used_tones_def p)
  then show ?thesis using ok ss whole nonempty last count realised_length [OF ss(2)]
    by (simp add: legal_plan_def p cursor_ok_def)
qed


section \<open>Properties\<close>

lemma rounded_div: "0 < d \<Longrightarrow> \<bar>(n + d) div (2 * d) * (2 * d) - n\<bar> \<le> (d :: int)"
proof -
  assume d: "0 < d"
  have "(n + d) div (2 * d) * (2 * d) + (n + d) mod (2 * d) = n + d" by (rule div_mult_mod_eq)
  moreover have "0 \<le> (n + d) mod (2 * d)" "(n + d) mod (2 * d) < 2 * d" using d by simp_all
  ultimately show ?thesis by linarith
qed

lemma increment_error:
  "\<bar>int (increment_of f 0) * 276000000000000000 - int (unat f) * 8589934592\<bar> \<le> 138000000000000000"
proof -
  have "int (increment_of f 0) = (int (unat f) * 8589934592 + 138000000000000000) div (2 * 138000000000000000)"
    by (simp add: increment_of_def Let_def zdiv_int)
  then show ?thesis using rounded_div [of 138000000000000000 "int (unat f) * 8589934592"] by simp
qed

lemma realized_error:
  "\<bar>int (unat (realized_nhz i)) * 4294967296 - 138000000000000000 * int (unat i)\<bar> \<le> 2147483648"
proof -
  have "int (unat (realized_nhz i)) = (138000000000000000 * int (unat i) + 2147483648) div (2 * 2147483648)"
    by (simp add: unat_realized_nhz zdiv_int)
  then show ?thesis using rounded_div [of 2147483648 "138000000000000000 * int (unat i)"] by simp
qed

text \<open>The transmitted frequency is the requested one, as closely as the oscillator allows. Every
  frequency of the band is served, and the frequency that the chosen 32-bit increment realises lies
  within 16,065,315 nHz of it, half a step of the NCO.\<close>

theorem realized_frequency_close:
  assumes "rf_minimum_frequency_nhz \<le> f" "f \<le> rf_maximum_frequency_nhz"
  shows "\<exists>inc. frequency_increment f 0 = Some inc \<and>
    \<bar>int (unat (realized_nhz inc)) - int (unat f)\<bar> \<le> 16065315"
proof -
  have "unat f \<le> 68999999000000000"
    using assms by (simp add: rf_maximum_frequency_nhz_def sample_rate_def word_nat)
  then have f: "int (unat f) \<le> 68999999000000000" by linarith
  have e: "\<bar>int (increment_of f 0) * 276000000000000000 - int (unat f) * 8589934592\<bar> \<le> 138000000000000000"
    by (rule increment_error)
  then have i: "increment_of f 0 < 2147483648" using f by linarith
  let ?inc = "of_nat (increment_of f 0) :: u32"
  have u: "unat ?inc = increment_of f 0" using i by (simp add: unat_of_nat)
  have "\<bar>int (unat (realized_nhz ?inc)) * 4294967296 - 138000000000000000 * int (increment_of f 0)\<bar> \<le> 2147483648"
    using realized_error [of ?inc] u by simp
  with e have "\<bar>int (unat (realized_nhz ?inc)) - int (unat f)\<bar> \<le> 16065315" by linarith
  moreover have "frequency_increment f 0 = Some ?inc"
    using i assms by (simp add: frequency_increment_eq legal_correction_bounds)
  ultimately show ?thesis by blast
qed

theorem realized_frequency_close_witness:
  "\<exists>inc. frequency_increment 14097100000000000 0 = Some inc \<and>
    \<bar>int (unat (realized_nhz inc)) - 14097100000000000\<bar> \<le> 16065315"
proof -
  have "rf_minimum_frequency_nhz \<le> 14097100000000000" "(14097100000000000 :: u64) \<le> rf_maximum_frequency_nhz"
    by code_simp+
  then show ?thesis using realized_frequency_close [of 14097100000000000] by simp
qed

text \<open>C30: a plan transmits the job it was made for. A planned job has one segment per event; the
  segments follow one another and end with the plan, each ending at the sample nearest to the end
  of its event (a final silent event ends at the next sample), so rounding never accumulates; an
  active segment carries the increment of its event's frequency and names the table of that
  increment among at most four, and without permission to adjust the realised frequency is exactly
  the requested one; a silent segment has increment zero.\<close>

theorem plan_realises_job:
  assumes "plan_job j correction_ppb = Some p"
  shows "legal_plan p \<and> realised j correction_ppb (items (events j)) (segments p)"
  using assms by (rule plan_job_sound)

definition keyed_job :: job where
  "keyed_job =
     \<lparr>job_id = replicate 31 CHR ''0'' @ ''1'', profile = ''rf-events/1'', mode = ''fskcw'',
      total_duration_ns = 1000,
      events = events_of_list (\<lambda>_. True)
        [\<lparr>offset_ns = 0, duration_ns = 400, rf_on = True, frequency_nhz = Some 14097100000000000\<rparr>,
         \<lparr>offset_ns = 400, duration_ns = 300, rf_on = True, frequency_nhz = Some 14097105000000000\<rparr>,
         \<lparr>offset_ns = 700, duration_ns = 300, rf_on = False, frequency_nhz = None\<rparr>],
      allow_frequency_adjustment = True, message = None\<rparr>"

definition keyed_plan :: plan where
  "keyed_plan =
     \<lparr>tone_increments = [438743358, 438743514, 0, 0],
      segments = [\<lparr>end_sample = 55, increment = 438743358, tone_index = 0\<rparr>,
        \<lparr>end_sample = 97, increment = 438743514, tone_index = 1\<rparr>,
        \<lparr>end_sample = 138, increment = 0, tone_index = 0\<rparr>],
      segment_count = 3, total_samples = 138\<rparr>"

lemma keyed_job_planned: "plan_job keyed_job 0 = Some keyed_plan"
  by code_simp

theorem plan_realises_job_witness:
  "legal_plan keyed_plan \<and> realised keyed_job 0 (items (events keyed_job)) (segments keyed_plan)"
  using plan_realises_job [OF keyed_job_planned] .

end
