(* ===== verification/Waveform.thy ===== *)
theory Waveform
  imports Waveform_Plan
begin

text \<open>
  The sample generator of \<open>src/rf/waveform.cpp\<close>, lines 27-74 and 178-237. The output bit of a
  numerically controlled oscillator is the top bit of its 32-bit phase, and the device consumes 32
  such bits as one word. Adding the increment 32 times for every word is too slow for the target, so
  a table per increment gives the whole word of a phase: 1024 buckets with the word at their first
  phase, and the sorted phases at which one bit of the word changes. \<open>render\<close> fills a buffer from a
  plan, whole words from the table and single bits around segment boundaries. The lemmas show that a
  table gives exactly the word of the oscillator, and that rendering in buffers of any sizes gives
  exactly the bits of the plan, padded with zeros.
\<close>

section \<open>Word tables\<close>

definition block_words :: nat where
  "block_words = 16384"

definition block_samples :: u64 where
  "block_samples = 16384 * 32"

record boundary =
  boundary_phase :: u32
  toggle :: u32

record bucket =
  word_at :: u32
  first_boundary :: nat
  last_boundary :: nat

record word_table =
  boundaries :: "boundary list"
  buckets :: "bucket list"

definition oracle_step :: "u32 \<Rightarrow> nat \<Rightarrow> u32 \<times> u32 \<Rightarrow> u32 \<times> u32" where
  "oracle_step inc i acc = (case acc of (w, phase) \<Rightarrow> (w OR push_bit i (drop_bit 31 phase), phase + inc))"

definition oracle_word :: "u32 \<Rightarrow> u32 \<Rightarrow> u32" where
  "oracle_word phase inc = fst (fold (oracle_step inc) [0..<32] (0, phase))"

definition lookup :: "word_table \<Rightarrow> u32 \<Rightarrow> u32" where
  "lookup table phase =
     (let b = buckets table ! unat (drop_bit 22 phase) in
      fold (\<lambda>i w. if phase \<ge> boundary_phase (boundaries table ! i) then w XOR toggle (boundaries table ! i) else w)
        [first_boundary b..<last_boundary b] (word_at b))"

definition bit_boundaries :: "u32 \<Rightarrow> nat \<Rightarrow> boundary list" where
  "bit_boundaries inc i =
     (let offset = 0 - of_nat i * inc in
      [\<lparr>boundary_phase = offset, toggle = push_bit i 1\<rparr>,
       \<lparr>boundary_phase = offset + 0x80000000, toggle = push_bit i 1\<rparr>])"

definition build_bucket :: "boundary list \<Rightarrow> u32 \<Rightarrow> nat \<Rightarrow> bucket" where
  "build_bucket bs inc index =
     (let low = push_bit 22 (of_nat index) :: u64; high = low + push_bit 22 1;
          start = length (takeWhile (\<lambda>b. ucast (boundary_phase b) \<le> low) bs)
      in \<lparr>word_at = oracle_word (ucast low) inc, first_boundary = start,
          last_boundary = start + length (takeWhile (\<lambda>b. ucast (boundary_phase b) < high) (drop start bs))\<rparr>)"

definition build_table :: "u32 \<Rightarrow> word_table" where
  "build_table inc =
     (let bs = sort_key boundary_phase (concat (map (bit_boundaries inc) [0..<32])) in
      \<lparr>boundaries = bs, buckets = map (build_bucket bs inc) [0..<1024]\<rparr>)"

definition build_tables :: "u32 list \<Rightarrow> word_table list" where
  "build_tables values = map build_table values"

text \<open>The diagnostic packer of the four default increments keeps tables of its own.\<close>

record default_tables =
  shared_tables :: "word_table list"
  tables_ready :: bool

definition prepare_word_tables :: "default_tables \<Rightarrow> default_tables" where
  "prepare_word_tables d =
     (if tables_ready d then d else \<lparr>shared_tables = build_tables increments, tables_ready = True\<rparr>)"

definition packed_word :: "default_tables \<Rightarrow> u32 \<Rightarrow> nat \<Rightarrow> u32" where
  "packed_word d phase tone = lookup (shared_tables d ! tone) phase"

section \<open>The generator\<close>

record waveform =
  tables :: "word_table list"
  table_increments :: "u32 list"
  wave_plan :: "plan option"
  wave_segment :: nat
  wave_position :: u64
  wave_phase :: u32

definition blank_table :: word_table where
  "blank_table =
     \<lparr>boundaries = replicate 64 \<lparr>boundary_phase = 0, toggle = 0\<rparr>,
      buckets = replicate 1024 \<lparr>word_at = 0, first_boundary = 0, last_boundary = 0\<rparr>\<rparr>"

definition new_waveform :: waveform where
  "new_waveform = \<lparr>tables = replicate 4 blank_table, table_increments = replicate 4 0, wave_plan = None,
     wave_segment = 0, wave_position = 0, wave_phase = 0\<rparr>"

definition reset_waveform :: "plan \<Rightarrow> waveform \<Rightarrow> waveform" where
  "reset_waveform p w =
     (let w = (if table_increments w \<noteq> tone_increments p
        then w\<lparr>tables := build_tables (tone_increments p), table_increments := tone_increments p\<rparr> else w)
      in w\<lparr>wave_plan := Some p, wave_segment := 0, wave_position := 0, wave_phase := 0\<rparr>)"

text \<open>The state of the loop of \<open>render\<close>: the buffer, the word and the bit written next, the
  generator. Reading a segment or a table that does not exist is undefined behaviour of the code and
  \<open>None\<close> here.\<close>

record rendering =
  out_words :: "u32 list"
  out_index :: nat
  used_bits :: nat
  wave :: waveform

definition whole_words :: "segment \<Rightarrow> rendering \<Rightarrow> nat" where
  "whole_words s r =
     (if used_bits r = 0
      then min (unat ((end_sample s - wave_position (wave r)) div 32)) (length (out_words r) - out_index r)
      else 0)"

definition emit_word :: "word_table \<Rightarrow> u32 \<Rightarrow> nat \<Rightarrow> nat \<Rightarrow> u32 list \<times> u32 \<Rightarrow> u32 list \<times> u32" where
  "emit_word table stride index i acc =
     (case acc of (out, phase) \<Rightarrow> (out[index + i := lookup table phase], phase + stride))"

definition render_words :: "segment \<Rightarrow> nat \<Rightarrow> rendering \<Rightarrow> rendering option" where
  "render_words s n r =
     (let w = wave r; moved = \<lambda>w. w\<lparr>wave_position := wave_position w + of_nat n * 32\<rparr> in
      if increment s \<noteq> 0 then
        if tone_index s \<ge> length (tables w) then None
        else
          (case fold (emit_word (tables w ! tone_index s) (increment s * 32) (out_index r)) [0..<n]
             (out_words r, wave_phase w) of (out, phase) \<Rightarrow>
             Some (r\<lparr>out_words := out, out_index := out_index r + n, wave := moved (w\<lparr>wave_phase := phase\<rparr>)\<rparr>))
      else
        Some (r\<lparr>out_words := take (out_index r) (out_words r) @ replicate n 0 @ drop (out_index r + n) (out_words r),
          out_index := out_index r + n, wave := moved w\<rparr>))"

definition render_bit :: "segment \<Rightarrow> rendering \<Rightarrow> rendering" where
  "render_bit s r =
     (let i = out_index r; used = used_bits r; w = wave r;
          out = (if used = 0 then (out_words r)[i := 0] else out_words r);
          (out, w) = (if increment s \<noteq> 0
            then (out[i := (out ! i) OR push_bit used (drop_bit 31 (wave_phase w))],
                  w\<lparr>wave_phase := wave_phase w + increment s\<rparr>)
            else (out, w));
          w = w\<lparr>wave_position := wave_position w + 1\<rparr>
      in if used + 1 = 32 then r\<lparr>out_words := out, used_bits := 0, out_index := i + 1, wave := w\<rparr>
         else r\<lparr>out_words := out, used_bits := used + 1, wave := w\<rparr>)"

definition next_segment :: "segment \<Rightarrow> rendering \<Rightarrow> rendering" where
  "next_segment s r =
     (if wave_position (wave r) = end_sample s
      then r\<lparr>wave := (wave r)\<lparr>wave_segment := wave_segment (wave r) + 1\<rparr>\<rparr> else r)"

definition render_step :: "plan \<Rightarrow> rendering \<Rightarrow> rendering option" where
  "render_step p r =
     (if wave_segment (wave r) \<ge> length (segments p) then None
      else
        let s = segments p ! wave_segment (wave r); n = whole_words s r in
        map_option (next_segment s) (if n \<noteq> 0 then render_words s n r else Some (render_bit s r)))"

partial_function (option) render_loop :: "plan \<Rightarrow> rendering \<Rightarrow> rendering option" where
  "render_loop p r =
     (if wave_position (wave r) < total_samples p \<and> out_index r < length (out_words r) then
        (case render_step p r of None \<Rightarrow> None | Some r \<Rightarrow> render_loop p r)
      else Some r)"

definition render :: "u32 list \<Rightarrow> waveform \<Rightarrow> (u64 \<times> u32 list \<times> waveform) option" where
  "render output w =
     map_option (\<lambda>r.
        let i = out_index r + (if used_bits r \<noteq> 0 then 1 else 0) in
        (wave_position (wave r) - wave_position w, take i (out_words r) @ replicate (length output - i) 0, wave r))
      (let r = \<lparr>out_words = output, out_index = 0, used_bits = 0, wave = w\<rparr> in
       case wave_plan w of None \<Rightarrow> Some r | Some p \<Rightarrow> render_loop p r)"


section \<open>The table gives the word of the oscillator\<close>

definition nco :: "u32 \<Rightarrow> u32 \<Rightarrow> nat \<Rightarrow> bool list" where
  "nco phase inc n = map (\<lambda>i. bit (phase + of_nat i * inc) 31) [0..<n]"

definition word_of_bits :: "bool list \<Rightarrow> u32" where
  "word_of_bits bs = horner_sum of_bool 2 bs"

lemma bit_word_of_bits: "bit (word_of_bits bs) n \<longleftrightarrow> n < 32 \<and> n < length bs \<and> bs ! n"
  by (auto simp: word_of_bits_def bit_horner_sum_bit_word_iff)

lemma drop_bit_31: "drop_bit 31 (w :: u32) = of_bool (bit w 31)"
proof (rule bit_word_eqI)
  fix n
  show "bit (drop_bit 31 w) n \<longleftrightarrow> bit (of_bool (bit w 31) :: u32) n"
    using bit_imp_le_length [of w "31 + n"] by (cases n) (auto simp: bit_drop_bit_eq bit_1_iff add.commute)
qed

lemma bit_top: "bit (push_bit i (drop_bit 31 (w :: u32))) n \<longleftrightarrow> n = i \<and> i < 32 \<and> bit w 31"
  by (auto simp: drop_bit_31 bit_push_bit_iff bit_1_iff)

lemma oracle_fold:
  "fold (oracle_step inc) [0..<n] (0, phase) = (word_of_bits (nco phase inc n), phase + of_nat n * inc)"
  if "n \<le> 32"
  using that
proof (induction n)
  case (Suc n)
  have "word_of_bits (nco phase inc n) OR push_bit n (drop_bit 31 (phase + of_nat n * inc)) =
      word_of_bits (nco phase inc (Suc n))"
    by (rule bit_word_eqI) (auto simp: bit_word_of_bits bit_top bit_or_iff nco_def nth_append less_Suc_eq)
  then show ?case using Suc by (simp add: oracle_step_def algebra_simps)
qed (simp add: word_of_bits_def nco_def)

lemma oracle_word_bits: "oracle_word phase inc = word_of_bits (nco phase inc 32)"
  by (simp add: oracle_word_def oracle_fold)


subsection \<open>Boundaries crossed between two phases\<close>

lemma bit_31: "bit (w :: u32) 31 \<longleftrightarrow> 2147483648 \<le> unat w"
proof -
  have lt: "unat w < 4294967296" using unsigned_less [of w, where ?'a = nat] by simp
  have "unat (drop_bit 31 w) = unat w div 2147483648"
    using lt by (subst unsigned_drop_bit_eq) (simp add: drop_bit_eq_div take_bit_nat_eq_self)
  moreover have "unat (drop_bit 31 w) = of_bool (bit w 31)" by (simp add: drop_bit_31)
  ultimately show ?thesis using lt by (cases "bit w 31") (auto simp: div_eq_0_iff intro: ccontr)
qed

lemma unat_u32_plus: "unat (x + y :: u32) =
    (if unat x + unat y < 4294967296 then unat x + unat y else unat x + unat y - 4294967296)"
proof -
  have "unat x < 4294967296" "unat y < 4294967296"
    using unsigned_less [of x, where ?'a = nat] unsigned_less [of y, where ?'a = nat] by simp_all
  then show ?thesis by (auto simp: unat_word_ariths mod_if)
qed

lemma unat_u32_minus: "unat (- x :: u32) = (if x = 0 then 0 else 4294967296 - unat x)"
proof -
  have "unat (- x) < 4294967296" "unat x < 4294967296"
    using unsigned_less [of "- x", where ?'a = nat] unsigned_less [of x, where ?'a = nat] by simp_all
  moreover have "unat (- x + x) = 0" by simp
  moreover have "x = 0 \<longleftrightarrow> unat x = 0" by (simp add: unat_eq_0)
  ultimately show ?thesis using unat_u32_plus [of "- x" x] by (simp split: if_splits)
qed

lemma crossings:
  assumes "low \<le> (p :: u32)"
  shows "bit (p + x) 31 \<longleftrightarrow>
    bit (low + x) 31 \<noteq> ((low < - x \<and> - x \<le> p) \<noteq> (low < - x + 0x80000000 \<and> - x + 0x80000000 \<le> p))"
proof (cases "x = 0")
  case True
  then show ?thesis using assms by (auto simp: bit_31 word_less_nat_alt word_le_nat_alt)
next
  case False
  define P X L where "P = unat p" and "X = unat x" and "L = unat low"
  have bounds: "P < 4294967296" "X < 4294967296" "L \<le> P" "0 < X"
    using unsigned_less [of p, where ?'a = nat] unsigned_less [of x, where ?'a = nat] assms False
    by (simp_all add: P_def X_def L_def word_le_nat_alt unat_gt_0)
  have minus: "unat (- x) = 4294967296 - X" using False by (simp add: unat_u32_minus X_def)
  have half: "unat (- x + 0x80000000) = (if X \<le> 2147483648 then 2147483648 - X else 6442450944 - X)"
    using bounds by (subst unat_u32_plus) (auto simp: minus)
  have sum: "bit (y + x) 31 \<longleftrightarrow> (if unat y + X < 4294967296 then 2147483648 \<le> unat y + X else 6442450944 \<le> unat y + X)" for y
    using bounds by (auto simp: bit_31 unat_u32_plus X_def)
  show ?thesis
    unfolding sum word_less_nat_alt word_le_nat_alt minus half P_def [symmetric] L_def [symmetric]
    using bounds by (cases "X \<le> 2147483648"; cases "P + X < 4294967296"; cases "L + X < 4294967296") auto
qed

lemma bit_fold_xor:
  "bit (fold (\<lambda>i w. if c i then w XOR t i else w) is (w :: u32)) n \<longleftrightarrow>
     bit w n \<noteq> odd (length (filter (\<lambda>i. c i \<and> bit (t i) n) is))"
  by (induction "is" arbitrary: w) (auto simp: bit_xor_iff)

lemma sorted_window:
  "sorted (map f xs) \<Longrightarrow>
     takeWhile (\<lambda>x. f x < (h :: 'a :: linorder)) (dropWhile (\<lambda>x. f x \<le> l) xs) = filter (\<lambda>x. l < f x \<and> f x < h) xs"
proof (induction xs)
  case (Cons x xs)
  show ?case
  proof (cases "f x \<le> l")
    case False
    have "takeWhile (\<lambda>x. f x < h) xs = filter (\<lambda>x. l < f x \<and> f x < h) xs"
    proof -
      have gt: "\<forall>y \<in> set xs. l < f y" using False Cons.prems by fastforce
      have "sorted (map f xs)" using Cons.prems by simp
      then show ?thesis using gt
        by (induction xs) (auto simp: empty_filter_conv dest: leD le_less_trans)
    qed
    moreover have "filter (\<lambda>y. l < f y \<and> f y < h) xs = []" if "\<not> f x < h"
      using that Cons.prems by (fastforce simp: filter_empty_conv)
    ultimately show ?thesis using False by auto
  qed (use Cons in auto)
qed simp

lemma length_filter_nth:
  "length (filter (\<lambda>i. P (xs ! i)) [m..<m + n]) = length (filter P (take n (drop m xs)))" if "m + n \<le> length xs"
proof -
  have "map ((!) xs) [m..<m + n] = take n (drop m xs)"
    using that by (auto intro: nth_equalityI)
  then have "filter P (take n (drop m xs)) = map ((!) xs) (filter (\<lambda>i. P (xs ! i)) [m..<m + n])"
    by (metis (no_types, lifting) comp_apply filter_cong filter_map)
  then show ?thesis by simp
qed


lemma bucket_window:
  fixes bs :: "boundary list"
  assumes sorted: "sorted (map boundary_phase bs)" and b: "b = build_bucket bs inc (unat (drop_bit 22 p))"
  defines "low \<equiv> push_bit 22 (drop_bit 22 p)"
  shows "word_at b = oracle_word low inc" "low \<le> p"
    "length (filter (\<lambda>i. boundary_phase (bs ! i) \<le> p \<and> bit (toggle (bs ! i)) n) [first_boundary b..<last_boundary b]) =
     length (filter (\<lambda>b. low < boundary_phase b \<and> boundary_phase b \<le> p \<and> bit (toggle b) n) bs)"
proof -
  let ?index = "unat (drop_bit 22 p)"
  let ?low = "push_bit 22 (of_nat ?index) :: u64"
  have p: "unat p < 4294967296" using unsigned_less [of p, where ?'a = nat] by simp
  have index: "?index = unat p div 4194304" using p
    by (subst unsigned_drop_bit_eq) (simp add: drop_bit_eq_div take_bit_nat_eq_self)
  have wide: "unat ?low = unat p div 4194304 * 4194304"
    using p by (simp add: index push_bit_eq_mult unat_word_ariths unat_of_nat)
  have narrow: "unat low = unat p div 4194304 * 4194304"
    using p by (simp add: low_def push_bit_eq_mult unat_word_ariths index)
  show "low \<le> p" by (simp add: word_le_nat_alt narrow)
  have "unat (ucast ?low :: u32) = take_bit 32 (unat ?low)" by (simp only: unsigned_ucast_eq len_num1) simp
  then have cast: "ucast ?low = low" using p unfolding wide by (simp add: word_unat_eq_iff narrow take_bit_nat_eq_self)
  then show "word_at b = oracle_word low inc" by (simp add: b build_bucket_def Let_def)
  have phase: "unat (ucast x :: u64) = unat x" for x :: u32
    using unsigned_less [of x, where ?'a = nat] by (simp add: unsigned_ucast_eq take_bit_nat_eq_self)
  have le: "(ucast x :: u64) \<le> ?low \<longleftrightarrow> x \<le> low" for x :: u32
    by (simp only: word_le_nat_alt phase wide narrow)
  have lt: "?low < (ucast x :: u64) \<longleftrightarrow> low < x" for x :: u32
    by (simp only: linorder_not_le [symmetric] le)
  have above: "unat (?low + push_bit 22 1) = unat low + 4194304"
    using p by (subst unat_u64_plus) (simp_all only: wide narrow, simp_all)
  then have top: "boundary_phase b \<le> p \<Longrightarrow> (ucast (boundary_phase b) :: u64) < ?low + push_bit 22 1" for b
    by (simp add: word_less_nat_alt word_le_nat_alt phase narrow)
  let ?start = "length (takeWhile (\<lambda>b. boundary_phase b \<le> low) bs)"
  let ?Q = "\<lambda>b. (ucast (boundary_phase b) :: u64) < ?low + push_bit 22 1"
  let ?ws = "takeWhile ?Q (drop ?start bs)"
  have first: "first_boundary b = ?start" "last_boundary b = ?start + length ?ws"
    by (simp_all only: b build_bucket_def Let_def le bucket.simps)
  have "length (takeWhile ?Q ys) \<le> length ys" for ys by (rule length_takeWhile_le)
  from this [of "drop ?start bs"] length_takeWhile_le [of "\<lambda>b. boundary_phase b \<le> low" bs]
  have fits: "?start + length ?ws \<le> length bs" by simp
  have ws: "take (length ?ws) (drop ?start bs) = filter (\<lambda>b. low < boundary_phase b \<and> ?Q b) bs"
  proof -
    have "sorted (map (\<lambda>b. ucast (boundary_phase b) :: u64) bs)"
      using sorted by (auto simp: sorted_iff_nth_mono word_le_nat_alt phase)
    from sorted_window [OF this, of "?low + push_bit 22 1" ?low] show ?thesis
      unfolding takeWhile_eq_take [of ?Q "drop ?start bs", symmetric] by (simp only: le lt dropWhile_eq_drop [symmetric])
  qed
  show "length (filter (\<lambda>i. boundary_phase (bs ! i) \<le> p \<and> bit (toggle (bs ! i)) n) [first_boundary b..<last_boundary b]) =
     length (filter (\<lambda>b. low < boundary_phase b \<and> boundary_phase b \<le> p \<and> bit (toggle b) n) bs)"
    unfolding first length_filter_nth [OF fits, of "\<lambda>b. boundary_phase b \<le> p \<and> bit (toggle b) n"] ws
    by (auto intro!: arg_cong [where f = length] filter_cong dest: top)
qed

lemma odd_boundaries:
  "odd (length (filter (\<lambda>b. low < boundary_phase b \<and> boundary_phase b \<le> p \<and> bit (toggle b) n)
      (concat (map (bit_boundaries inc) [0..<32])))) \<longleftrightarrow>
   n < 32 \<and> ((low < - (of_nat n * inc) \<and> - (of_nat n * inc) \<le> p) \<noteq>
     (low < - (of_nat n * inc) + 0x80000000 \<and> - (of_nat n * inc) + 0x80000000 \<le> p))"
proof -
  let ?Q = "\<lambda>b. low < boundary_phase b \<and> boundary_phase b \<le> p \<and> bit (toggle b) n"
  have other: "filter ?Q (bit_boundaries inc i) = []" if "n \<noteq> i" for i
    using that by (auto simp: bit_boundaries_def Let_def bit_exp_iff)
  have none: "concat (map (\<lambda>i. filter ?Q (bit_boundaries inc i)) is) = []" if "n \<notin> set is" for "is"
    using that by (induction "is") (simp_all add: other)
  have parts: "filter ?Q (concat (map (bit_boundaries inc) [0..<32])) =
      concat (map (\<lambda>i. filter ?Q (bit_boundaries inc i)) [0..<32])"
    by (simp add: filter_concat comp_def)
  show ?thesis
  proof (cases "n < 32")
    case True
    then have "[0..<32] = [0..<n] @ [n] @ [Suc n..<32]"
      using upt_add_eq_append [of 0 n "32 - n"] by (simp add: upt_conv_Cons)
    then have "filter ?Q (concat (map (bit_boundaries inc) [0..<32])) = filter ?Q (bit_boundaries inc n)"
      unfolding parts by (simp only: map_append concat_append none) (simp add: none)
    then show ?thesis using True
      by (auto simp: bit_boundaries_def Let_def bit_exp_iff)
  next
    case False
    then have "n \<notin> set [0..<32]" by simp
    from False show ?thesis unfolding parts none [OF \<open>n \<notin> set [0..<32]\<close>] by simp
  qed
qed


lemma lookup_build_table: "lookup (build_table inc) phase = oracle_word phase inc"
proof (rule bit_word_eqI)
  fix n
  define bs where "bs = sort_key boundary_phase (concat (map (bit_boundaries inc) [0..<32]))"
  define b where "b = build_bucket bs inc (unat (drop_bit 22 phase))"
  define low where "low = push_bit 22 (drop_bit 22 phase)"
  have table: "build_table inc = \<lparr>boundaries = bs, buckets = map (build_bucket bs inc) [0..<1024]\<rparr>"
    by (simp add: build_table_def bs_def Let_def)
  have "unat (drop_bit 22 phase) < 1024"
    using unsigned_less [of phase, where ?'a = nat]
    by (subst unsigned_drop_bit_eq) (simp add: drop_bit_eq_div take_bit_nat_eq_self)
  then have here: "buckets (build_table inc) ! unat (drop_bit 22 phase) = b" by (simp add: table b_def)
  have all: "boundaries (build_table inc) = bs" by (simp add: table)
  have sorted: "sorted (map boundary_phase bs)" by (simp add: bs_def)
  note window = bucket_window [OF sorted b_def, folded low_def]
  have permuted: "length (filter P bs) = length (filter P (concat (map (bit_boundaries inc) [0..<32])))" for P
    by (simp add: bs_def filter_sort)
  let ?x = "of_nat n * inc"
  have "bit (lookup (build_table inc) phase) n \<longleftrightarrow> bit (oracle_word low inc) n \<noteq>
      odd (length (filter (\<lambda>b. low < boundary_phase b \<and> boundary_phase b \<le> phase \<and> bit (toggle b) n) bs))"
    unfolding lookup_def here all Let_def bit_fold_xor window(1) window(3) ..
  also have "\<dots> \<longleftrightarrow> bit (oracle_word low inc) n \<noteq>
      (n < 32 \<and> ((low < - ?x \<and> - ?x \<le> phase) \<noteq> (low < - ?x + 0x80000000 \<and> - ?x + 0x80000000 \<le> phase)))"
    unfolding permuted odd_boundaries ..
  also have "\<dots> \<longleftrightarrow> n < 32 \<and> bit (phase + ?x) 31"
    unfolding crossings [OF window(2), of ?x] by (auto simp: oracle_word_bits bit_word_of_bits nco_def)
  finally show "bit (lookup (build_table inc) phase) n \<longleftrightarrow> bit (oracle_word phase inc) n"
    by (auto simp: oracle_word_bits bit_word_of_bits nco_def)
qed


section \<open>Rendering gives the bits of the plan\<close>

fun wave_bits :: "u32 \<Rightarrow> nat \<Rightarrow> segment list \<Rightarrow> bool list" where
  "wave_bits phase pos [] = []"
| "wave_bits phase pos (s # ss) =
     (let n = unat (end_sample s) - pos in
      (if increment s = 0 then replicate n False else nco phase (increment s) n) @
      wave_bits (phase + of_nat n * increment s) (unat (end_sample s)) ss)"

definition plan_bits :: "plan \<Rightarrow> bool list" where
  "plan_bits p = wave_bits 0 0 (segments p)"

definition packed :: "nat \<Rightarrow> bool list \<Rightarrow> u32 list" where
  "packed n bs = map (\<lambda>m. word_of_bits (take 32 (drop (32 * m) bs))) [0..<n]"

definition left :: "plan \<Rightarrow> waveform \<Rightarrow> bool list" where
  "left p w = wave_bits (wave_phase w) (unat (wave_position w)) (drop (wave_segment w) (segments p))"

definition tables_ok :: "waveform \<Rightarrow> bool" where
  "tables_ok w \<longleftrightarrow> length (tables w) = 4 \<and>
     (tables w = build_tables (table_increments w) \<or> table_increments w = replicate 4 0)"

definition tables_for :: "plan \<Rightarrow> waveform \<Rightarrow> bool" where
  "tables_for p w \<longleftrightarrow> tables_ok w \<and> table_increments w = tone_increments p"

definition wave_ok :: "plan \<Rightarrow> waveform \<Rightarrow> bool" where
  "wave_ok p w \<longleftrightarrow> wave_plan w = Some p \<and> legal_plan p \<and> tables_for p w \<and> wave_segment w \<le> length (segments p) \<and>
     legal_segments (tone_increments p) (wave_position w) (drop (wave_segment w) (segments p)) \<and>
     (wave_segment w = length (segments p) \<longrightarrow> wave_position w = total_samples p)"

lemma tables_for_simps [simp]:
  "tables_for p (w\<lparr>wave_segment := i\<rparr>) = tables_for p w" "tables_for p (w\<lparr>wave_position := n\<rparr>) = tables_for p w"
  "tables_for p (w\<lparr>wave_phase := x\<rparr>) = tables_for p w"
  by (simp_all add: tables_for_def tables_ok_def)

lemma nco_append: "nco phase inc (m + n) = nco phase inc m @ nco (phase + of_nat m * inc) inc n"
proof -
  have "map (\<lambda>i. bit (phase + of_nat i * inc) 31) [m..<m + n] = nco (phase + of_nat m * inc) inc n"
    by (auto simp: nco_def algebra_simps intro!: nth_equalityI)
  then show ?thesis by (simp add: nco_def upt_add_eq_append [of 0 m n, simplified])
qed

lemma nco_Suc: "nco phase inc (Suc n) = bit phase 31 # nco (phase + inc) inc n"
  using nco_append [of phase inc 1 n] by (simp add: nco_def)

lemma length_nco [simp]: "length (nco phase inc n) = n"
  by (simp add: nco_def)

lemma length_wave_bits:
  "legal_segments ts start ss \<Longrightarrow> ss \<noteq> [] \<Longrightarrow>
     length (wave_bits phase (unat start) ss) + unat start = unat (end_sample (last ss)) \<and> start < end_sample (last ss)"
proof (induction ss arbitrary: start phase)
  case (Cons s ss)
  show ?case
  proof (cases "ss = []")
    case False
    then show ?thesis using Cons.prems Cons.IH [of "end_sample s" "phase + of_nat (unat (end_sample s) - unat start) * increment s"]
      by (auto simp: Let_def word_less_nat_alt)
  qed (use Cons.prems in \<open>auto simp: Let_def word_less_nat_alt\<close>)
qed simp

text \<open>What remains after \<open>n\<close> samples of the current segment.\<close>

lemma wave_bits_split:
  assumes "pos + n \<le> unat (end_sample s)"
  shows "wave_bits phase pos (s # ss) =
    (if increment s = 0 then replicate n False else nco phase (increment s) n) @
    wave_bits (phase + of_nat n * increment s) (pos + n) (s # ss)"
proof -
  obtain m where m: "unat (end_sample s) - pos = n + m" using assms by (metis le_add_diff_inverse diff_add_inverse le_diff_conv2 add_leD1 add.commute)
  then have rest: "unat (end_sample s) - (pos + n) = m" by simp
  have word: "phase + of_nat (n + m) * increment s = phase + of_nat n * increment s + of_nat m * increment s"
    by (simp add: algebra_simps)
  show ?thesis
    unfolding wave_bits.simps m rest Let_def nco_append [of phase "increment s" n m] replicate_add [of n m] word by simp
qed

lemma wave_bits_done: "wave_bits phase (unat (end_sample s)) (s # ss) = wave_bits phase (unat (end_sample s)) ss"
  by (simp add: nco_def)

lemma left_length:
  assumes "wave_ok p w"
  shows "length (left p w) + unat (wave_position w) = unat (total_samples p)"
proof (cases "wave_segment w = length (segments p)")
  case True
  then show ?thesis using assms by (simp add: wave_ok_def left_def)
next
  case False
  then have "drop (wave_segment w) (segments p) \<noteq> []" using assms by (simp add: wave_ok_def)
  then show ?thesis using assms False
      length_wave_bits [of "tone_increments p" "wave_position w" "drop (wave_segment w) (segments p)" "wave_phase w"]
    by (simp add: wave_ok_def left_def legal_plan_def last_drop)
qed

lemma wave_running:
  assumes "wave_ok p w" "wave_position w < total_samples p"
  shows "wave_segment w < length (segments p)"
  using assms by (auto simp: wave_ok_def order_less_le)

lemma tone_table:
  assumes "legal_segments ts start ss" "s \<in> set ss" "increment s \<noteq> 0" "tables_for p w" "ts = tone_increments p"
    "length ts = 4"
  shows "tone_index s < length (tables w) \<and> tables w ! tone_index s = build_table (increment s)"
proof -
  have "tone_index s < length ts \<and> ts ! tone_index s = increment s"
    using assms(1,2,3) by (induction ss arbitrary: start) auto
  moreover have "ts \<noteq> replicate 4 0" using calculation assms(3) by auto
  ultimately show ?thesis using assms(4,5,6) by (auto simp: tables_for_def tables_ok_def build_tables_def)
qed


text \<open>A step of the loop, before the segment index is moved: the position may have reached the end of
  the current segment.\<close>

definition wave_mid :: "plan \<Rightarrow> segment \<Rightarrow> waveform \<Rightarrow> bool" where
  "wave_mid p s w \<longleftrightarrow> wave_plan w = Some p \<and> legal_plan p \<and> tables_for p w \<and> wave_segment w < length (segments p) \<and>
     s = segments p ! wave_segment w \<and> wave_position w \<le> end_sample s \<and>
     (increment s \<noteq> 0 \<longrightarrow> tone_index s < length (tone_increments p) \<and> tone_increments p ! tone_index s = increment s) \<and>
     legal_segments (tone_increments p) (end_sample s) (drop (Suc (wave_segment w)) (segments p))"

lemma wave_ok_mid:
  assumes "wave_ok p w" "wave_segment w < length (segments p)" "s = segments p ! wave_segment w"
  shows "wave_mid p s w" "wave_position w < end_sample s"
  using assms by (auto simp: wave_ok_def wave_mid_def Cons_nth_drop_Suc [symmetric])

lemma left_here:
  "wave_segment w < length (segments p) \<Longrightarrow>
     left p w = wave_bits (wave_phase w) (unat (wave_position w))
       (segments p ! wave_segment w # drop (Suc (wave_segment w)) (segments p))"
  by (simp add: left_def Cons_nth_drop_Suc del: wave_bits.simps)

lemma next_segment_ok:
  assumes "wave_mid p s (wave r)"
  shows "wave_ok p (wave (next_segment s r)) \<and> left p (wave (next_segment s r)) = left p (wave r) \<and>
    out_words (next_segment s r) = out_words r \<and> out_index (next_segment s r) = out_index r \<and>
    used_bits (next_segment s r) = used_bits r"
proof (cases "wave_position (wave r) = end_sample s")
  case True
  let ?w = "wave r"
  have here: "drop (wave_segment ?w) (segments p) = s # drop (Suc (wave_segment ?w)) (segments p)"
    using assms by (simp add: wave_mid_def Cons_nth_drop_Suc)
  have "end_sample s = total_samples p" if "Suc (wave_segment ?w) = length (segments p)"
  proof -
    have "wave_segment ?w = length (segments p) - 1" using that by simp
    then show ?thesis using assms by (auto simp: wave_mid_def legal_plan_def last_conv_nth)
  qed
  then show ?thesis using True assms
    by (auto simp: next_segment_def wave_ok_def wave_mid_def left_def here wave_bits_done simp del: wave_bits.simps)
next
  case False
  then show ?thesis using assms
    by (auto simp: next_segment_def wave_ok_def wave_mid_def Cons_nth_drop_Suc [symmetric] order_less_le)
qed


definition samples_written :: "rendering \<Rightarrow> nat" where
  "samples_written r = 32 * out_index r + used_bits r"

definition touched :: "rendering \<Rightarrow> nat" where
  "touched r = out_index r + (if used_bits r = 0 then 0 else 1)"

definition written :: "bool list \<Rightarrow> rendering \<Rightarrow> bool" where
  "written bs r \<longleftrightarrow> used_bits r < 32 \<and> touched r \<le> length (out_words r) \<and> samples_written r \<le> length bs \<and>
     (\<forall>m < touched r. out_words r ! m = word_of_bits (take 32 (drop (32 * m) (take (samples_written r) bs))))"

lemma word_prefix: "32 * m + 32 \<le> k \<Longrightarrow> take 32 (drop (32 * m) (take k bs)) = take 32 (drop (32 * m) bs)"
  by (simp add: drop_take min_def)

lemma word_of_bits_snoc:
  "length bs < 32 \<Longrightarrow> word_of_bits (bs @ [b]) = word_of_bits bs OR (if b then push_bit (length bs) 1 else 0)"
  by (rule bit_word_eqI) (auto simp: bit_word_of_bits bit_or_iff bit_exp_iff nth_append less_Suc_eq)

lemma drop_eq_Cons: "drop k xs = y # ys \<Longrightarrow> xs ! k = y \<and> k < length xs \<and> ys = drop (k + 1) xs"
  using tl_drop [of k xs] by (cases "k < length xs") (auto simp: nth_via_drop drop_Suc)

lemma render_bit_ok:
  assumes ok: "wave_ok p (wave r)" and running: "wave_position (wave r) < total_samples p"
    and bs: "left p (wave r) = drop (samples_written r) bs" and out: "written bs r"
    and room: "out_index r < length (out_words r)" and s: "s = segments p ! wave_segment (wave r)"
  shows "wave_mid p s (wave (render_bit s r)) \<and> samples_written (render_bit s r) = samples_written r + 1 \<and>
    left p (wave (render_bit s r)) = drop (samples_written r + 1) bs \<and> written bs (render_bit s r) \<and>
    length (out_words (render_bit s r)) = length (out_words r)"
proof -
  let ?w = "wave r" and ?r = "render_bit s r" and ?k = "samples_written r"
  note seg = wave_running [OF ok running]
  note mid = wave_ok_mid [OF ok seg s]
  let ?b = "increment s \<noteq> 0 \<and> bit (wave_phase ?w) 31"
  have step: "unat (wave_position ?w + 1) = unat (wave_position ?w) + 1"
    using mid(2) unat_u64_less [of "end_sample s"] by (subst unat_u64_plus) (simp_all add: word_less_nat_alt)
  have le: "wave_position ?w + 1 \<le> end_sample s" using mid(2) by (rule inc_le)
  have "unat (wave_position ?w) + 1 \<le> unat (end_sample s)" using le step by (simp add: word_le_nat_alt)
  from wave_bits_split [OF this, of "wave_phase ?w"]
  have split: "left p ?w = ?b # wave_bits (wave_phase ?w + increment s) (unat (wave_position ?w + 1))
      (s # drop (Suc (wave_segment ?w)) (segments p))"
    unfolding left_here [OF seg] s [symmetric] step by (simp add: nco_def del: wave_bits.simps)
  have wave: "wave ?r = ?w\<lparr>wave_phase := wave_phase ?w + increment s, wave_position := wave_position ?w + 1\<rparr>"
    by (simp add: render_bit_def Let_def split: prod.split)
  have k: "samples_written ?r = ?k + 1"
    using out by (auto simp: render_bit_def Let_def samples_written_def written_def split: prod.split)
  have here: "bs ! ?k = ?b" "?k < length bs" "left p (wave ?r) = drop (?k + 1) bs"
  proof -
    have "left p (wave ?r) = wave_bits (wave_phase ?w + increment s) (unat (wave_position ?w + 1))
        (s # drop (Suc (wave_segment ?w)) (segments p))"
      using Cons_nth_drop_Suc [OF seg, folded s] by (simp add: wave left_def del: wave_bits.simps)
    then have "drop ?k bs = ?b # left p (wave ?r)" using split bs by simp
    from drop_eq_Cons [OF this] show "bs ! ?k = ?b" "?k < length bs" "left p (wave ?r) = drop (?k + 1) bs"
      by (rule conjunct1, rule conjunct1 [OF conjunct2], rule conjunct2 [OF conjunct2])
  qed
  let ?i = "out_index r" and ?u = "used_bits r"
  let ?old = "drop (32 * ?i) (take ?k bs)"
  have u: "?u < 32" "?k = 32 * ?i + ?u" using out by (simp_all add: written_def samples_written_def)
  have old: "length ?old = ?u" using u here by simp
  have start: "(if ?u = 0 then 0 else out_words r ! ?i) = word_of_bits ?old"
    using out old by (auto simp: written_def touched_def word_of_bits_def samples_written_def)
  have "drop (32 * ?i) (take (?k + 1) bs) = ?old @ [?b]"
    using here u by (simp add: take_Suc_conv_app_nth)
  then have new: "word_of_bits (take 32 (drop (32 * ?i) (take (?k + 1) bs))) = word_of_bits ?old OR
      (if ?b then push_bit ?u 1 else 0)"
    using word_of_bits_snoc [of ?old ?b] old u by simp
  have words: "out_words ?r = (out_words r)[?i := word_of_bits (take 32 (drop (32 * ?i) (take (?k + 1) bs)))]"
    unfolding new start [symmetric] using room
    by (auto simp: render_bit_def Let_def drop_bit_31 split: prod.split)
  have "touched ?r = ?i + 1" using u by (auto simp: render_bit_def Let_def touched_def split: prod.split)
  moreover have "used_bits ?r < 32" using u by (auto simp: render_bit_def Let_def split: prod.split)
  moreover have "out_words r ! m = word_of_bits (take 32 (drop (32 * m) (take (?k + 1) bs)))" if "m < ?i" for m
    using out that u by (simp add: written_def touched_def word_prefix)
  ultimately have "written bs ?r" using room here
    by (auto simp: written_def words k nth_list_update less_Suc_eq)
  moreover have "wave_mid p s (wave ?r)" using mid(1) le unfolding wave wave_mid_def by auto
  ultimately show ?thesis using k here words by simp
qed


lemma emit_words:
  assumes "index + n \<le> length out"
  shows "fold (emit_word table stride index) [0..<n] (out, phase) =
    (take index out @ map (\<lambda>i. lookup table (phase + of_nat i * stride)) [0..<n] @ drop (index + n) out,
     phase + of_nat n * stride)"
  using assms
proof (induction n)
  case (Suc n)
  have "drop (index + n) out = out ! (index + n) # drop (Suc (index + n)) out"
    using Suc.prems by (simp add: Cons_nth_drop_Suc)
  then show ?case using Suc by (simp add: emit_word_def list_update_append algebra_simps)
qed simp

text \<open>Words of one oscillator run.\<close>

lemma nco_words:
  "m < n \<Longrightarrow> take 32 (drop (32 * m) (nco phase inc (32 * n) @ rest)) = nco (phase + of_nat m * (inc * 32)) inc 32"
proof -
  assume "m < n"
  then obtain d where "n = m + 1 + d" by (metis Suc_eq_plus1 add.assoc add.commute less_iff_Suc_add)
  then have "32 * n = 32 * m + (32 + 32 * d)" by simp
  then have "nco phase inc (32 * n) = nco phase inc (32 * m) @ nco (phase + of_nat (32 * m) * inc) inc 32 @
      nco (phase + of_nat (32 * m) * inc + of_nat 32 * inc) inc (32 * d)"
    by (simp only: nco_append)
  moreover have "32 * of_nat m * inc = of_nat m * (inc * 32)" by (simp add: ac_simps)
  ultimately show ?thesis by simp
qed

lemma silent_word [simp]: "word_of_bits (replicate n False) = 0"
  by (rule bit_word_eqI) (auto simp: bit_word_of_bits)

lemma silent_words: "word_of_bits (take 32 (drop k (replicate n False @ rest))) = 0" if "k + 32 \<le> n"
  using that by (intro bit_word_eqI) (auto simp: bit_word_of_bits)

lemma render_words_ok:
  assumes ok: "wave_ok p (wave r)" and running: "wave_position (wave r) < total_samples p"
    and bs: "left p (wave r) = drop (samples_written r) bs" and out: "written bs r"
    and s: "s = segments p ! wave_segment (wave r)" and n: "n = whole_words s r" "n \<noteq> 0"
  shows "\<exists>r'. render_words s n r = Some r' \<and> wave_mid p s (wave r') \<and> samples_written r' = samples_written r + 32 * n \<and>
    left p (wave r') = drop (samples_written r + 32 * n) bs \<and> written bs r' \<and>
    length (out_words r') = length (out_words r)"
proof -
  let ?w = "wave r" and ?k = "samples_written r" and ?i = "out_index r"
  note seg = wave_running [OF ok running]
  note mid = wave_ok_mid [OF ok seg s]
  have zero: "used_bits r = 0" and fit: "?i + n \<le> length (out_words r)"
    and inside: "n \<le> unat ((end_sample s - wave_position ?w) div 32)"
    using n by (auto simp: whole_words_def split: if_splits)
  have "32 * n \<le> unat (end_sample s - wave_position ?w)" using inside by (simp add: unat_div)
  then have le: "unat (wave_position ?w) + 32 * n \<le> unat (end_sample s)"
    using mid(2) by (simp add: unat_sub word_less_nat_alt order_less_imp_le word_le_nat_alt)
  let ?pos = "wave_position ?w + of_nat n * 32"
  have pos: "unat ?pos = unat (wave_position ?w) + 32 * n"
  proof -
    have "32 * n < 18446744073709551616" "unat (wave_position ?w) + 32 * n < 18446744073709551616"
      using le unat_u64_less [of "end_sample s"] by simp_all
    moreover have "unat (of_nat n * 32 :: u64) = 32 * n"
      using calculation by (simp add: unat_word_ariths unat_of_nat mult.commute)
    ultimately show ?thesis by (simp add: unat_u64_plus)
  qed
  have k: "?k = 32 * ?i" by (simp add: samples_written_def zero)
  let ?run = "if increment s = 0 then replicate (32 * n) False else nco (wave_phase ?w) (increment s) (32 * n)"
  let ?phase = "wave_phase ?w + of_nat n * (increment s * 32)"
  let ?w' = "?w\<lparr>wave_position := ?pos, wave_phase := ?phase\<rparr>"
  have run: "drop ?k bs = ?run @ left p ?w'"
    unfolding bs [symmetric] left_here [OF seg] s [symmetric] wave_bits_split [OF le, of "wave_phase ?w"]
    using Cons_nth_drop_Suc [OF seg, folded s]
    by (simp add: left_def pos algebra_simps del: wave_bits.simps)
  have enough: "?k + 32 * n \<le> length bs" 
    using arg_cong [OF run, of length] n(2) by (auto split: if_splits)
  have rest: "left p ?w' = drop (?k + 32 * n) bs"
    using arg_cong [OF run, of "drop (32 * n)"] by (simp add: add.commute)
  have bits: "take 32 (drop (32 * (?i + m)) bs) = take 32 (drop (32 * m) (?run @ left p ?w'))" for m
    using run by (metis add_mult_distrib2 drop_drop k add.commute)
  let ?ws = "map (\<lambda>m. word_of_bits (take 32 (drop (32 * (?i + m)) bs))) [0..<n]"
  let ?out = "take ?i (out_words r) @ ?ws @ drop (?i + n) (out_words r)"
  have words: "render_words s n r = Some (r\<lparr>out_words := ?out, out_index := ?i + n, wave := ?w'\<rparr>)"
  proof (cases "increment s = 0")
    case True
    then have "?ws = replicate n 0" unfolding bits by (auto simp: silent_words intro!: nth_equalityI)
    then show ?thesis using True by (simp add: render_words_def Let_def)
  next
    case False
    have tone: "tone_index s < length (tables ?w)" "tables ?w ! tone_index s = build_table (increment s)"
      using tone_table [of "tone_increments p" 0 "segments p" s p ?w] ok seg False
      by (simp_all add: wave_ok_def legal_plan_def s)
    have "lookup (build_table (increment s)) (wave_phase ?w + of_nat m * (increment s * 32)) =
        word_of_bits (take 32 (drop (32 * (?i + m)) bs))" if "m < n" for m
      using False unfolding bits by (simp only: lookup_build_table oracle_word_bits nco_words [OF that] if_False)
    then show ?thesis using False tone emit_words [OF fit] by (simp add: render_words_def Let_def algebra_simps)
  qed
  have "written bs (r\<lparr>out_words := ?out, out_index := ?i + n, wave := ?w'\<rparr>)"
  proof -
    have "32 * ?i + 32 * (m - ?i) = 32 * m" if "\<not> m < ?i" for m using that by simp
    then show ?thesis
      using out fit enough by (auto simp: written_def touched_def samples_written_def zero nth_append word_prefix)
  qed
  moreover have "wave_mid p s ?w'" using mid(1) pos le by (auto simp: wave_mid_def word_le_nat_alt)
  ultimately show ?thesis unfolding words using rest fit by (auto simp: samples_written_def zero)
qed


lemma render_step_ok:
  assumes "wave_ok p (wave r)" "wave_position (wave r) < total_samples p"
    "left p (wave r) = drop (samples_written r) bs" "written bs r" "out_index r < length (out_words r)"
  shows "\<exists>r'. render_step p r = Some r' \<and> wave_ok p (wave r') \<and> samples_written r < samples_written r' \<and>
    left p (wave r') = drop (samples_written r') bs \<and> written bs r' \<and> length (out_words r') = length (out_words r)"
proof -
  note seg = wave_running [OF assms(1,2)]
  let ?s = "segments p ! wave_segment (wave r)"
  obtain r' where r': "(if whole_words ?s r \<noteq> 0 then render_words ?s (whole_words ?s r) r else Some (render_bit ?s r)) = Some r'"
    "wave_mid p ?s (wave r')" "samples_written r < samples_written r'" "left p (wave r') = drop (samples_written r') bs"
    "written bs r'" "length (out_words r') = length (out_words r)"
  proof (cases "whole_words ?s r = 0")
    case True
    then show ?thesis using render_bit_ok [OF assms refl] that by simp
  next
    case False
    then show ?thesis using render_words_ok [OF assms(1-4) refl refl] that by auto
  qed
  then show ?thesis using seg next_segment_ok [OF r'(2)]
    by (auto simp: render_step_def Let_def written_def samples_written_def touched_def)
qed

lemma render_loop_ok:
  assumes "wave_ok p (wave r)" "left p (wave r) = drop (samples_written r) bs" "written bs r"
  shows "\<exists>r'. render_loop p r = Some r' \<and> wave_ok p (wave r') \<and>
    samples_written r' = min (32 * length (out_words r)) (length bs) \<and>
    left p (wave r') = drop (samples_written r') bs \<and> written bs r' \<and> length (out_words r') = length (out_words r)"
  using assms
proof (induction "length bs - samples_written r" arbitrary: r rule: less_induct)
  case less
  have k: "samples_written r \<le> length bs" "samples_written r \<le> 32 * length (out_words r)"
    using less.prems(3) by (auto simp: written_def touched_def samples_written_def split: if_splits)
  show ?case
  proof (cases "wave_position (wave r) < total_samples p \<and> out_index r < length (out_words r)")
    case True
    then obtain r' where r': "render_step p r = Some r'" "wave_ok p (wave r')" "samples_written r < samples_written r'"
      "left p (wave r') = drop (samples_written r') bs" "written bs r'" "length (out_words r') = length (out_words r)"
      using render_step_ok less.prems by blast
    moreover have "samples_written r' \<le> length bs" using r'(5) by (simp add: written_def)
    ultimately show ?thesis using True less.hyps [of r'] by (auto simp: render_loop.simps [of p r])
  next
    case False
    have "samples_written r = min (32 * length (out_words r)) (length bs)"
    proof (cases "wave_position (wave r) < total_samples p")
      case True
      then have "out_index r = length (out_words r)" "used_bits r = 0"
        using False less.prems(3) by (auto simp: written_def touched_def split: if_splits)
      then show ?thesis using k by (simp add: samples_written_def)
    next
      case over: False
      then have "length (left p (wave r)) = 0"
        using left_length [OF less.prems(1)] unfolding word_less_nat_alt by linarith
      then show ?thesis using less.prems(2) k by simp
    qed
    then show ?thesis using False less.prems by (auto simp: render_loop.simps [of p r])
  qed
qed

text \<open>One call of \<open>render\<close>: the words of the next bits, as many as there are.\<close>

lemma render_ok:
  assumes "wave_ok p w"
  shows "\<exists>w'. render out w = Some (of_nat (min (32 * length out) (length (left p w))), packed (length out) (left p w), w') \<and>
    wave_ok p w' \<and> left p w' = drop (32 * length out) (left p w)"
proof -
  let ?r = "\<lparr>out_words = out, out_index = 0, used_bits = 0, wave = w\<rparr>" and ?bs = "left p w"
  have "written ?bs ?r" "samples_written ?r = 0" by (simp_all add: written_def touched_def samples_written_def)
  then obtain r where r: "render_loop p ?r = Some r" "wave_ok p (wave r)"
    "samples_written r = min (32 * length out) (length ?bs)" "left p (wave r) = drop (samples_written r) ?bs"
    "written ?bs r" "length (out_words r) = length out"
    using render_loop_ok [of p ?r ?bs] assms by auto
  let ?k = "samples_written r"
  have position: "wave_position (wave r) - wave_position w = of_nat ?k"
  proof -
    have "unat (wave_position (wave r)) = unat (wave_position w) + ?k"
      using left_length [OF r(2)] left_length [OF assms] r(3,4) by simp
    then have "of_nat (unat (wave_position (wave r))) = (of_nat (unat (wave_position w)) + of_nat ?k :: u64)" by simp
    then show ?thesis by simp
  qed
  have "out_words r ! m = packed (length out) ?bs ! m" if "m < touched r" for m
  proof -
    have "m < length out" using that r(5,6) by (simp add: written_def)
    moreover have "take 32 (drop (32 * m) (take ?k ?bs)) = take 32 (drop (32 * m) ?bs)"
      using r(3) calculation by (cases "?k = length ?bs") (simp_all add: word_prefix)
    ultimately show ?thesis using that r(5) by (simp add: written_def packed_def)
  qed
  moreover have "packed (length out) ?bs ! m = 0" if "touched r \<le> m" "m < length out" for m
  proof -
    have "?k \<le> 32 * m" using that r(5) by (auto simp: touched_def samples_written_def written_def split: if_splits)
    then have "length ?bs \<le> 32 * m" using that r(3) by (auto simp: min_def split: if_splits)
    then show ?thesis using that by (simp add: packed_def word_of_bits_def)
  qed
  moreover have "touched r \<le> length out" using r(5,6) by (simp add: written_def)
  ultimately have words: "take (touched r) (out_words r) @ replicate (length out - touched r) 0 = packed (length out) ?bs"
    using r(6) by (intro nth_equalityI) (auto simp: nth_append packed_def)
  have "touched r = out_index r + (if used_bits r \<noteq> 0 then 1 else 0)" by (simp add: touched_def)
  then show ?thesis using r assms position words
    by (auto simp: render_def wave_ok_def Let_def min_def)
qed


section \<open>Properties\<close>

fun render_buffers :: "u32 list list \<Rightarrow> waveform \<Rightarrow> (u32 list list \<times> waveform) option" where
  "render_buffers [] w = Some ([], w)"
| "render_buffers (out # outs) w =
     (case render out w of None \<Rightarrow> None
      | Some (valid, words, w) \<Rightarrow> map_option (\<lambda>(ws, w). (words # ws, w)) (render_buffers outs w))"

lemma packed_append: "packed m bs @ packed n (drop (32 * m) bs) = packed (m + n) bs"
proof (rule nth_equalityI)
  fix i
  assume i: "i < length (packed m bs @ packed n (drop (32 * m) bs))"
  show "(packed m bs @ packed n (drop (32 * m) bs)) ! i = packed (m + n) bs ! i"
  proof (cases "i < m")
    case False
    then obtain d where "i = m + d" using le_Suc_ex not_less by blast
    then show ?thesis using i by (simp add: packed_def nth_append add_mult_distrib2 add.commute)
  qed (simp add: packed_def nth_append)
qed (simp add: packed_def)

lemma render_buffers_ok:
  assumes "wave_ok p w"
  shows "\<exists>ws w'. render_buffers outs w = Some (ws, w') \<and> wave_ok p w' \<and>
    concat ws = packed (length (concat outs)) (left p w) \<and> left p w' = drop (32 * length (concat outs)) (left p w)"
  using assms
proof (induction outs arbitrary: w)
  case (Cons out outs)
  obtain w' where w': "render out w = Some (of_nat (min (32 * length out) (length (left p w))), packed (length out) (left p w), w')"
    "wave_ok p w'" "left p w' = drop (32 * length out) (left p w)"
    using render_ok [OF Cons.prems] by blast
  then show ?case using Cons.IH [OF w'(2)]
    by (auto simp: packed_append add.commute add_mult_distrib2)
qed (simp add: packed_def)

lemma reset_waveform_ok:
  assumes "legal_plan p" "tables_ok w"
  shows "wave_ok p (reset_waveform p w)" "left p (reset_waveform p w) = plan_bits p"
proof -
  have "tables_for p (reset_waveform p w)"
    using assms by (auto simp: reset_waveform_def Let_def tables_for_def tables_ok_def legal_plan_def build_tables_def)
  then show "wave_ok p (reset_waveform p w)" using assms
    by (auto simp: wave_ok_def legal_plan_def reset_waveform_def Let_def)
  show "left p (reset_waveform p w) = plan_bits p"
    by (simp add: left_def plan_bits_def reset_waveform_def Let_def)
qed

text \<open>C29: a table gives in one lookup the 32 bits that the oscillator would produce one by one, for
  every increment and every phase, and so does the diagnostic packer once it is prepared.\<close>

theorem lookup_is_oscillator:
  "lookup (build_table inc) phase = oracle_word phase inc \<and>
   oracle_word phase inc = word_of_bits (nco phase inc 32) \<and>
   map (packed_word (prepare_word_tables \<lparr>shared_tables = ts, tables_ready = False\<rparr>) phase) [0..<4] =
   map (oracle_word phase) increments"
proof -
  have "length increments = 4" by (simp add: increments_def)
  then have "map (packed_word (prepare_word_tables \<lparr>shared_tables = ts, tables_ready = False\<rparr>) phase) [0..<4] =
      map (oracle_word phase) increments"
    by (intro nth_equalityI) (simp_all add: packed_word_def prepare_word_tables_def build_tables_def lookup_build_table)
  then show ?thesis by (simp add: lookup_build_table oracle_word_bits)
qed

text \<open>C28: the words handed to the device are exactly the waveform of the job. For a planned job and
  buffers of any sizes, whatever they held before, rendering never reads outside the plan or the
  tables, always returns, and the buffers together hold the bits of the plan in order (the top
  phase bits of each segment, the phase running on from segment to segment and frozen while the
  output is off), padded with zeros; the number of bits is the number of samples of the plan, and
  the generator can be reset to the next plan.\<close>

theorem rendering_exact:
  assumes "plan_job j correction_ppb = Some p" "tables_ok w"
  shows "\<exists>ws w'. render_buffers outs (reset_waveform p w) = Some (ws, w') \<and> tables_ok w' \<and>
    concat ws = packed (length (concat outs)) (plan_bits p) \<and> length (plan_bits p) = unat (total_samples p)"
proof -
  have legal: "legal_plan p" using plan_job_sound [OF assms(1)] by simp
  note ok = reset_waveform_ok [OF legal assms(2)]
  have "length (plan_bits p) = unat (total_samples p)"
    using left_length [OF ok(1)] ok(2) by (simp add: reset_waveform_def Let_def)
  then show ?thesis using render_buffers_ok [OF ok(1), of outs] ok(2)
    by (auto simp: wave_ok_def tables_for_def)
qed

lemma new_waveform_ok: "tables_ok new_waveform"
  by (simp add: tables_ok_def new_waveform_def)

theorem rendering_exact_witness:
  "\<exists>ws w'. render_buffers [[7, 7], [], [7, 7, 7, 7]] (reset_waveform keyed_plan new_waveform) = Some (ws, w') \<and>
    tables_ok w' \<and> concat ws = packed 6 (plan_bits keyed_plan) \<and> length (plan_bits keyed_plan) = 138"
proof -
  have "length (concat [[7, 7], [], [7, 7, 7, 7 :: u32]]) = 6" "unat (total_samples keyed_plan) = 138"
    by (simp_all add: keyed_plan_def)
  then show ?thesis
    using rendering_exact [OF keyed_job_planned new_waveform_ok, of "[[7, 7], [], [7, 7, 7, 7]]"] by metis
qed

end
