(* ===== verification/Pins.thy ===== *)
theory Pins
  imports Calibration
begin

text \<open>
  The allocation of the board's pins (\<open>src/hardware/pins.hpp\<close>, \<open>src/hardware/pins.cpp\<close>, lines 8-67)
  and the settings of the low-pass filter bank (\<open>src/hardware/filter_settings.hpp\<close> and
  \<open>filter_settings.cpp\<close>, lines 11-19 and 28-62). \<open>validate\<close> claims the pins one after the other in a
  table of owners and stops at the first conflict; the lemmas compare it with the statement that all
  pins are eligible and different. The JSON forms of both settings are not modelled.
\<close>

section \<open>Pins\<close>

record i2c_pair =
  controller :: u32
  sda :: u32
  scl :: u32

definition i2c_pairs :: "i2c_pair list" where
  "i2c_pairs = map (\<lambda>(c, d, l). \<lparr>controller = c, sda = d, scl = l\<rparr>)
     [(0, 0, 1), (0, 4, 5), (0, 8, 9), (0, 12, 13), (0, 16, 17), (0, 20, 21),
      (1, 2, 3), (1, 6, 7), (1, 10, 11), (1, 14, 15), (1, 18, 19), (1, 26, 27)]"

definition eligible :: "u32 \<Rightarrow> bool" where
  "eligible gp \<longleftrightarrow> gp \<le> 22 \<or> (gp \<ge> 26 \<and> gp \<le> 28)"

datatype pin_engine = DirectEngine | I2cEngine

datatype indicator_kind = OnboardIndicator | ExternalIndicator | DisabledIndicator

record pin_plan =
  pin_engine :: pin_engine
  rf_pin :: "u32 option"
  i2c_pair_index :: "u32 option"
  button_pin :: "u32 option"
  amplifier_pin :: "u32 option"
  lpf_pins :: "u32 list"
  indicator :: indicator_kind
  indicator_pin :: "u32 option"
  indicator_active_high :: bool
  amplifier_active_high :: bool

record validation =
  pin_error :: string
  pin_role :: string
  pin_owner :: string
  pin_gp :: "u32 option"
  pin_owners :: "string list"

definition no_validation :: validation where
  "no_validation = \<lparr>pin_error = [], pin_role = [], pin_owner = [], pin_gp = None, pin_owners = replicate 29 []\<rparr>"

definition pins_valid :: "validation \<Rightarrow> bool" where
  "pins_valid v \<longleftrightarrow> pin_error v = []"

definition fail_pins :: "string \<Rightarrow> string \<Rightarrow> validation \<Rightarrow> validation" where
  "fail_pins error role v = v\<lparr>pin_error := error, pin_role := role\<rparr>"

definition claim :: "u32 \<Rightarrow> string \<Rightarrow> validation \<Rightarrow> bool \<times> validation" where
  "claim gp role v =
     (if \<not> eligible gp then (False, (fail_pins ''invalid_gp'' role v)\<lparr>pin_gp := Some gp\<rparr>)
      else if pin_owners v ! unat gp \<noteq> [] then
        (False, (fail_pins ''pin_conflict'' role v)\<lparr>pin_gp := Some gp, pin_owner := pin_owners v ! unat gp\<rparr>)
      else (True, v\<lparr>pin_owners := (pin_owners v)[unat gp := role]\<rparr>))"

fun claim_all :: "(u32 \<times> string) list \<Rightarrow> validation \<Rightarrow> bool \<times> validation" where
  "claim_all [] v = (True, v)"
| "claim_all ((gp, role) # claims) v =
     (case claim gp role v of (claimed, v) \<Rightarrow> if claimed then claim_all claims v else (False, v))"

definition claim_some :: "u32 option \<Rightarrow> string \<Rightarrow> validation \<Rightarrow> bool \<times> validation" where
  "claim_some gp role v = (case gp of None \<Rightarrow> (True, v) | Some gp \<Rightarrow> claim gp role v)"

definition claim_pair :: "u32 option \<Rightarrow> validation \<Rightarrow> bool \<times> validation" where
  "claim_pair index v =
     (case index of None \<Rightarrow> (True, v)
      | Some i \<Rightarrow>
          if unat i \<ge> length i2c_pairs then (False, fail_pins ''invalid_pair'' ''i2c'' v)
          else let pair = i2c_pairs ! unat i in claim_all [(sda pair, ''i2c_sda''), (scl pair, ''i2c_scl'')] v)"

definition claim_filters :: "u32 list \<Rightarrow> validation \<Rightarrow> bool \<times> validation" where
  "claim_filters gps v =
     (if length gps > 26 then (False, fail_pins ''too_many_selectors'' ''lpf'' v)
      else claim_all (map (\<lambda>i. (gps ! i, ''lpf_'' @ decimal i)) [0..<length gps]) v)"

definition claim_indicator :: "pin_plan \<Rightarrow> validation \<Rightarrow> bool \<times> validation" where
  "claim_indicator p v =
     (if (indicator p = ExternalIndicator) \<noteq> (indicator_pin p \<noteq> None)
      then (False, fail_pins ''indicator_allocation'' ''indicator'' v)
      else claim_some (indicator_pin p) ''indicator'' v)"

text \<open>A stage runs only when the ones before it have succeeded.\<close>

definition and_then :: "bool \<times> validation \<Rightarrow> (validation \<Rightarrow> bool \<times> validation) \<Rightarrow> bool \<times> validation" where
  "and_then r f = (case r of (ok, v) \<Rightarrow> if ok then f v else (False, v))"

definition validate_pins :: "pin_plan \<Rightarrow> validation" where
  "validate_pins p =
     (if (pin_engine p = DirectEngine \<and> (rf_pin p = None \<or> i2c_pair_index p \<noteq> None)) \<or>
         (pin_engine p = I2cEngine \<and> (rf_pin p \<noteq> None \<or> i2c_pair_index p = None))
      then fail_pins ''engine_allocation'' ''rf'' no_validation
      else snd (and_then (and_then (and_then (and_then (and_then
        (claim_some (rf_pin p) ''rf'' no_validation)
        (claim_pair (i2c_pair_index p)))
        (claim_some (button_pin p) ''button''))
        (claim_some (amplifier_pin p) ''amplifier''))
        (claim_filters (lpf_pins p)))
        (claim_indicator p)))"

section \<open>Filter settings\<close>

record filter_output =
  fo_id :: u32
  fo_gp :: u32
  fo_name :: string
  fo_active_high :: bool

record filter_range =
  fr_name :: string
  fr_selector :: u32
  low_hz :: u32
  high_hz :: u32

definition maximum_outputs :: u32 where
  "maximum_outputs = 5"

definition maximum_delay_ms :: u32 where
  "maximum_delay_ms = 250"

record filter_settings =
  filter_required :: bool
  release_ms :: u32
  settle_ms :: u32
  output_count :: nat
  range_count :: nat
  filter_outputs :: "filter_output list"
  filter_ranges :: "filter_range list"

definition preparation_ns :: "filter_settings \<Rightarrow> u64" where
  "preparation_ns s = (if filter_required s then ucast (release_ms s + settle_ms s) * 1000000 else 0)"

definition name_char :: "char \<Rightarrow> bool" where
  "name_char c \<longleftrightarrow>
     (let n = of_char c :: nat; within = \<lambda>lo hi. of_char lo \<le> n \<and> n \<le> of_char hi in
      within CHR ''a'' CHR ''z'' \<or> within CHR ''A'' CHR ''Z'' \<or> within CHR ''0'' CHR ''9'' \<or>
      c \<in> {CHR '' '', CHR ''-'', CHR ''_'', CHR ''/''})"

definition name_valid :: "string \<Rightarrow> bool" where
  "name_valid s \<longleftrightarrow>
     \<not> (s = [] \<or> length s > 16 \<or> hd s = CHR '' '' \<or> last s = CHR '' '') \<and> list_all name_char s"

fun validate_outputs :: "filter_output list \<Rightarrow> filter_output list \<Rightarrow> string" where
  "validate_outputs seen [] = []"
| "validate_outputs seen (f # fs) =
     (if fo_id f = 0 \<or> fo_id f > maximum_outputs \<or> \<not> name_valid (fo_name f) then ''invalid_filter_selector''
      else if \<exists>g \<in> set seen. fo_id g = fo_id f \<or> fo_name g = fo_name f then ''duplicate_filter_selector''
      else validate_outputs (seen @ [f]) fs)"

fun clash_with :: "filter_range \<Rightarrow> filter_range list \<Rightarrow> string" where
  "clash_with r [] = []"
| "clash_with r (p # ps) =
     (if fr_name p = fr_name r then ''duplicate_filter_range''
      else if fr_selector p \<noteq> fr_selector r \<and> low_hz r \<le> high_hz p \<and> low_hz p \<le> high_hz r
      then ''ambiguous_filter_range''
      else clash_with r ps)"

fun validate_ranges :: "filter_output list \<Rightarrow> filter_range list \<Rightarrow> filter_range list \<Rightarrow> string" where
  "validate_ranges fos seen [] = []"
| "validate_ranges fos seen (r # rs) =
     (if \<not> (\<exists>f \<in> set fos. fo_id f = fr_selector r) \<or> \<not> name_valid (fr_name r) \<or> low_hz r = 0 \<or>
         high_hz r > 1000000000 \<or> low_hz r > high_hz r
      then ''invalid_filter_range''
      else let clash = clash_with r seen in
        if clash \<noteq> [] then clash else validate_ranges fos (seen @ [r]) rs)"

definition used_outputs :: "filter_settings \<Rightarrow> filter_output list" where
  "used_outputs s = take (output_count s) (filter_outputs s)"

definition used_ranges :: "filter_settings \<Rightarrow> filter_range list" where
  "used_ranges s = take (range_count s) (filter_ranges s)"

definition validate_filters :: "filter_settings \<Rightarrow> pin_plan \<Rightarrow> string" where
  "validate_filters s pins =
     (if output_count s > length (filter_outputs s) \<or> range_count s > length (filter_ranges s) \<or>
         release_ms s > maximum_delay_ms \<or> settle_ms s > maximum_delay_ms then ''filter_limits''
      else
        let checked = validate_outputs [] (used_outputs s) in
        if checked \<noteq> [] then checked
        else
          let allocation = validate_pins (pins\<lparr>lpf_pins := lpf_pins pins @ map fo_gp (used_outputs s)\<rparr>) in
          if \<not> pins_valid allocation
          then ''filter_'' @ pin_error allocation @ ''_'' @ pin_role allocation @ ''_'' @ pin_owner allocation
          else validate_ranges (used_outputs s) [] (used_ranges s))"


section \<open>The pin check is exact\<close>

definition claimed :: "u32 list \<Rightarrow> validation \<Rightarrow> bool" where
  "claimed gps v \<longleftrightarrow> pin_error v = [] \<and> length (pin_owners v) = 29 \<and> distinct gps \<and> list_all eligible gps \<and>
     (\<forall>g. eligible g \<longrightarrow> (pin_owners v ! unat g \<noteq> [] \<longleftrightarrow> g \<in> set gps))"

definition claims :: "bool \<Rightarrow> u32 list \<Rightarrow> u32 list \<Rightarrow> bool \<times> validation \<Rightarrow> bool" where
  "claims legal gps fresh r \<longleftrightarrow> (fst r \<longleftrightarrow> legal \<and> distinct (gps @ fresh) \<and> list_all eligible (gps @ fresh)) \<and>
     (if fst r then claimed (gps @ fresh) (snd r) else pin_error (snd r) \<noteq> [])"

lemma eligible_unat: "eligible g \<Longrightarrow> unat g < 29"
  by (auto simp: eligible_def word_le_nat_alt)

lemma claim_claims: "claimed gps v \<Longrightarrow> role \<noteq> [] \<Longrightarrow> claims True gps [g] (claim g role v)"
  by (auto simp: claims_def claimed_def claim_def fail_pins_def nth_list_update eligible_unat
      simp flip: word_unat_eq_iff)

lemma claims_then:
  assumes "claims c gps a r" "\<And>v. claimed (gps @ a) v \<Longrightarrow> claims d (gps @ a) b (f v)"
  shows "claims (c \<and> d) gps (a @ b) (and_then r f)"
proof (cases r)
  case (Pair ok v)
  show ?thesis
  proof (cases ok)
    case True
    then have "claimed (gps @ a) v" "c" using assms(1) Pair by (simp_all add: claims_def)
    with assms(2) [OF this(1)] show ?thesis using Pair True by (auto simp: claims_def and_then_def)
  next
    case False
    then show ?thesis using assms(1) Pair by (auto simp: claims_def and_then_def)
  qed
qed

lemma claim_nothing: "claimed gps v \<Longrightarrow> claims True gps [] (True, v)"
  by (simp add: claims_def claimed_def)

lemma claim_all_claims:
  "claimed gps v \<Longrightarrow> list_all (\<lambda>c. snd c \<noteq> []) cs \<Longrightarrow> claims True gps (map fst cs) (claim_all cs v)"
proof (induction cs arbitrary: gps v)
  case (Cons c cs)
  have "claim_all (c # cs) v = and_then (claim (fst c) (snd c) v) (claim_all cs)"
    by (cases c) (simp add: and_then_def)
  moreover have "claims (True \<and> True) gps ([fst c] @ map fst cs) (and_then (claim (fst c) (snd c) v) (claim_all cs))"
    using Cons.prems by (intro claims_then claim_claims Cons.IH) simp_all
  ultimately show ?case by simp
qed (simp add: claim_nothing)

lemma claim_some_claims:
  "claimed gps v \<Longrightarrow> role \<noteq> [] \<Longrightarrow> claims True gps (List.map_filter id [g]) (claim_some g role v)"
  by (cases g) (simp_all add: claim_some_def map_filter_simps claim_claims claim_nothing)

definition pair_pins :: "u32 option \<Rightarrow> u32 list" where
  "pair_pins index = (case index of None \<Rightarrow> [] | Some i \<Rightarrow> let pair = i2c_pairs ! unat i in [sda pair, scl pair])"

lemma claim_pair_claims:
  assumes "claimed gps v"
  shows "claims (\<forall>i. index = Some i \<longrightarrow> i < 12) gps (pair_pins index) (claim_pair index v)"
proof (cases index)
  case None
  then show ?thesis using assms by (simp add: claim_pair_def pair_pins_def claim_nothing)
next
  case (Some i)
  have "length i2c_pairs = 12" by (simp add: i2c_pairs_def)
  then have pairs: "unat i \<ge> length i2c_pairs \<longleftrightarrow> \<not> i < 12" by (simp add: word_less_nat_alt not_less)
  show ?thesis
  proof (cases "i < 12")
    case True
    then show ?thesis using Some pairs assms
        claim_all_claims [of gps v "[(sda (i2c_pairs ! unat i), ''i2c_sda''), (scl (i2c_pairs ! unat i), ''i2c_scl'')]"]
      by (simp add: claim_pair_def pair_pins_def Let_def)
  next
    case False
    then show ?thesis using Some pairs by (simp add: claim_pair_def claims_def fail_pins_def)
  qed
qed

lemma claim_filters_claims:
  "claimed gps v \<Longrightarrow> claims (length fs \<le> 26) gps fs (claim_filters fs v)"
  using claim_all_claims [of gps v "map (\<lambda>i. (fs ! i, ''lpf_'' @ decimal i)) [0..<length fs]"]
  by (auto simp: claim_filters_def claims_def fail_pins_def list_all_length comp_def map_nth)

lemma claim_indicator_claims:
  "claimed gps v \<Longrightarrow> claims ((indicator p = ExternalIndicator) = (indicator_pin p \<noteq> None)) gps
     (List.map_filter id [indicator_pin p]) (claim_indicator p v)"
  using claim_some_claims [of gps v "''indicator''" "indicator_pin p"]
  by (auto simp: claim_indicator_def claims_def fail_pins_def)

definition pin_resources :: "pin_plan \<Rightarrow> u32 list" where
  "pin_resources p = ((((List.map_filter id [rf_pin p] @ pair_pins (i2c_pair_index p)) @
     List.map_filter id [button_pin p]) @ List.map_filter id [amplifier_pin p]) @ lpf_pins p) @
     List.map_filter id [indicator_pin p]"

definition well_allocated :: "pin_plan \<Rightarrow> bool" where
  "well_allocated p \<longleftrightarrow>
     (case pin_engine p of DirectEngine \<Rightarrow> rf_pin p \<noteq> None \<and> i2c_pair_index p = None
      | I2cEngine \<Rightarrow> rf_pin p = None \<and> (\<exists>i. i2c_pair_index p = Some i \<and> i < 12)) \<and>
     length (lpf_pins p) \<le> 26 \<and> (indicator p = ExternalIndicator) = (indicator_pin p \<noteq> None) \<and>
     distinct (pin_resources p) \<and> list_all eligible (pin_resources p)"

lemma validate_pins_iff: "pins_valid (validate_pins p) \<longleftrightarrow> well_allocated p"
proof -
  have blank: "claimed [] no_validation" by (simp add: claimed_def no_validation_def eligible_unat)
  have stages: "claims (((((True \<and> (\<forall>i. i2c_pair_index p = Some i \<longrightarrow> i < 12)) \<and> True) \<and> True) \<and> length (lpf_pins p) \<le> 26) \<and>
      (indicator p = ExternalIndicator) = (indicator_pin p \<noteq> None)) [] (pin_resources p)
    (and_then (and_then (and_then (and_then (and_then
        (claim_some (rf_pin p) ''rf'' no_validation)
        (claim_pair (i2c_pair_index p)))
        (claim_some (button_pin p) ''button''))
        (claim_some (amplifier_pin p) ''amplifier''))
        (claim_filters (lpf_pins p)))
        (claim_indicator p))"
    unfolding pin_resources_def
    by (intro claims_then claim_pair_claims claim_filters_claims claim_indicator_claims claim_some_claims blank)
      (simp_all add: claim_some_claims)
  show ?thesis
  proof (cases "(pin_engine p = DirectEngine \<and> (rf_pin p = None \<or> i2c_pair_index p \<noteq> None)) \<or>
         (pin_engine p = I2cEngine \<and> (rf_pin p \<noteq> None \<or> i2c_pair_index p = None))")
    case True
    then show ?thesis
      by (auto simp: validate_pins_def pins_valid_def fail_pins_def well_allocated_def split: pin_engine.split)
  next
    case False
    then show ?thesis using stages
      by (cases "pin_engine p") (auto simp: validate_pins_def pins_valid_def well_allocated_def claims_def claimed_def)
  qed
qed


section \<open>Unambiguous filters\<close>

definition compatible :: "filter_range \<Rightarrow> filter_range \<Rightarrow> bool" where
  "compatible r p \<longleftrightarrow> fr_selector p = fr_selector r \<or> \<not> (low_hz r \<le> high_hz p \<and> low_hz p \<le> high_hz r)"

definition legal_range :: "filter_output list \<Rightarrow> filter_range \<Rightarrow> bool" where
  "legal_range fos r \<longleftrightarrow> (\<exists>f \<in> set fos. fo_id f = fr_selector r) \<and> low_hz r > 0 \<and> low_hz r \<le> high_hz r \<and>
     high_hz r \<le> 1000000000"

lemma clash_with_none: "clash_with r ps = [] \<longleftrightarrow> list_all (\<lambda>p. fr_name p \<noteq> fr_name r \<and> compatible r p) ps"
  by (induction ps) (auto simp: compatible_def)

lemma validate_ranges_sound:
  "validate_ranges fos seen rs = [] \<Longrightarrow>
     list_all (legal_range fos) rs \<and> list_all (\<lambda>r. list_all (compatible r) seen) rs \<and>
     sorted_wrt (\<lambda>p r. compatible r p) rs"
proof (induction fos seen rs rule: validate_ranges.induct)
  case (2 fos seen r rs)
  then have "clash_with r seen = []" "validate_ranges fos (seen @ [r]) rs = []" "legal_range fos r"
    by (auto simp: Let_def legal_range_def word_gt_0 not_less split: if_splits)
  with "2.IH" 2 show ?case
    by (auto simp: clash_with_none list_all_iff Let_def split: if_splits)
qed simp

lemma validate_outputs_sound:
  "validate_outputs seen fs = [] \<Longrightarrow> distinct (map fo_id seen) \<Longrightarrow> distinct (map fo_id (seen @ fs))"
proof (induction seen fs rule: validate_outputs.induct)
  case (2 seen f fs)
  then have "fo_id f \<notin> fo_id ` set seen" "validate_outputs (seen @ [f]) fs = []" by (force split: if_splits)+
  with 2 show ?case by (simp split: if_splits)
qed simp

lemma validate_filters_sound:
  assumes "validate_filters s pins = []"
  shows "well_allocated (pins\<lparr>lpf_pins := lpf_pins pins @ map fo_gp (used_outputs s)\<rparr>) \<and>
    distinct (map fo_id (used_outputs s)) \<and> list_all (legal_range (used_outputs s)) (used_ranges s) \<and>
    (\<forall>r \<in> set (used_ranges s). \<forall>q \<in> set (used_ranges s). compatible r q)"
proof -
  have outputs: "validate_outputs [] (used_outputs s) = []"
    and pins: "well_allocated (pins\<lparr>lpf_pins := lpf_pins pins @ map fo_gp (used_outputs s)\<rparr>)"
    and ranges: "validate_ranges (used_outputs s) [] (used_ranges s) = []"
    using assms by (auto simp: validate_filters_def Let_def validate_pins_iff split: if_splits)
  have "compatible r q" if "r \<in> set (used_ranges s)" "q \<in> set (used_ranges s)" for r q
  proof -
    have refl: "compatible x x" for x by (simp add: compatible_def)
    have sym: "compatible x y \<longleftrightarrow> compatible y x" for x y by (auto simp: compatible_def)
    obtain i k where ik: "i < length (used_ranges s)" "k < length (used_ranges s)" "r = used_ranges s ! i" "q = used_ranges s ! k"
      using \<open>r \<in> _\<close> \<open>q \<in> _\<close> by (auto simp: in_set_conv_nth)
    then show ?thesis using validate_ranges_sound [OF ranges] sym
      by (cases i k rule: linorder_cases) (auto simp: sorted_wrt_iff_nth_less refl)
  qed
  then show ?thesis using pins validate_outputs_sound [OF outputs] validate_ranges_sound [OF ranges] by simp
qed


section \<open>Properties\<close>

text \<open>C35: the pin check is exact. A plan passes \<open>validate\<close> if and only if it is well allocated: the
  engine has the pins it needs and no others, an I2C pair exists, there are at most 26 filter pins,
  an indicator pin is given exactly for an external indicator, and all pins together are eligible
  pins of the board and no pin is used twice.\<close>

theorem pin_validation_exact:
  "pins_valid (validate_pins p) \<longleftrightarrow>
     (case pin_engine p of DirectEngine \<Rightarrow> rf_pin p \<noteq> None \<and> i2c_pair_index p = None
      | I2cEngine \<Rightarrow> rf_pin p = None \<and> (\<exists>i. i2c_pair_index p = Some i \<and> i < 12)) \<and>
     length (lpf_pins p) \<le> 26 \<and> (indicator p = ExternalIndicator) = (indicator_pin p \<noteq> None) \<and>
     distinct (pin_resources p) \<and> list_all eligible (pin_resources p)"
  by (simp only: validate_pins_iff well_allocated_def)

text \<open>Accepted filter settings leave no doubt about the filter. When \<open>validate_filters\<close> accepts
  settings, every filter pin is free and eligible beside the pins of the plan, the selectors have
  different numbers, every range belongs to a selector, and no frequency lies in ranges of two
  different selectors.\<close>

theorem filters_unambiguous:
  assumes "validate_filters s pins = []"
  shows "pins_valid (validate_pins (pins\<lparr>lpf_pins := lpf_pins pins @ map fo_gp (used_outputs s)\<rparr>)) \<and>
    distinct (map fo_id (used_outputs s)) \<and> list_all (legal_range (used_outputs s)) (used_ranges s) \<and>
    (r \<in> set (used_ranges s) \<and> q \<in> set (used_ranges s) \<and> low_hz r \<le> f \<and> f \<le> high_hz r \<and> low_hz q \<le> f \<and>
       f \<le> high_hz q \<longrightarrow> fr_selector r = fr_selector q)"
proof -
  have "fr_selector r = fr_selector q"
    if "r \<in> set (used_ranges s)" "q \<in> set (used_ranges s)" "low_hz r \<le> f" "f \<le> high_hz r" "low_hz q \<le> f" "f \<le> high_hz q"
  proof -
    have "compatible r q" using validate_filters_sound [OF assms] that by blast
    moreover have "low_hz r \<le> high_hz q" "low_hz q \<le> high_hz r" using that by simp_all
    ultimately show ?thesis by (auto simp: compatible_def)
  qed
  then show ?thesis using validate_filters_sound [OF assms] validate_pins_iff by auto
qed

definition sample_pins :: pin_plan where
  "sample_pins = \<lparr>pin_engine = DirectEngine, rf_pin = Some 2, i2c_pair_index = None, button_pin = Some 14,
     amplifier_pin = None, lpf_pins = [], indicator = OnboardIndicator, indicator_pin = None,
     indicator_active_high = True, amplifier_active_high = True\<rparr>"

definition sample_output :: "u32 \<Rightarrow> u32 \<Rightarrow> string \<Rightarrow> filter_output" where
  "sample_output i gp name = \<lparr>fo_id = i, fo_gp = gp, fo_name = name, fo_active_high = True\<rparr>"

definition sample_range :: "string \<Rightarrow> u32 \<Rightarrow> u32 \<Rightarrow> u32 \<Rightarrow> filter_range" where
  "sample_range name selector low high = \<lparr>fr_name = name, fr_selector = selector, low_hz = low, high_hz = high\<rparr>"

definition sample_filters :: filter_settings where
  "sample_filters =
     \<lparr>filter_required = True, release_ms = 20, settle_ms = 20, output_count = 2, range_count = 2,
      filter_outputs = [sample_output 1 10 ''40m'', sample_output 2 11 ''20m'', sample_output 0 0 [],
        sample_output 0 0 [], sample_output 0 0 []],
      filter_ranges = [sample_range ''40m'' 1 7000000 7200000, sample_range ''20m'' 2 14000000 14350000] @
        replicate 8 (sample_range [] 0 0 0)\<rparr>"

lemma sample_filters_valid: "validate_filters sample_filters sample_pins = []"
  by code_simp

theorem filters_unambiguous_witness:
  "pins_valid (validate_pins (sample_pins\<lparr>lpf_pins := [10, 11]\<rparr>))"
  using filters_unambiguous [OF sample_filters_valid]
  by (simp add: sample_filters_def sample_pins_def used_outputs_def sample_output_def)

end
