(* ===== verification/Rf_Switching.thy ===== *)
theory Rf_Switching
  imports Pins Waveform_Plan
begin

text \<open>
  Output switching: the amplifier enable line (\<open>src/rf/amplifier_enable.hpp\<close>,
  \<open>src/rf/amplifier_timing.hpp\<close>) and the low-pass filter selector
  (\<open>src/rf/filter_selector.hpp\<close>, \<open>src/rf/filter_selector.cpp\<close>). The adapters that drive the pins
  are interfaces of the platform: records of operations on an adapter state \<open>'o\<close>. Both classes
  remember whether the output is known to be inactive, and act only from there.
\<close>

section \<open>Amplifier enable\<close>

record amplifier_timing =
  lead_ms :: u32
  tail_ms :: u32

definition timing_valid :: "amplifier_timing \<Rightarrow> bool" where
  "timing_valid t \<longleftrightarrow> lead_ms t \<le> 1000 \<and> tail_ms t \<le> 1000"

definition lead_ns :: "amplifier_timing \<Rightarrow> u64" where
  "lead_ns t = ucast (lead_ms t) * 1000000"

definition tail_ns :: "amplifier_timing \<Rightarrow> u64" where
  "tail_ns t = ucast (tail_ms t) * 1000000"

record 'o enable_output =
  out_initialize_inactive :: "'o \<Rightarrow> bool \<times> 'o"
  out_write :: "bool \<Rightarrow> 'o \<Rightarrow> bool \<times> 'o"
  out_verify_active :: "'o \<Rightarrow> bool"

record 'o amplifier =
  amp_output :: "'o enable_output option"
  amp_timing :: amplifier_timing
  amp_initialized :: bool
  amp_known_inactive :: bool
  amp_pad :: 'o

definition amplifier_enabled :: "'o amplifier \<Rightarrow> bool" where
  "amplifier_enabled a \<longleftrightarrow> amp_output a \<noteq> None"

definition initialize_amplifier :: "'o amplifier \<Rightarrow> bool \<times> 'o amplifier" where
  "initialize_amplifier a =
     (let (inactive, pad) =
        (if \<not> timing_valid (amp_timing a) then (False, amp_pad a)
         else case amp_output a of None \<Rightarrow> (True, amp_pad a) | Some out \<Rightarrow> out_initialize_inactive out (amp_pad a))
      in (inactive, a\<lparr>amp_known_inactive := inactive, amp_initialized := inactive, amp_pad := pad\<rparr>))"

definition activate_amplifier :: "'o amplifier \<Rightarrow> bool \<times> 'o amplifier" where
  "activate_amplifier a =
     (case amp_output a of None \<Rightarrow> (True, a)
      | Some out \<Rightarrow>
          if \<not> amp_initialized a \<or> \<not> amp_known_inactive a then (False, a)
          else (case out_write out True (amp_pad a) of
            (accepted, pad) \<Rightarrow> (accepted, a\<lparr>amp_known_inactive := False, amp_pad := pad\<rparr>)))"

definition deactivate_amplifier :: "'o amplifier \<Rightarrow> bool \<times> 'o amplifier" where
  "deactivate_amplifier a =
     (case amp_output a of None \<Rightarrow> (True, a)
      | Some out \<Rightarrow>
          (case (if amp_initialized a then out_write out False (amp_pad a)
                 else out_initialize_inactive out (amp_pad a)) of
             (inactive, pad) \<Rightarrow>
               (inactive, a\<lparr>amp_known_inactive := inactive, amp_initialized := amp_initialized a \<or> inactive,
                  amp_pad := pad\<rparr>)))"

definition amplifier_active_or_unknown :: "'o amplifier \<Rightarrow> bool" where
  "amplifier_active_or_unknown a \<longleftrightarrow> amp_output a \<noteq> None \<and> \<not> amp_known_inactive a"

definition verify_amplifier :: "'o amplifier \<Rightarrow> bool" where
  "verify_amplifier a \<longleftrightarrow>
     (case amp_output a of None \<Rightarrow> False
      | Some out \<Rightarrow> amp_initialized a \<and> \<not> amp_known_inactive a \<and> out_verify_active out (amp_pad a))"

text \<open>\<open>LaunchEnable\<close>: the last check before a launch. \<open>chain\<close> is the optional check of the whole
  chain; the result tells whether the launch may go on and whether the verification hook is called.\<close>

definition launch_enable :: "bool option \<Rightarrow> bool \<Rightarrow> bool \<Rightarrow> 'o amplifier option \<Rightarrow> (bool \<times> bool) \<times> 'o amplifier option" where
  "launch_enable chain hooked already_active amplifier =
     (if chain = Some False then ((False, False), amplifier)
      else case amplifier of None \<Rightarrow> ((True, False), None)
        | Some a \<Rightarrow>
            (case (if already_active then (verify_amplifier a, a) else activate_amplifier a) of
               (accepted, a) \<Rightarrow>
                 ((accepted, accepted \<and> amplifier_enabled a \<and> \<not> already_active \<and> hooked), Some a)))"

section \<open>Filter coverage\<close>

record coverage =
  path_mask :: u32
  coverage_seen :: bool

definition new_coverage :: coverage where
  "new_coverage = \<lparr>path_mask = 31, coverage_seen = False\<rparr>"

definition hz_to_nhz :: "u32 \<Rightarrow> u64" where
  "hz_to_nhz hz = ucast hz * 1000000000"

definition range_step :: "filter_output \<Rightarrow> u64 \<Rightarrow> u64 \<Rightarrow> filter_range \<Rightarrow> bool \<times> bool \<Rightarrow> bool \<times> bool" where
  "range_step f nominal programmed r acc =
     (case acc of (requested, realized) \<Rightarrow>
        if fr_selector r \<noteq> fo_id f then (requested, realized)
        else
          let low = hz_to_nhz (low_hz r); high = hz_to_nhz (high_hz r) in
          (requested \<or> (nominal \<ge> low \<and> nominal \<le> high), realized \<or> (programmed > low \<and> programmed < high)))"

definition path_covers :: "filter_settings \<Rightarrow> u64 \<Rightarrow> u64 \<Rightarrow> filter_output \<Rightarrow> bool" where
  "path_covers s nominal programmed f =
     (case fold (range_step f nominal programmed) (used_ranges s) (False, False) of
        (requested, realized) \<Rightarrow> requested \<and> realized)"

definition covering_paths :: "filter_settings \<Rightarrow> u64 \<Rightarrow> u64 \<Rightarrow> u32" where
  "covering_paths s nominal programmed =
     fold (\<lambda>i paths. if path_covers s nominal programmed (used_outputs s ! i) then paths OR push_bit i 1 else paths)
       [0..<length (used_outputs s)] 0"

definition include_point :: "filter_settings \<Rightarrow> u64 \<times> u64 \<Rightarrow> coverage \<Rightarrow> coverage" where
  "include_point s pt c =
     (if \<not> filter_required s then c
      else c\<lparr>path_mask := path_mask c AND covering_paths s (fst pt) (snd pt), coverage_seen := True\<rparr>)"

definition selection :: "filter_settings \<Rightarrow> coverage \<Rightarrow> int" where
  "selection s c =
     (if \<not> filter_required s then - 1
      else if \<not> coverage_seen c \<or> path_mask c = 0 \<or> path_mask c AND (path_mask c - 1) \<noteq> 0 then - 2
      else case List.find (\<lambda>i. path_mask c = push_bit i 1) [0..<length (used_outputs s)] of
        None \<Rightarrow> - 2 | Some i \<Rightarrow> int i)"

section \<open>Filter selector\<close>

record 'o filter_adapter =
  flt_initialize_inactive :: "'o \<Rightarrow> bool \<times> 'o"
  flt_inactive :: "'o \<Rightarrow> bool \<times> 'o"
  flt_activate :: "nat \<Rightarrow> 'o \<Rightarrow> bool \<times> 'o"
  flt_verify :: "nat \<Rightarrow> 'o \<Rightarrow> bool"

record 'o filter_selector =
  sel_settings :: filter_settings
  sel_outputs :: "'o filter_adapter option"
  selected :: int
  sel_initialized :: bool
  sel_inactive :: bool
  sel_verified :: bool
  sel_bank :: 'o

definition initialize_selector :: "'o filter_selector \<Rightarrow> bool \<times> 'o filter_selector" where
  "initialize_selector s =
     (case (case sel_outputs s of None \<Rightarrow> (True, sel_bank s) | Some out \<Rightarrow> flt_initialize_inactive out (sel_bank s)) of
        (inactive, bank) \<Rightarrow> (inactive, s\<lparr>sel_inactive := inactive, sel_initialized := inactive, sel_bank := bank\<rparr>))"

definition select_path :: "coverage \<Rightarrow> 'o filter_selector \<Rightarrow> bool \<times> 'o filter_selector" where
  "select_path c s =
     (let candidate = selection (sel_settings s) c in
      if candidate = - 2 then (False, s) else (True, s\<lparr>selected := candidate\<rparr>))"

definition active_points :: "rf_event list \<Rightarrow> segment list \<Rightarrow> (u64 \<times> u64) list" where
  "active_points es ss = concat (map (\<lambda>(e, s). if rf_on e
     then (case frequency_nhz e of None \<Rightarrow> [] | Some f \<Rightarrow> [(f, realized_nhz (increment s))]) else []) (zip es ss))"

definition prepare_selector :: "job \<Rightarrow> plan \<Rightarrow> 'o filter_selector \<Rightarrow> bool \<times> 'o filter_selector" where
  "prepare_selector j p s =
     (if \<not> sel_initialized s \<or> \<not> sel_inactive s \<or> event_count (events j) \<noteq> segment_count p then (False, s)
      else select_path (fold (include_point (sel_settings s)) (active_points (items (events j)) (segments p)) new_coverage) s)"

definition prepare_frequencies :: "frequency_adjustment list \<Rightarrow> 'o filter_selector \<Rightarrow> bool \<times> 'o filter_selector" where
  "prepare_frequencies points s =
     (if \<not> sel_initialized s \<or> \<not> sel_inactive s \<or> points = [] then (False, s)
      else select_path (fold (\<lambda>a. include_point (sel_settings s) (requested_frequency_nhz a, realized_frequency_nhz a))
        points new_coverage) s)"

definition deactivate_selector :: "'o filter_selector \<Rightarrow> bool \<times> 'o filter_selector" where
  "deactivate_selector s =
     (case (case sel_outputs s of None \<Rightarrow> (True, sel_bank s)
        | Some out \<Rightarrow> if sel_initialized s then flt_inactive out (sel_bank s)
                      else flt_initialize_inactive out (sel_bank s)) of
        (inactive, bank) \<Rightarrow>
          (inactive, s\<lparr>sel_verified := False, sel_inactive := inactive,
             sel_initialized := sel_initialized s \<or> inactive, sel_bank := bank\<rparr>))"

definition activate_selector :: "'o filter_selector \<Rightarrow> bool \<times> 'o filter_selector" where
  "activate_selector s =
     (if \<not> filter_required (sel_settings s) then (True, s)
      else case sel_outputs s of None \<Rightarrow> (False, s)
        | Some out \<Rightarrow>
            if \<not> sel_initialized s \<or> \<not> sel_inactive s \<or> selected s < 0 then (False, s)
            else (case flt_activate out (nat (selected s)) (sel_bank s) of
              (verified, bank) \<Rightarrow> (verified, s\<lparr>sel_inactive := False, sel_verified := verified, sel_bank := bank\<rparr>)))"

definition verify_selector :: "'o filter_selector \<Rightarrow> bool" where
  "verify_selector s \<longleftrightarrow>
     \<not> filter_required (sel_settings s) \<or>
     (case sel_outputs s of None \<Rightarrow> False
      | Some out \<Rightarrow> sel_verified s \<and> selected s \<ge> 0 \<and> flt_verify out (nat (selected s)) (sel_bank s))"

definition selector_active_or_unknown :: "'o filter_selector \<Rightarrow> bool" where
  "selector_active_or_unknown s \<longleftrightarrow> \<not> sel_inactive s"

definition selector_observation :: "'o filter_selector \<Rightarrow> int" where
  "selector_observation s =
     (if sel_inactive s then - 1
      else if sel_verified s \<and> selected s \<ge> 0
      then sint (fo_id (filter_outputs (sel_settings s) ! nat (selected s)))
      else - 2)"

definition release_ns :: "filter_settings \<Rightarrow> u64" where
  "release_ns s = ucast (release_ms s) * 1000000"

definition settle_ns :: "filter_settings \<Rightarrow> u64" where
  "settle_ns s = ucast (settle_ms s) * 1000000"


section \<open>The selected path is the only one\<close>

definition covers :: "filter_settings \<Rightarrow> u64 \<times> u64 \<Rightarrow> filter_output \<Rightarrow> bool" where
  "covers s pt f \<longleftrightarrow>
     (\<exists>r \<in> set (used_ranges s). fr_selector r = fo_id f \<and>
        unat (low_hz r) * 10 ^ 9 \<le> unat (fst pt) \<and> unat (fst pt) \<le> unat (high_hz r) * 10 ^ 9) \<and>
     (\<exists>r \<in> set (used_ranges s). fr_selector r = fo_id f \<and>
        unat (low_hz r) * 10 ^ 9 < unat (snd pt) \<and> unat (snd pt) < unat (high_hz r) * 10 ^ 9)"

lemma unat_hz_to_nhz: "unat (hz_to_nhz hz) = unat hz * 10 ^ 9"
proof -
  have "unat hz < 2 ^ 32" using unsigned_less [of hz, where ?'a = nat] by simp
  moreover have "unat (ucast hz :: u64) = unat hz"
    using calculation by (simp add: unsigned_ucast_eq take_bit_nat_eq_self)
  ultimately show ?thesis unfolding hz_to_nhz_def by (subst unat_u64_times) simp_all
qed

lemma range_fold:
  "fold (range_step f nominal programmed) rs (a, b) =
     (a \<or> (\<exists>r \<in> set rs. fr_selector r = fo_id f \<and> hz_to_nhz (low_hz r) \<le> nominal \<and> nominal \<le> hz_to_nhz (high_hz r)),
      b \<or> (\<exists>r \<in> set rs. fr_selector r = fo_id f \<and> hz_to_nhz (low_hz r) < programmed \<and> programmed < hz_to_nhz (high_hz r)))"
  by (induction rs arbitrary: a b) (auto simp: range_step_def Let_def)

lemma path_covers_iff: "path_covers s nominal programmed f \<longleftrightarrow> covers s (nominal, programmed) f"
  by (simp add: path_covers_def range_fold covers_def word_nat unat_hz_to_nhz)

lemma bit_or_fold:
  "bit (fold (\<lambda>i w. if P i then w OR push_bit i 1 else w) is (w :: u32)) k \<longleftrightarrow>
     bit w k \<or> (k < 32 \<and> k \<in> set is \<and> P k)"
  by (induction "is" arbitrary: w) (auto simp: bit_or_iff bit_exp_iff)

lemma bit_covering:
  "bit (covering_paths s (fst pt) (snd pt)) k \<longleftrightarrow>
     k < 32 \<and> k < length (used_outputs s) \<and> covers s pt (used_outputs s ! k)"
  by (auto simp: covering_paths_def bit_or_fold path_covers_iff)

lemma include_points:
  "filter_required s \<Longrightarrow>
     (bit (path_mask (fold (include_point s) ps c)) k \<longleftrightarrow>
        bit (path_mask c) k \<and> (ps = [] \<or> k < 32 \<and> k < length (used_outputs s)) \<and>
        list_all (\<lambda>pt. covers s pt (used_outputs s ! k)) ps) \<and>
     (coverage_seen (fold (include_point s) ps c) \<longleftrightarrow> coverage_seen c \<or> ps \<noteq> [])"
  by (induction ps arbitrary: c) (auto simp: include_point_def bit_and_iff bit_covering)

lemma bit_31_word: "bit (31 :: u32) k \<longleftrightarrow> k < 5"
proof -
  have "(31 :: u32) = mask 5" by (simp add: mask_eq_exp_minus_1)
  then show ?thesis by (simp only: bit_mask_iff) auto
qed

lemma single_path:
  fixes w :: u32
  assumes "i < 32"
  shows "w = push_bit i 1 \<longleftrightarrow> (\<forall>k. bit w k \<longleftrightarrow> k = i)"
proof
  show "w = push_bit i 1 \<Longrightarrow> \<forall>k. bit w k \<longleftrightarrow> k = i" using assms by (auto simp: bit_exp_iff)
  show "\<forall>k. bit w k \<longleftrightarrow> k = i \<Longrightarrow> w = push_bit i 1" using assms by (intro bit_word_eqI) (simp add: bit_exp_iff)
qed

lemma single_mask:
  assumes "i < 32"
  shows "(push_bit i 1 :: u32) AND (push_bit i 1 - 1) = 0" "(push_bit i 1 :: u32) \<noteq> 0"
proof -
  have "(push_bit i 1 - 1 :: u32) = mask i" by (simp add: mask_eq_exp_minus_1)
  then show "(push_bit i 1 :: u32) AND (push_bit i 1 - 1) = 0"
    by (intro bit_word_eqI) (simp add: bit_and_iff bit_exp_iff bit_mask_iff)
  have "bit (push_bit i 1 :: u32) i" unfolding bit_push_bit_iff using assms by simp
  then show "(push_bit i 1 :: u32) \<noteq> 0" using assms by auto
qed

text \<open>The selection names a path exactly when it is the only one that covers every point.\<close>

definition only_path :: "filter_settings \<Rightarrow> (u64 \<times> u64) list \<Rightarrow> nat \<Rightarrow> bool" where
  "only_path s ps i \<longleftrightarrow> ps \<noteq> [] \<and> i < length (used_outputs s) \<and>
     list_all (\<lambda>pt. covers s pt (used_outputs s ! i)) ps \<and>
     (\<forall>k < length (used_outputs s). k \<noteq> i \<longrightarrow> \<not> list_all (\<lambda>pt. covers s pt (used_outputs s ! k)) ps)"

lemma only_one:
  assumes "k < n" "n \<le> (5 :: nat)"
  shows "(\<forall>l. (l < 5 \<and> l < n \<and> A l) \<longleftrightarrow> l = k) \<longleftrightarrow> A k \<and> (\<forall>l < n. l \<noteq> k \<longrightarrow> \<not> A l)"
proof -
  have "(l < 5 \<and> l < n \<and> A l) \<longleftrightarrow> l < n \<and> A l" for l using assms(2) by auto
  then show ?thesis using assms(1) by (simp only:) blast
qed

lemma selection_iff:
  assumes required: "filter_required s" and few: "length (used_outputs s) \<le> 5"
  shows "selection s (fold (include_point s) ps new_coverage) = int i \<longleftrightarrow> only_path s ps i"
proof -
  let ?c = "fold (include_point s) ps new_coverage"
  have bits: "bit (path_mask ?c) k \<longleftrightarrow> k < 5 \<and> (ps = [] \<or> k < length (used_outputs s)) \<and>
      list_all (\<lambda>pt. covers s pt (used_outputs s ! k)) ps" for k
  proof -
    have start: "bit (path_mask new_coverage) k \<longleftrightarrow> k < 5" by (simp only: new_coverage_def coverage.simps bit_31_word)
    show ?thesis using include_points [OF required, of ps new_coverage k] unfolding start by auto
  qed
  have seen: "coverage_seen ?c \<longleftrightarrow> ps \<noteq> []"
    using include_points [OF required, of ps new_coverage] by (simp add: new_coverage_def)
  have single: "path_mask ?c = push_bit k 1 \<and> ps \<noteq> [] \<longleftrightarrow> only_path s ps k" if "k < length (used_outputs s)" for k
  proof -
    have "path_mask ?c = push_bit k 1 \<longleftrightarrow> (\<forall>l. bit (path_mask ?c) l \<longleftrightarrow> l = k)"
      using that few by (intro single_path) simp
    then show ?thesis unfolding bits only_path_def using only_one [OF that few] that by (cases "ps = []") simp_all
  qed
  have unique: "push_bit k 1 = (push_bit l 1 :: u32) \<Longrightarrow> k = l" if "k < 32" "l < 32" for k l
    using single_path [OF that(1), of "push_bit k 1"] single_path [OF that(2), of "push_bit k 1"] by blast
  show ?thesis
  proof
    assume "selection s ?c = int i"
    then have "ps \<noteq> []" "List.find (\<lambda>i. path_mask ?c = push_bit i 1) [0..<length (used_outputs s)] = Some i"
      using required seen by (auto simp: selection_def split: if_splits option.splits)
    then show "only_path s ps i" using find_Some_mem [of _ "[0..<length (used_outputs s)]" i] single [of i] by auto
  next
    assume only: "only_path s ps i"
    then have i: "i < length (used_outputs s)" by (simp add: only_path_def)
    then have mask: "path_mask ?c = push_bit i 1" "ps \<noteq> []" using single [OF i] only by auto
    have "List.find (\<lambda>k. path_mask ?c = push_bit k 1) [0..<length (used_outputs s)] = Some i"
    proof -
      have "\<not> (path_mask ?c = push_bit k 1)" if "k < i" for k using unique [of k i] that i few mask(1) by auto
      then show ?thesis unfolding find_Some_iff using i mask(1) by (intro exI [of _ i]) simp
    qed
    then show "selection s ?c = int i"
      using required seen mask single_mask [of i] i few by (simp add: selection_def)
  qed
qed


lemma few_outputs: "validate_filters s pins = [] \<Longrightarrow> length (filter_outputs s) = 5 \<Longrightarrow> length (used_outputs s) \<le> 5"
  by (simp add: used_outputs_def)

section \<open>Properties\<close>

text \<open>A transmission is prepared only on the filter that passes all of it. With filters required
  and the bank of at most five outputs, \<open>prepare\<close> succeeds exactly when the bank is known to be
  inactive, the plan fits the job, and exactly one output covers every active event: the requested
  frequency lies in one of its ranges and the realised one strictly inside. That output is then the
  selected one.\<close>

theorem filter_passes_transmission:
  assumes "filter_required (sel_settings s)" "length (used_outputs (sel_settings s)) \<le> 5"
  shows "prepare_selector j p s = (True, t) \<longleftrightarrow>
    sel_initialized s \<and> sel_inactive s \<and> event_count (events j) = segment_count p \<and>
    (\<exists>i. only_path (sel_settings s) (active_points (items (events j)) (segments p)) i \<and> t = s\<lparr>selected := int i\<rparr>)"
proof -
  let ?ps = "active_points (items (events j)) (segments p)"
  let ?n = "selection (sel_settings s) (fold (include_point (sel_settings s)) ?ps new_coverage)"
  have exact: "?n = int i \<longleftrightarrow> only_path (sel_settings s) ?ps i" for i
    by (rule selection_iff [OF assms])
  have "?n = - 2 \<or> (\<exists>i. ?n = int i)"
    using assms(1) by (auto simp: selection_def split: option.split)
  then consider "?n = - 2" | i where "?n = int i" by blast
  then show ?thesis
  proof cases
    case 1
    then have "\<not> only_path (sel_settings s) ?ps i" for i using exact [of i] by simp
    then show ?thesis using 1 by (auto simp: prepare_selector_def select_path_def)
  next
    case 2
    have "only_path (sel_settings s) ?ps k \<longleftrightarrow> k = i" for k using exact [of k] 2 by auto
    then show ?thesis using 2 by (auto simp: prepare_selector_def select_path_def)
  qed
qed

definition sample_selector :: "unit filter_selector" where
  "sample_selector = \<lparr>sel_settings = sample_filters, sel_outputs = None, selected = - 1, sel_initialized = True,
     sel_inactive = True, sel_verified = False, sel_bank = ()\<rparr>"

theorem filter_passes_transmission_witness:
  "only_path sample_filters (active_points (items (events keyed_job)) (segments keyed_plan)) 1"
proof -
  have "selection sample_filters (fold (include_point sample_filters)
      (active_points (items (events keyed_job)) (segments keyed_plan)) new_coverage) = 1"
    "event_count (events keyed_job) = segment_count keyed_plan"
    by code_simp+
  then have ok: "prepare_selector keyed_job keyed_plan sample_selector = (True, sample_selector\<lparr>selected := 1\<rparr>)"
    by (simp add: prepare_selector_def select_path_def sample_selector_def)
  have "filter_required (sel_settings sample_selector)" "length (used_outputs (sel_settings sample_selector)) \<le> 5"
    by (simp_all add: sample_selector_def sample_filters_def used_outputs_def)
  from filter_passes_transmission [OF this, of keyed_job keyed_plan "sample_selector\<lparr>selected := 1\<rparr>"] ok
  show ?thesis by (auto simp: sample_selector_def)
qed

text \<open>An adapter whose answers can be trusted: a positive answer to a request to switch off means
  that the output is off. The steps of the two switches, with everything their owner may call.\<close>

definition trusted_output :: "('o \<Rightarrow> bool) \<Rightarrow> 'o enable_output \<Rightarrow> bool" where
  "trusted_output off out \<longleftrightarrow>
     (\<forall>w w'. (out_initialize_inactive out w = (True, w') \<longrightarrow> off w') \<and> (out_write out False w = (True, w') \<longrightarrow> off w'))"

definition trusted_bank :: "('o \<Rightarrow> bool) \<Rightarrow> 'o filter_adapter \<Rightarrow> bool" where
  "trusted_bank off out \<longleftrightarrow>
     (\<forall>w w'. (flt_initialize_inactive out w = (True, w') \<longrightarrow> off w') \<and> (flt_inactive out w = (True, w') \<longrightarrow> off w'))"

inductive amplifier_step :: "'o amplifier \<Rightarrow> 'o amplifier \<Rightarrow> bool" where
  amp_init: "initialize_amplifier a = (r, b) \<Longrightarrow> amplifier_step a b"
| amp_on: "activate_amplifier a = (r, b) \<Longrightarrow> amplifier_step a b"
| amp_off: "deactivate_amplifier a = (r, b) \<Longrightarrow> amplifier_step a b"

inductive selector_step :: "'o filter_selector \<Rightarrow> 'o filter_selector \<Rightarrow> bool" where
  sel_init: "initialize_selector s = (r, t) \<Longrightarrow> selector_step s t"
| sel_prepare: "prepare_selector j p s = (r, t) \<Longrightarrow> selector_step s t"
| sel_frequencies: "prepare_frequencies points s = (r, t) \<Longrightarrow> selector_step s t"
| sel_on: "activate_selector s = (r, t) \<Longrightarrow> selector_step s t"
| sel_off: "deactivate_selector s = (r, t) \<Longrightarrow> selector_step s t"

inductive_cases amplifier_stepE: "amplifier_step a b"
inductive_cases selector_stepE: "selector_step s t"

lemma amplifier_step_off:
  assumes "amplifier_step a b" "case amp_output a of None \<Rightarrow> True | Some out \<Rightarrow> trusted_output off out"
    "amp_output a \<noteq> None \<Longrightarrow> amp_known_inactive a \<Longrightarrow> off (amp_pad a)"
  shows "amp_output b = amp_output a \<and> (amp_output b \<noteq> None \<longrightarrow> amp_known_inactive b \<longrightarrow> off (amp_pad b))"
  using assms
  by (auto elim!: amplifier_stepE simp: initialize_amplifier_def activate_amplifier_def deactivate_amplifier_def
      trusted_output_def Let_def split: if_splits prod.splits option.splits)

lemma selector_step_off:
  assumes "selector_step s t" "case sel_outputs s of None \<Rightarrow> True | Some out \<Rightarrow> trusted_bank off out"
    "sel_outputs s \<noteq> None \<Longrightarrow> sel_inactive s \<Longrightarrow> off (sel_bank s)"
  shows "sel_outputs t = sel_outputs s \<and> (sel_outputs t \<noteq> None \<longrightarrow> sel_inactive t \<longrightarrow> off (sel_bank t))"
  using assms
  by (auto elim!: selector_stepE simp: initialize_selector_def prepare_selector_def prepare_frequencies_def
      activate_selector_def deactivate_selector_def select_path_def trusted_bank_def Let_def
      split: if_splits prod.splits option.splits)

text \<open>C36: what is reported off is off. With adapters whose positive answers can be trusted, after any
  sequence of calls on the amplifier line and the filter bank, in any order and with any failures,
  an output that is not reported as active or unknown is off.\<close>

theorem reported_off_is_off:
  assumes "amplifier_step\<^sup>*\<^sup>* a b" "selector_step\<^sup>*\<^sup>* s t"
    "amp_output a = Some amp_out" "trusted_output amp_off amp_out" "\<not> amp_known_inactive a"
    "sel_outputs s = Some sel_out" "trusted_bank sel_off sel_out" "\<not> sel_inactive s"
  shows "(amplifier_active_or_unknown b \<or> amp_off (amp_pad b)) \<and> (selector_active_or_unknown t \<or> sel_off (sel_bank t))"
proof -
  have "amp_output b = Some amp_out \<and> (amp_known_inactive b \<longrightarrow> amp_off (amp_pad b))"
    using assms(1)
  proof (induction rule: rtranclp_induct)
    case (step b c)
    then show ?case using amplifier_step_off [of b c amp_off] assms(4) by auto
  qed (use assms in auto)
  moreover have "sel_outputs t = Some sel_out \<and> (sel_inactive t \<longrightarrow> sel_off (sel_bank t))"
    using assms(2)
  proof (induction rule: rtranclp_induct)
    case (step t u)
    then show ?case using selector_step_off [of t u sel_off] assms(7) by auto
  qed (use assms in auto)
  ultimately show ?thesis by (auto simp: amplifier_active_or_unknown_def selector_active_or_unknown_def)
qed


text \<open>A pad that does what it is told, switched on and off again.\<close>

definition pad_output :: "bool enable_output" where
  "pad_output = \<lparr>out_initialize_inactive = (\<lambda>w. (True, False)), out_write = (\<lambda>b w. (True, b)),
     out_verify_active = (\<lambda>w. w)\<rparr>"

definition pad_bank :: "nat option filter_adapter" where
  "pad_bank = \<lparr>flt_initialize_inactive = (\<lambda>w. (True, None)), flt_inactive = (\<lambda>w. (True, None)),
     flt_activate = (\<lambda>i w. (True, Some i)), flt_verify = (\<lambda>i w. w = Some i)\<rparr>"

definition pad_amplifier :: "bool \<Rightarrow> bool \<Rightarrow> bool \<Rightarrow> bool amplifier" where
  "pad_amplifier initialized inactive pad = \<lparr>amp_output = Some pad_output, amp_timing = \<lparr>lead_ms = 200, tail_ms = 200\<rparr>,
     amp_initialized = initialized, amp_known_inactive = inactive, amp_pad = pad\<rparr>"

definition pad_selector :: "bool \<Rightarrow> bool \<Rightarrow> nat option \<Rightarrow> nat option filter_selector" where
  "pad_selector initialized inactive bank = \<lparr>sel_settings = sample_filters, sel_outputs = Some pad_bank, selected = 1,
     sel_initialized = initialized, sel_inactive = inactive, sel_verified = False, sel_bank = bank\<rparr>"

theorem reported_off_is_off_witness:
  "(amplifier_active_or_unknown (pad_amplifier True True False) \<or> amp_pad (pad_amplifier True True False) = False) \<and>
   (selector_active_or_unknown (pad_selector True True None) \<or> sel_bank (pad_selector True True None) = None)"
proof -
  let ?a = "pad_amplifier False False True" and ?b = "pad_amplifier True True False" and ?c = "pad_amplifier True False True"
  have "amplifier_step ?a ?b" by (rule amp_init) (simp add: initialize_amplifier_def pad_amplifier_def timing_valid_def pad_output_def)
  moreover have "amplifier_step ?b ?c" by (rule amp_on) (simp add: activate_amplifier_def pad_amplifier_def pad_output_def)
  moreover have "amplifier_step ?c ?b" by (rule amp_off) (simp add: deactivate_amplifier_def pad_amplifier_def pad_output_def)
  ultimately have a: "amplifier_step\<^sup>*\<^sup>* ?a ?b" by (meson converse_rtranclp_into_rtranclp rtranclp.rtrancl_refl)
  have "selector_step (pad_selector False False (Some 1)) (pad_selector True True None)"
    by (rule sel_init) (simp add: initialize_selector_def pad_selector_def pad_bank_def)
  then have s: "selector_step\<^sup>*\<^sup>* (pad_selector False False (Some 1)) (pad_selector True True None)" by simp
  show ?thesis
    using reported_off_is_off [OF a s, of pad_output "\<lambda>w. \<not> w" pad_bank "\<lambda>w. w = None"]
    by (simp add: pad_amplifier_def pad_selector_def trusted_output_def trusted_bank_def pad_output_def pad_bank_def)
qed

end
