(* ===== verification/Stream_Engine.thy ===== *)
theory Stream_Engine
  imports Waveform Rf_Switching Job_Admission
begin

text \<open>
  The streaming RF engine (\<open>src/rf/stream_engine.hpp\<close>, \<open>src/rf/stream_engine.cpp\<close>): it plans a job,
  renders it into two buffers, submits the blocks to a sink in order, refills a buffer when the sink
  reports its block complete, and checks every report of the sink against the timeline of the job.
  The sink (DMA or simulator) and the clock are interfaces: one record of operations on a sink state
  \<open>'k\<close>. The clock pointer of the start conditions is the option around them. A guard handed to the
  sink with \<open>arm\<close> is its exclusive deadline; the callback behind it is \<open>project_clock\<close>. The generator
  refers to the plan of the engine; it is rendered only while that plan is in place, so it holds a
  copy here.
\<close>

section \<open>Sink\<close>

record sink_report =
  sink_state :: engine_state
  sink_epoch :: u64
  completed_blocks :: u64
  consumed_samples :: u64
  observed_monotonic_ns :: "u64 option"
  observed_output_active :: "bool option"
  sink_launch_ns :: "u64 option"
  sink_chain_phase :: chain_phase
  sink_tail_deadline_ns :: "u64 option"
  sink_filter_selector :: int

record 'k block_sink =
  snk_stop :: "u64 \<Rightarrow> 'k \<Rightarrow> bool \<times> 'k"
  snk_submit :: "u64 \<Rightarrow> u64 \<Rightarrow> u32 list \<Rightarrow> u64 \<Rightarrow> 'k \<Rightarrow> bool \<times> 'k"
  snk_arm :: "u64 \<Rightarrow> u64 \<Rightarrow> u64 \<Rightarrow> u64 option \<Rightarrow> 'k \<Rightarrow> bool \<times> 'k"
  snk_poll :: "u64 \<Rightarrow> 'k \<Rightarrow> sink_report \<times> 'k"
  snk_output_active :: "'k \<Rightarrow> bool \<times> 'k"
  snk_snapshot :: "'k \<Rightarrow> clock_snapshot \<times> 'k"
  snk_diagnostic :: "'k \<Rightarrow> string"
  snk_schedules_locally :: bool
  snk_start_resolution_ns :: u64
  snk_amplifier_tail_ns :: u64

section \<open>Engine\<close>

record ('k, 'o) stream_engine =
  se_sink :: 'k
  se_filters :: "'o filter_selector option"
  se_start_conditions :: "local_start_conditions option"
  se_correction_ppb :: i32
  se_failure :: string
  se_filter_observation :: int
  se_plan :: plan
  se_waveform :: waveform
  se_job :: "bytes option"
  se_buffers :: "u32 list list"
  se_valid :: "u64 list"
  se_state :: engine_state
  se_epoch :: u64
  se_submitted :: u64
  se_completed :: u64
  se_consumed :: u64
  se_start_ns :: u64
  se_end_ns :: u64
  se_last_poll_ns :: u64
  se_launch_deadline_ns :: u64
  se_launch_ns :: "u64 option"

type_synonym ('k, 'o, 'a) engine_action = "(('k, 'o) stream_engine, 'a) State_Monad.state"

definition new_stream_engine :: "'k \<Rightarrow> 'o filter_selector option \<Rightarrow> ('k, 'o) stream_engine" where
  "new_stream_engine k filters =
     \<lparr>se_sink = k, se_filters = filters, se_start_conditions = None, se_correction_ppb = 0, se_failure = [],
      se_filter_observation = - 1, se_plan = empty_plan, se_waveform = new_waveform, se_job = None,
      se_buffers = replicate 2 (replicate block_words 0), se_valid = [0, 0], se_state = EngineIdle, se_epoch = 0,
      se_submitted = 0, se_completed = 0, se_consumed = 0, se_start_ns = 0, se_end_ns = 0, se_last_poll_ns = 0,
      se_launch_deadline_ns = 0, se_launch_ns = None\<rparr>"

definition on_sink :: "('k \<Rightarrow> 'a \<times> 'k) \<Rightarrow> ('k, 'o, 'a) engine_action" where
  "on_sink f = State (\<lambda>s. case f (se_sink s) of (a, k) \<Rightarrow> (a, s\<lparr>se_sink := k\<rparr>))"

definition state_report :: "engine_state \<Rightarrow> bool \<Rightarrow> engine_report" where
  "state_report st active = idle_report\<lparr>report_state := st, report_output_active := active\<rparr>"

definition stream_filter_preparation_ns :: "('k, 'o) stream_engine \<Rightarrow> u64" where
  "stream_filter_preparation_ns s =
     (case se_filters s of None \<Rightarrow> 0
      | Some f \<Rightarrow> if filter_required (sel_settings f) then preparation_ns (sel_settings f) + 1 else 0)"

definition fail_stream :: "'k block_sink \<Rightarrow> u64 \<Rightarrow> string \<Rightarrow> ('k, 'o, engine_report) engine_action" where
  "fail_stream K now reason = do {
     modify (\<lambda>s. s\<lparr>se_failure := reason, se_state := EngineFailed\<rparr>);
     stopped \<leftarrow> on_sink (snk_stop K now);
     modify (\<lambda>s. s\<lparr>se_filter_observation := (if stopped then - 1 else - 2)\<rparr>);
     active \<leftarrow> on_sink (snk_output_active K);
     ret (state_report EngineFailed active)
   }"

definition failure_of :: "'k block_sink \<Rightarrow> string \<Rightarrow> ('k, 'o) stream_engine \<Rightarrow> string" where
  "failure_of K fallback s = (let reason = snk_diagnostic K (se_sink s) in if reason = [] then fallback else reason)"

definition submit_next :: "'k block_sink \<Rightarrow> nat \<Rightarrow> ('k, 'o, bool) engine_action" where
  "submit_next K slot = do {
     s \<leftarrow> gets id;
     let valid = se_valid s ! slot;
     if valid = 0 then ret True
     else do {
       accepted \<leftarrow> on_sink (snk_submit K (se_epoch s) (se_submitted s)
         (take (unat ((valid + 31) div 32)) (se_buffers s ! slot)) valid);
       if \<not> accepted then do {
         modify (\<lambda>s. s\<lparr>se_failure := failure_of K ''sink_rejected'' s\<rparr>);
         ret False
       }
       else do {
         modify (\<lambda>s. s\<lparr>se_submitted := se_submitted s + 1\<rparr>);
         ret True
       }
     }
   }"

text \<open>Rendering into a slot. Where \<open>render\<close> has no value (an access outside the plan or the tables) the
  slot is left as it is; the invariant below excludes that case.\<close>

definition render_slot :: "nat \<Rightarrow> ('k, 'o) stream_engine \<Rightarrow> ('k, 'o) stream_engine" where
  "render_slot slot s =
     (case render (se_buffers s ! slot) (se_waveform s) of None \<Rightarrow> s
      | Some (valid, words, w) \<Rightarrow>
          s\<lparr>se_buffers := (se_buffers s)[slot := words], se_valid := (se_valid s)[slot := valid], se_waveform := w\<rparr>)"

section \<open>Preparation\<close>

definition set_frequency_correction :: "'k block_sink \<Rightarrow> i32 \<Rightarrow> ('k, 'o, bool) engine_action" where
  "set_frequency_correction K ppb = do {
     s \<leftarrow> gets id;
     if se_state s \<noteq> EngineIdle \<or> se_job s \<noteq> None then ret False
     else do {
       active \<leftarrow> on_sink (snk_output_active K);
       if active \<or> \<not> legal_correction ppb then ret False
       else do {
         modify (\<lambda>s. s\<lparr>se_correction_ppb := ppb\<rparr>);
         ret True
       }
     }
   }"

definition stream_preparation_memory_bytes :: "job \<Rightarrow> nat" where
  "stream_preparation_memory_bytes j =
     4096 + event_count (events j) * 16 + length (filter rf_on (items (events j))) * (24 + 2)"

definition plan_adjustments :: "job \<Rightarrow> plan \<Rightarrow> frequency_adjustment list" where
  "plan_adjustments j p =
     concat (map (\<lambda>i.
       let inc = increment (segments p ! i); f = the (frequency_nhz (items (events j) ! i)) in
       if inc \<noteq> 0 \<and> realized_nhz inc \<noteq> f
       then [\<lparr>event_index = i, requested_frequency_nhz = f, realized_frequency_nhz = realized_nhz inc\<rparr>] else [])
     [0..<segment_count p])"

definition adopt_plan :: "job \<Rightarrow> plan \<Rightarrow> ('k, 'o) stream_engine \<Rightarrow> ('k, 'o) stream_engine" where
  "adopt_plan j p s =
     render_slot 1 (render_slot 0
       (s\<lparr>se_failure := [], se_job := Some (job_digest j), se_plan := p,
          se_waveform := reset_waveform p (se_waveform s)\<rparr>))"

definition prepare_stream :: "'k block_sink \<Rightarrow> job \<Rightarrow> ('k, 'o, bool \<times> frequency_adjustment list) engine_action" where
  "prepare_stream K j = do {
     s \<leftarrow> gets id;
     if se_state s \<noteq> EngineIdle then ret (False, [])
     else do {
       active \<leftarrow> on_sink (snk_output_active K);
       if active then ret (False, [])
       else case plan_job j (se_correction_ppb s) of None \<Rightarrow> ret (False, [])
         | Some p \<Rightarrow>
             (case map_option (prepare_selector j p) (se_filters s) of
                Some (False, f) \<Rightarrow> do {
                  modify (\<lambda>s. s\<lparr>se_filters := Some f, se_failure := ''filter_coverage_required''\<rparr>);
                  ret (False, [])
                }
              | filters \<Rightarrow> do {
                  modify (\<lambda>s. adopt_plan j p (s\<lparr>se_filters := map_option snd filters\<rparr>));
                  ret (True, plan_adjustments j p)
                })
     }
   }"

section \<open>Launch\<close>

definition samples_per_microsecond :: u64 where
  "samples_per_microsecond = sample_rate div 1000000"

definition realized_duration_ns :: "plan \<Rightarrow> u64" where
  "realized_duration_ns p =
     (total_samples p * 1000 + samples_per_microsecond div 2) div samples_per_microsecond"

definition launch_stream :: "'k block_sink \<Rightarrow> ('k, 'o, bool) engine_action" where
  "launch_stream K = do {
     first \<leftarrow> submit_next K 0;
     second \<leftarrow> (if first then submit_next K 1 else ret False);
     s \<leftarrow> gets id;
     armed \<leftarrow> (if second
       then on_sink (snk_arm K (se_epoch s) (se_start_ns s) (total_samples (se_plan s))
         (map_option (\<lambda>_. se_launch_deadline_ns s) (se_start_conditions s)))
       else ret False);
     if \<not> armed then do {
       s \<leftarrow> gets id;
       fail_stream K (se_start_ns s) (se_failure s);
       ret False
     }
     else do {
       modify (\<lambda>s. s\<lparr>se_state := EngineArmed\<rparr>);
       ret True
     }
   }"

definition begin_stream :: "'k block_sink \<Rightarrow> job \<Rightarrow> u64 \<Rightarrow> ('k, 'o, bool) engine_action" where
  "begin_stream K j start = do {
     s \<leftarrow> gets id;
     let realized = realized_duration_ns (se_plan s);
     if se_state s \<noteq> EngineIdle \<or> se_job s \<noteq> Some (job_digest j) \<or> se_epoch s = u64_max \<or>
        start > u64_max - max (total_duration_ns j) realized - snk_amplifier_tail_ns K -
          maximum_completion_acknowledgement_ns
     then ret False
     else do {
       stopped \<leftarrow> on_sink (snk_stop K start);
       active \<leftarrow> (if stopped then on_sink (snk_output_active K) else ret True);
       if active then do {
         modify (\<lambda>s. s\<lparr>se_state := EngineFailed, se_filter_observation := - 2\<rparr>);
         ret False
       }
       else do {
         modify (\<lambda>s. s\<lparr>se_epoch := se_epoch s + 1, se_submitted := 0, se_completed := 0, se_consumed := 0,
           se_start_ns := start, se_end_ns := start + realized, se_last_poll_ns := 0, se_launch_ns := None\<rparr>);
         launch_stream K
       }
     }
   }"

definition schedule_budget :: "local_start_conditions \<Rightarrow> u64 \<Rightarrow> clock_snapshot \<Rightarrow> bool" where
  "schedule_budget c start now \<longleftrightarrow>
     \<not> start < monotonic_now_ns now \<and>
     (case growth (start - monotonic_now_ns now) (ucast (rate_uncertainty_ppb now)) of None \<Rightarrow> False
      | Some future_growth \<Rightarrow>
          (case elapsed_utc (conditions_start_adjustment_ns c + of_bool (rate_ppb now \<noteq> 0)) (rate_ppb now) True of
             None \<Rightarrow> False
           | Some rounding_utc \<Rightarrow>
               \<not> (uncertainty_ns now > conditions_maximum_uncertainty_ns c \<or>
                  future_growth > conditions_maximum_uncertainty_ns c - uncertainty_ns now \<or>
                  rounding_utc > conditions_maximum_uncertainty_ns c - uncertainty_ns now - future_growth)))"

definition schedule_stream ::
  "'k block_sink \<Rightarrow> job \<Rightarrow> u64 \<Rightarrow> local_start_conditions option \<Rightarrow> ('k, 'o, bool) engine_action" where
  "schedule_stream K j start conditions = do {
     s \<leftarrow> gets id;
     case conditions of None \<Rightarrow> ret False
     | Some c \<Rightarrow>
         if \<not> snk_schedules_locally K \<or> se_state s \<noteq> EngineIdle then ret False
         else do {
           modify (\<lambda>s. s\<lparr>se_start_conditions := Some c\<rparr>);
           let resolution = snk_start_resolution_ns K;
           if resolution = 0 then ret False
           else do {
             let c = c\<lparr>conditions_start_adjustment_ns := (resolution - start mod resolution) mod resolution\<rparr>;
             modify (\<lambda>s. s\<lparr>se_start_conditions := Some c\<rparr>);
             let utc = conditions_start_utc_ns c;
             let window = start_window_ns utc;
             let duration = max (total_duration_ns j) (realized_duration_ns (se_plan s));
             if start > u64_max - window \<or> utc > u64_max - window \<or> conditions_start_adjustment_ns c \<ge> window \<or>
                duration > u64_max - (start + window) \<or> duration > u64_max - (utc + window)
             then ret False
             else do {
               now \<leftarrow> on_sink (snk_snapshot K);
               case inverse_utc now (utc + window) of None \<Rightarrow> ret False
               | Some deadline \<Rightarrow> do {
                   modify (\<lambda>s. s\<lparr>se_launch_deadline_ns := deadline\<rparr>);
                   if \<not> schedule_budget c start now then ret False
                   else begin_stream K j (start + conditions_start_adjustment_ns c)
                 }
             }
           }
         }
   }"

section \<open>The launch target\<close>

text \<open>The leap second test of the callback, and the target it gives the sink: \<open>None\<close> where the code
  returns an inadmissible target.\<close>

definition leap_clear :: "local_start_conditions \<Rightarrow> u64 \<Rightarrow> clock_snapshot \<Rightarrow> bool" where
  "leap_clear c duration now =
     (case leap_transition_utc_ns now of None \<Rightarrow> True
      | Some transition \<Rightarrow>
          let utc = conditions_start_utc_ns c;
              low = (if transition > 1000000000 then transition - 1000000000 else 0);
              high = (if transition > u64_max - 1000000000 then u64_max else transition + 1000000000);
              latest = utc + start_window_ns utc - 1
          in (case duration_utc_bound duration now of None \<Rightarrow> False
              | Some utc_duration \<Rightarrow>
                  utc > high \<or> (latest \<le> u64_max - utc_duration \<and> latest + utc_duration < low)))"

definition horizon_clear :: "local_start_conditions \<Rightarrow> u64 \<Rightarrow> clock_snapshot \<Rightarrow> bool" where
  "horizon_clear c duration now =
     (let utc = conditions_start_utc_ns c; latest = utc + start_window_ns utc - 1 in
      case duration_utc_bound duration now of None \<Rightarrow> False
      | Some bound \<Rightarrow> \<not> (latest \<ge> valid_until_utc_ns now \<or> bound \<ge> valid_until_utc_ns now - latest))"

definition launch_clock_ok :: "local_start_conditions \<Rightarrow> clock_snapshot \<Rightarrow> bool" where
  "launch_clock_ok c now \<longleftrightarrow>
     clock_state now = Synchronized \<or>
     (clock_state now = Holdover \<and> conditions_maximum_holdover_age_ns c > 0 \<and>
      sync_age_ns now \<le> conditions_maximum_holdover_age_ns c)"

definition target_ok ::
  "local_start_conditions \<Rightarrow> u64 \<Rightarrow> u64 \<Rightarrow> u64 \<Rightarrow> clock_snapshot \<Rightarrow> bool" where
  "target_ok c deadline rounding target now \<longleftrightarrow>
     (case project now target of None \<Rightarrow> False
      | Some realized_utc \<Rightarrow>
          realized_utc < conditions_start_utc_ns c + start_window_ns (conditions_start_utc_ns c) \<and>
          (case elapsed_utc (rounding + of_bool (rate_ppb now \<noteq> 0)) (rate_ppb now) True of None \<Rightarrow> False
           | Some rounding_utc \<Rightarrow>
               (case growth (target - monotonic_now_ns now) (ucast (rate_uncertainty_ppb now)) of None \<Rightarrow> False
                | Some future_growth \<Rightarrow>
                    \<not> (target \<ge> deadline \<or>
                       future_growth > conditions_maximum_uncertainty_ns c - uncertainty_ns now \<or>
                       rounding_utc > conditions_maximum_uncertainty_ns c - uncertainty_ns now - future_growth \<or>
                       leap now = LeapUnknown \<or>
                       (leap now = InsertPending \<or> leap now = DeletePending) \<noteq> (leap_transition_utc_ns now \<noteq> None)))))"

definition project_clock ::
  "u64 \<Rightarrow> ('k, 'o) stream_engine \<Rightarrow> local_start_conditions \<Rightarrow> clock_snapshot \<Rightarrow> u64 option" where
  "project_clock resolution s c now =
     (let utc = conditions_start_utc_ns c; window = start_window_ns utc;
          duration = se_end_ns s - se_start_ns s in
      if se_job s = None \<or> monotonic_now_ns now \<ge> se_launch_deadline_ns s \<or>
         uncertainty_ns now > conditions_maximum_uncertainty_ns c \<or> \<not> launch_clock_ok c now
      then None
      else if utc > u64_max - window \<or> utc_now_ns now \<ge> utc + window \<or> utc > u64_max - duration then None
      else case (if utc_now_ns now < utc then inverse_utc now utc else Some (monotonic_now_ns now)) of None \<Rightarrow> None
      | Some nominal \<Rightarrow>
          if resolution = 0 then None
          else
            let rounding = (resolution - nominal mod resolution) mod resolution in
            if nominal > u64_max - rounding then None
            else if \<not> target_ok c (se_launch_deadline_ns s) rounding (nominal + rounding) now then None
            else if \<not> horizon_clear c duration now then None
            else if \<not> leap_clear c duration now then None
            else Some (nominal + rounding))"

section \<open>Supervision\<close>

definition progress_broken :: "sink_report \<Rightarrow> u64 \<Rightarrow> ('k, 'o) stream_engine \<Rightarrow> bool" where
  "progress_broken r now s \<longleftrightarrow>
     (let samples = total_samples (se_plan s) in
      now < se_last_poll_ns s \<or> sink_epoch r \<noteq> se_epoch s \<or> completed_blocks r < se_completed s \<or>
      completed_blocks r > se_submitted s \<or> consumed_samples r < se_consumed s \<or> consumed_samples r > samples \<or>
      consumed_samples r < min (completed_blocks r * block_samples) samples \<or>
      consumed_samples r > min ((completed_blocks r + 1) * block_samples) samples)"

definition waiting_for_launch :: "sink_report \<Rightarrow> bool \<Rightarrow> ('k, 'o) stream_engine \<Rightarrow> bool" where
  "waiting_for_launch r active s \<longleftrightarrow>
     sink_state r = EngineArmed \<and> se_start_conditions s \<noteq> None \<and> consumed_samples r = 0 \<and> completed_blocks r = 0 \<and>
     (\<not> active \<or> sink_chain_phase r = ChainLead \<or> sink_chain_phase r = ChainSelecting)"

definition expected_completed :: "sink_report \<Rightarrow> ('k, 'o) stream_engine \<Rightarrow> u64" where
  "expected_completed r s =
     consumed_samples r div block_samples +
     of_bool (consumed_samples r = total_samples (se_plan s) \<and> total_samples (se_plan s) mod block_samples \<noteq> 0)"

definition expected_samples :: "u64 \<Rightarrow> ('k, 'o) stream_engine \<Rightarrow> u64" where
  "expected_samples now s =
     (let elapsed = (if now > se_start_ns s then min (now - se_start_ns s) (se_end_ns s - se_start_ns s) else 0) in
      if now \<ge> se_end_ns s then total_samples (se_plan s)
      else (elapsed * samples_per_microsecond + 500) div 1000)"

definition in_tail :: "'k block_sink \<Rightarrow> sink_report \<Rightarrow> u64 \<Rightarrow> bool \<Rightarrow> ('k, 'o) stream_engine \<Rightarrow> bool" where
  "in_tail K r now active s \<longleftrightarrow>
     sink_chain_phase r = ChainTail \<and> sink_state r = EngineRunning \<and> se_launch_ns s \<noteq> None \<and> now \<ge> se_end_ns s \<and>
     (case sink_tail_deadline_ns r of None \<Rightarrow> False
      | Some deadline \<Rightarrow> deadline > now \<and> deadline - now \<le> snk_amplifier_tail_ns K) \<and>
     consumed_samples r = total_samples (se_plan s) \<and> completed_blocks r = se_submitted s \<and>
     wave_position (se_waveform s) = total_samples (se_plan s) \<and> active"

definition awaiting_tail :: "sink_report \<Rightarrow> u64 \<Rightarrow> ('k, 'o) stream_engine \<Rightarrow> bool" where
  "awaiting_tail r now s \<longleftrightarrow>
     sink_state r = EngineRunning \<and> wave_position (se_waveform s) = total_samples (se_plan s) \<and>
     se_submitted s = (total_samples (se_plan s) + block_samples - 1) div block_samples \<and>
     consumed_samples r \<ge> (se_submitted s - 1) * block_samples \<and> now \<ge> se_end_ns s \<and>
     now - se_end_ns s \<le> maximum_completion_acknowledgement_ns"

definition running_broken :: "sink_report \<Rightarrow> u64 \<Rightarrow> bool \<Rightarrow> ('k, 'o) stream_engine \<Rightarrow> bool" where
  "running_broken r now active s \<longleftrightarrow>
     (now < se_start_ns s \<and> (sink_state r \<noteq> EngineArmed \<or> consumed_samples r \<noteq> 0 \<or> active)) \<or>
     (now \<ge> se_start_ns s \<and> sink_state r \<noteq> EngineRunning) \<or>
     (now \<ge> se_end_ns s \<and> \<not> awaiting_tail r now s) \<or> completed_blocks r = se_submitted s"

fun refill :: "'k block_sink \<Rightarrow> nat list \<Rightarrow> ('k, 'o, bool) engine_action" where
  "refill K [] = ret True"
| "refill K (n # ns) = do {
     modify (render_slot (n mod 2));
     submitted \<leftarrow> submit_next K (n mod 2);
     if submitted then refill K ns else ret False
   }"

definition poll_running :: "'k block_sink \<Rightarrow> sink_report \<Rightarrow> u64 \<Rightarrow> bool \<Rightarrow> ('k, 'o, engine_report) engine_action" where
  "poll_running K r now active = do {
     s \<leftarrow> gets id;
     if running_broken r now active s
     then fail_stream K now (if now \<ge> se_end_ns s then ''completion_deadline'' else ''sink_state'')
     else do {
       refilled \<leftarrow> refill K [unat (se_completed s)..<unat (completed_blocks r)];
       if \<not> refilled then do {
         s \<leftarrow> gets id;
         fail_stream K now (se_failure s)
       }
       else do {
         modify (\<lambda>s. s\<lparr>se_completed := completed_blocks r, se_consumed := consumed_samples r,
           se_state := sink_state r\<rparr>);
         s \<leftarrow> gets id;
         ret ((state_report (sink_state r) active)\<lparr>report_launch_monotonic_ns := se_launch_ns s,
           report_chain_phase := sink_chain_phase r\<rparr>)
       }
     }
   }"

definition poll_phase :: "'k block_sink \<Rightarrow> sink_report \<Rightarrow> u64 \<Rightarrow> bool \<Rightarrow> ('k, 'o, engine_report) engine_action" where
  "poll_phase K r now active = do {
     modify (\<lambda>s. s\<lparr>se_last_poll_ns := now\<rparr>);
     s \<leftarrow> gets id;
     if sink_state r = EngineMissed then
       if consumed_samples r \<noteq> 0 \<or> active then fail_stream K now ''sink_rejected''
       else do {
         modify (\<lambda>s. s\<lparr>se_failure := failure_of K ''missed_launch'' s, se_state := EngineMissed\<rparr>);
         ret ((state_report EngineMissed False)\<lparr>report_launch_monotonic_ns := se_launch_ns s\<rparr>)
       }
     else if sink_state r = EngineComplete then
       if now < se_end_ns s \<or> consumed_samples r \<noteq> total_samples (se_plan s) \<or>
          completed_blocks r \<noteq> se_submitted s \<or> wave_position (se_waveform s) \<noteq> total_samples (se_plan s) \<or> active
       then fail_stream K now ''invalid_completion''
       else do {
         modify (\<lambda>s. s\<lparr>se_state := EngineComplete\<rparr>);
         ret ((state_report EngineComplete False)\<lparr>report_launch_monotonic_ns := se_launch_ns s\<rparr>)
       }
     else if in_tail K r now active s then do {
       modify (\<lambda>s. s\<lparr>se_state := EngineRunning, se_completed := completed_blocks r, se_consumed := consumed_samples r\<rparr>);
       ret ((state_report EngineRunning True)\<lparr>report_launch_monotonic_ns := se_launch_ns s,
         report_chain_phase := ChainTail, report_tail_deadline_ns := sink_tail_deadline_ns r\<rparr>)
     }
     else poll_running K r now active
   }"

definition poll_waiting :: "'k block_sink \<Rightarrow> sink_report \<Rightarrow> u64 \<Rightarrow> bool \<Rightarrow> ('k, 'o, engine_report) engine_action" where
  "poll_waiting K r now active = do {
     modify (\<lambda>s. s\<lparr>se_last_poll_ns := now\<rparr>);
     s \<leftarrow> gets id;
     if now < se_launch_deadline_ns s
     then ret ((state_report EngineArmed active)\<lparr>report_chain_phase := sink_chain_phase r\<rparr>)
     else do {
       stopped \<leftarrow> on_sink (snk_stop K now);
       active \<leftarrow> (if stopped then on_sink (snk_output_active K) else ret True);
       if active then fail_stream K now ''missed_disable_failed''
       else do {
         modify (\<lambda>s. s\<lparr>se_state := EngineMissed\<rparr>);
         ret (state_report EngineMissed False)
       }
     }
   }"

definition poll_progress :: "'k block_sink \<Rightarrow> sink_report \<Rightarrow> u64 \<Rightarrow> ('k, 'o, engine_report) engine_action" where
  "poll_progress K r now = do {
     active \<leftarrow> (case observed_output_active r of None \<Rightarrow> on_sink (snk_output_active K) | Some active \<Rightarrow> ret active);
     s \<leftarrow> gets id;
     if progress_broken r now s then fail_stream K now ''progress_counters''
     else if waiting_for_launch r active s then poll_waiting K r now active
     else if completed_blocks r \<noteq> expected_completed r s \<or> consumed_samples r > expected_samples now s
     then fail_stream K now ''progress_time''
     else poll_phase K r now active
   }"

definition poll_launch_seen :: "'k block_sink \<Rightarrow> sink_report \<Rightarrow> u64 \<Rightarrow> ('k, 'o, engine_report) engine_action" where
  "poll_launch_seen K r now = do {
     s \<leftarrow> gets id;
     case sink_launch_ns r of None \<Rightarrow> poll_progress K r now
     | Some launch \<Rightarrow>
         if (se_launch_ns s \<noteq> None \<and> se_launch_ns s \<noteq> Some launch) \<or> launch > now \<or>
            (se_launch_ns s = None \<and> se_start_conditions s \<noteq> None \<and> launch \<ge> se_launch_deadline_ns s)
         then fail_stream K now ''invalid_launch_observation''
         else if se_launch_ns s \<noteq> None then poll_progress K r now
         else
           let duration = se_end_ns s - se_start_ns s in
           if launch > u64_max - duration then fail_stream K now ''launch_end_overflow''
           else do {
             modify (\<lambda>s. s\<lparr>se_launch_ns := Some launch, se_start_ns := launch, se_end_ns := launch + duration\<rparr>);
             poll_progress K r now
           }
   }"

definition poll_impl :: "'k block_sink \<Rightarrow> u64 \<Rightarrow> ('k, 'o, engine_report) engine_action" where
  "poll_impl K now = do {
     s \<leftarrow> gets id;
     if se_state s \<noteq> EngineArmed \<and> se_state s \<noteq> EngineRunning then do {
       active \<leftarrow> on_sink (snk_output_active K);
       ret (state_report (se_state s) active)
     }
     else do {
       r \<leftarrow> on_sink (snk_poll K now);
       modify (\<lambda>s. s\<lparr>se_filter_observation := sink_filter_selector r\<rparr>);
       case observed_monotonic_ns r of None \<Rightarrow> poll_launch_seen K r now
       | Some observed \<Rightarrow>
           if observed < now then fail_stream K now ''invalid_progress'' else poll_launch_seen K r observed
     }
   }"

definition poll_stream :: "'k block_sink \<Rightarrow> u64 \<Rightarrow> ('k, 'o, engine_report) engine_action" where
  "poll_stream K now = do {
     result \<leftarrow> poll_impl K now;
     s \<leftarrow> gets id;
     ret (result\<lparr>report_filter_selector := se_filter_observation s\<rparr>)
   }"

definition disable_stream :: "'k block_sink \<Rightarrow> u64 \<Rightarrow> ('k, 'o, bool) engine_action" where
  "disable_stream K deadline = do {
     stopped \<leftarrow> on_sink (snk_stop K deadline);
     active \<leftarrow> (if stopped then on_sink (snk_output_active K) else ret True);
     if active then do {
       modify (\<lambda>s. s\<lparr>se_state := EngineFailed, se_filter_observation := - 2\<rparr>);
       ret False
     }
     else do {
       modify (\<lambda>s. s\<lparr>se_state := EngineIdle, se_filter_observation := - 1, se_job := None, se_plan := empty_plan,
         se_start_conditions := None, se_valid := [0, 0]\<rparr>);
       ret True
     }
   }"

end
