(* ===== verification/Stream_Safety.thy ===== *)
theory Stream_Safety
  imports Stream_Engine
begin

text \<open>
  What the streaming engine hands to its sink. \<open>recorded_sink\<close> is any sink with a log of the blocks
  submitted to it; the log is not visible to the engine. The lemmas follow the two buffers, the
  generator and the log through every operation (\<open>flowing\<close>: the generator stands two blocks after the
  completed ones, each buffer holds the block its slot is due, the log of the epoch is an initial part of the
  blocks of the plan), whatever the sink answers. The properties follow by rule induction on the
  reachable engines.
\<close>

section \<open>Blocks\<close>

type_synonym submission = "u64 \<times> u64 \<times> u32 list \<times> u64"

definition recorded_sink :: "'k block_sink \<Rightarrow> ('k \<times> submission list) block_sink" where
  "recorded_sink K =
     \<lparr>snk_stop = (\<lambda>deadline. aside (snk_stop K deadline)),
      snk_submit = (\<lambda>epoch sequence words valid w. case snk_submit K epoch sequence words valid (fst w) of
        (accepted, k) \<Rightarrow> (accepted, k, snd w @ [(epoch, sequence, words, valid)])),
      snk_arm = (\<lambda>epoch start samples guard. aside (snk_arm K epoch start samples guard)),
      snk_poll = (\<lambda>now. aside (snk_poll K now)), snk_output_active = aside (snk_output_active K),
      snk_snapshot = aside (snk_snapshot K), snk_diagnostic = (\<lambda>w. snk_diagnostic K (fst w)),
      snk_schedules_locally = snk_schedules_locally K, snk_start_resolution_ns = snk_start_resolution_ns K,
      snk_amplifier_tail_ns = snk_amplifier_tail_ns K\<rparr>"

definition submissions :: "('k \<times> submission list, 'o) stream_engine \<Rightarrow> submission list" where
  "submissions s = snd (se_sink s)"

text \<open>The blocks of a plan: 524288 samples in 16384 words each, the last one shorter.\<close>

definition block_bits :: "plan \<Rightarrow> nat \<Rightarrow> bool list" where
  "block_bits p k = drop (524288 * k) (plan_bits p)"

definition block_valid :: "plan \<Rightarrow> nat \<Rightarrow> nat" where
  "block_valid p k = min 524288 (length (block_bits p k))"

definition block_count :: "plan \<Rightarrow> nat" where
  "block_count p = (length (plan_bits p) + 524287) div 524288"

definition submission_of :: "plan \<Rightarrow> u64 \<Rightarrow> nat \<Rightarrow> submission" where
  "submission_of p epoch k =
     (epoch, of_nat k, packed ((block_valid p k + 31) div 32) (block_bits p k), of_nat (block_valid p k))"

definition blocks :: "plan \<Rightarrow> u64 \<Rightarrow> nat \<Rightarrow> submission list" where
  "blocks p epoch n = map (submission_of p epoch) [0..<n]"

definition of_epoch :: "u64 \<Rightarrow> submission list \<Rightarrow> submission list" where
  "of_epoch epoch = filter (\<lambda>b. fst b = epoch)"

definition holds_block :: "nat \<Rightarrow> ('k, 'o) stream_engine \<Rightarrow> bool" where
  "holds_block k s \<longleftrightarrow> se_buffers s ! (k mod 2) = packed 16384 (block_bits (se_plan s) k) \<and>
     se_valid s ! (k mod 2) = of_nat (block_valid (se_plan s) k)"

definition shaped :: "('k, 'o) stream_engine \<Rightarrow> bool" where
  "shaped s \<longleftrightarrow> length (se_buffers s) = 2 \<and> list_all (\<lambda>b. length b = 16384) (se_buffers s) \<and> length (se_valid s) = 2 \<and>
     tables_ok (se_waveform s)"

section \<open>Buffers, generator and log\<close>

text \<open>\<open>generated n s\<close>: the generator stands after \<open>n\<close> blocks.\<close>

definition generated :: "nat \<Rightarrow> ('k, 'o) stream_engine \<Rightarrow> bool" where
  "generated n s \<longleftrightarrow> wave_ok (se_plan s) (se_waveform s) \<and> left (se_plan s) (se_waveform s) = block_bits (se_plan s) n"

definition planned_for :: "('k, 'o) stream_engine \<Rightarrow> bool" where
  "planned_for s \<longleftrightarrow> (\<exists>j k. se_job s = Some (job_digest j) \<and> plan_job j k = Some (se_plan s))"

lemma render_slot_ok:
  assumes "shaped s" "generated n s" "slot = n mod 2"
  shows "shaped (render_slot slot s) \<and> generated (n + 1) (render_slot slot s) \<and> holds_block n (render_slot slot s) \<and>
    (\<forall>k. k mod 2 \<noteq> slot \<longrightarrow> holds_block k s \<longrightarrow> holds_block k (render_slot slot s))"
proof -
  have buffer: "length (se_buffers s ! slot) = 16384" using assms by (simp add: shaped_def list_all_length)
  obtain w where w: "render (se_buffers s ! slot) (se_waveform s) =
      Some (of_nat (block_valid (se_plan s) n), packed 16384 (block_bits (se_plan s) n), w)"
    "wave_ok (se_plan s) w" "left (se_plan s) w = drop 524288 (block_bits (se_plan s) n)"
    using render_ok [of "se_plan s" "se_waveform s" "se_buffers s ! slot"] assms(2) buffer
    by (auto simp: generated_def block_valid_def)
  have "drop 524288 (block_bits (se_plan s) n) = block_bits (se_plan s) (n + 1)"
    by (simp add: block_bits_def add.commute)
  then show ?thesis using assms w
    by (auto simp: render_slot_def shaped_def generated_def holds_block_def packed_def nth_list_update list_all_length wave_ok_def tables_for_def)
qed

lemma planned_bits:
  assumes "planned_for s"
  shows "length (plan_bits (se_plan s)) = unat (total_samples (se_plan s))"
proof -
  obtain j k where "plan_job j k = Some (se_plan s)" using assms by (auto simp: planned_for_def)
  then have "legal_plan (se_plan s)" using plan_job_sound by blast
  note ok = reset_waveform_ok [OF this new_waveform_ok]
  show ?thesis using left_length [OF ok(1)] ok(2) by (simp add: reset_waveform_def Let_def)
qed

lemma planned_blocks: "planned_for s \<Longrightarrow> block_count (se_plan s) \<le> 35184372088832"
  using planned_bits [of s] unat_u64_less [of "total_samples (se_plan s)"] by (simp add: block_count_def)

lemma block_valid_zero: "block_valid p k = 0 \<longleftrightarrow> block_count p \<le> k"
  by (auto simp: block_valid_def block_bits_def block_count_def)

lemma valid_word: "(of_nat (block_valid p k) = (0 :: u64)) \<longleftrightarrow> block_count p \<le> k"
proof -
  have "block_valid p k \<le> 524288" by (simp add: block_valid_def)
  then have "unat (of_nat (block_valid p k) :: u64) = block_valid p k" by (simp add: unat_of_nat)
  then show ?thesis by (metis block_valid_zero unat_eq_0)
qed

lemma block_words: "take (unat ((of_nat (block_valid p k) + 31 :: u64) div 32)) (packed 16384 (block_bits p k)) =
    packed ((block_valid p k + 31) div 32) (block_bits p k)"
proof -
  have v: "block_valid p k \<le> 524288" by (simp add: block_valid_def)
  have "unat (of_nat (block_valid p k) + 31 :: u64) = block_valid p k + 31"
    using v by (subst unat_u64_plus) (simp_all add: unat_of_nat)
  then have "unat ((of_nat (block_valid p k) + 31 :: u64) div 32) = (block_valid p k + 31) div 32"
    by (simp add: unat_div)
  moreover have "(block_valid p k + 31) div 32 \<le> 16384" using v by simp
  ultimately show ?thesis by (simp add: packed_def take_map)
qed

definition advanced :: "('k \<times> submission list, 'o) stream_engine \<Rightarrow> u64 \<Rightarrow> submission list \<Rightarrow>
    ('k \<times> submission list, 'o) stream_engine \<Rightarrow> bool" where
  "advanced s n new t \<longleftrightarrow> (\<exists>k failure. t = s\<lparr>se_sink := (k, submissions s @ new), se_failure := failure, se_submitted := n\<rparr>)"

lemma wp_on_sink [wp_eqs]: "wp (on_sink f) Q s = (case f (se_sink s) of (a, k) \<Rightarrow> Q a (s\<lparr>se_sink := k\<rparr>))"
  by (simp add: wp_def on_sink_def split: prod.split)

lemma submit_next_ok:
  assumes "holds_block k s" "unat (se_submitted s) = k \<or> block_count (se_plan s) \<le> k"
  shows "wp (submit_next (recorded_sink K) (k mod 2)) (\<lambda>ok t.
      if block_count (se_plan s) \<le> k then ok \<and> t = s
      else advanced s (if ok then se_submitted s + 1 else se_submitted s) [submission_of (se_plan s) (se_epoch s) k] t) s"
proof (cases "block_count (se_plan s) \<le> k")
  case True
  then have "se_valid s ! (k mod 2) = 0" using assms(1) valid_word by (simp add: holds_block_def)
  then show ?thesis using True by (simp add: submit_next_def wp_eqs Let_def)
next
  case False
  then have "se_valid s ! (k mod 2) \<noteq> 0" using assms(1) valid_word by (simp add: holds_block_def)
  moreover have "se_submitted s = of_nat k" using assms(2) False by auto
  ultimately show ?thesis using False assms(1)
    by (cases s) (auto simp: submit_next_def wp_eqs Let_def holds_block_def block_words recorded_sink_def submission_of_def
        advanced_def submissions_def split: prod.split)
qed

definition log_ok :: "('k \<times> submission list, 'o) stream_engine \<Rightarrow> bool" where
  "log_ok s \<longleftrightarrow> (\<forall>b \<in> set (submissions s). fst b \<le> se_epoch s)"

definition flowing :: "nat \<Rightarrow> ('k \<times> submission list, 'o) stream_engine \<Rightarrow> bool" where
  "flowing c s \<longleftrightarrow> shaped s \<and> planned_for s \<and> log_ok s \<and> generated (c + 2) s \<and> holds_block c s \<and> holds_block (c + 1) s \<and>
     unat (se_submitted s) = min (c + 2) (block_count (se_plan s)) \<and>
     of_epoch (se_epoch s) (submissions s) = blocks (se_plan s) (se_epoch s) (unat (se_submitted s))"

definition same_job :: "('k, 'o) stream_engine \<Rightarrow> ('k, 'o) stream_engine \<Rightarrow> bool" where
  "same_job s t \<longleftrightarrow> se_plan t = se_plan s \<and> se_job t = se_job s \<and> se_epoch t = se_epoch s \<and> se_state t = se_state s \<and>
     se_launch_ns t = se_launch_ns s"

definition kept :: "('k \<times> submission list, 'o) stream_engine \<Rightarrow> bool" where
  "kept s \<longleftrightarrow> shaped s \<and> log_ok s \<and> (se_job s = None \<or> planned_for s)"

lemma advanced_simps:
  assumes "advanced s n new t"
  shows "same_job s t" "submissions t = submissions s @ new" "se_submitted t = n" "holds_block k t = holds_block k s"
    "generated k t = generated k s" "shaped t = shaped s" "planned_for t = planned_for s"
proof -
  obtain k failure where t: "t = s\<lparr>se_sink := (k, submissions s @ new), se_failure := failure, se_submitted := n\<rparr>"
    using assms by (auto simp: advanced_def)
  show "same_job s t" "submissions t = submissions s @ new" "se_submitted t = n" "holds_block k t = holds_block k s"
    "generated k t = generated k s" "shaped t = shaped s" "planned_for t = planned_for s" for k
    by (simp_all add: t same_job_def submissions_def holds_block_def generated_def shaped_def planned_for_def)
qed

lemma render_slot_frame:
  "same_job s (render_slot slot s)" "se_sink (render_slot slot s) = se_sink s" "se_submitted (render_slot slot s) = se_submitted s"
  "submissions (render_slot slot t) = submissions t" "planned_for (render_slot slot s) = planned_for s"
  "log_ok (render_slot slot t) = log_ok t"
  by (auto simp: render_slot_def same_job_def submissions_def planned_for_def log_ok_def split: option.split)

lemma of_epoch_snoc: "of_epoch e (xs @ [submission_of p e k]) = of_epoch e xs @ [submission_of p e k]"
  by (simp add: of_epoch_def submission_of_def)

lemma blocks_snoc: "blocks p e (k + 1) = blocks p e k @ [submission_of p e k]"
  by (simp add: blocks_def)

lemma refill_step:
  assumes flow: "flowing c s"
  shows "wp (submit_next (recorded_sink K) (c mod 2)) (\<lambda>ok t. same_job s t \<and> kept t \<and> (ok \<longrightarrow> flowing (c + 1) t))
    (render_slot (c mod 2) s)"
proof -
  let ?r = "render_slot (c mod 2) s"
  have r: "shaped ?r" "generated (c + 3) ?r" "holds_block (c + 2) ?r" "holds_block (c + 1) ?r"
  proof -
    have odd: "(c + 1) mod 2 \<noteq> c mod 2" by presburger
    have "c mod 2 = (c + 2) mod 2" by simp
    moreover have "shaped s" "generated (c + 2) s" using flow by (simp_all only: flowing_def)
    ultimately have all: "shaped ?r \<and> generated (c + 2 + 1) ?r \<and> holds_block (c + 2) ?r \<and>
        (\<forall>k. k mod 2 \<noteq> c mod 2 \<longrightarrow> holds_block k s \<longrightarrow> holds_block k ?r)" by (intro render_slot_ok)
    have three: "c + 2 + 1 = c + 3" by simp
    show "shaped ?r" "generated (c + 3) ?r" "holds_block (c + 2) ?r" "holds_block (c + 1) ?r"
      using all [unfolded three] odd flow by (simp_all only: flowing_def simp_thms)
  qed
  have frame: "same_job s ?r" "planned_for ?r" "log_ok ?r" "submissions ?r = submissions s" "se_submitted ?r = se_submitted s"
    using flow by (auto simp: render_slot_frame flowing_def)
  have plan: "se_plan ?r = se_plan s" "se_epoch ?r = se_epoch s" using frame(1) by (simp_all add: same_job_def)
  let ?nb = "block_count (se_plan s)"
  have count: "unat (se_submitted s) = min (c + 2) ?nb" using flow by (simp add: flowing_def)
  have few: "?nb \<le> 35184372088832" using flow by (intro planned_blocks) (simp add: flowing_def)
  have "(c + 2) mod 2 = c mod 2" by simp
  moreover have "wp (submit_next (recorded_sink K) ((c + 2) mod 2)) (\<lambda>ok t.
      if block_count (se_plan ?r) \<le> c + 2 then ok \<and> t = ?r
      else advanced ?r (if ok then se_submitted ?r + 1 else se_submitted ?r) [submission_of (se_plan ?r) (se_epoch ?r) (c + 2)] t) ?r"
    by (rule submit_next_ok [OF r(3)]) (use count frame plan in auto)
  ultimately have submit: "wp (submit_next (recorded_sink K) (c mod 2)) (\<lambda>ok t.
      if ?nb \<le> c + 2 then ok \<and> t = ?r
      else advanced ?r (if ok then se_submitted s + 1 else se_submitted s) [submission_of (se_plan s) (se_epoch s) (c + 2)] t) ?r"
    by (simp only: plan frame)
  show ?thesis
  proof (rule wp_mono [OF submit])
    fix ok t
    assume t: "if ?nb \<le> c + 2 then ok \<and> t = ?r
      else advanced ?r (if ok then se_submitted s + 1 else se_submitted s) [submission_of (se_plan s) (se_epoch s) (c + 2)] t"
    show "same_job s t \<and> kept t \<and> (ok \<longrightarrow> flowing (c + 1) t)"
    proof (cases "?nb \<le> c + 2")
      case True
      then show ?thesis using t r frame count flow plan
        by (auto simp: kept_def flowing_def eval_nat_numeral min_def)
    next
      case False
      then have adv: "advanced ?r (if ok then se_submitted s + 1 else se_submitted s) [submission_of (se_plan s) (se_epoch s) (c + 2)] t"
        using t by simp
      note a = advanced_simps [OF adv]
      have job: "same_job s t" using a(1) frame(1) by (simp add: same_job_def)
      have log: "log_ok t" using frame(3) a(2) job frame(4) flow
        by (auto simp: log_ok_def same_job_def submission_of_def flowing_def)
      have kept: "kept t" using a r frame log by (simp add: kept_def)
      moreover have "flowing (c + 1) t" if ok
      proof -
        have n: "unat (se_submitted t) = c + 3"
          using that a(3) count False few by (simp add: unat_u64_plus)
        have same: "se_epoch t = se_epoch s" "se_plan t = se_plan s" using job by (simp_all add: same_job_def)
        have "of_epoch (se_epoch s) (submissions s) = blocks (se_plan s) (se_epoch s) (c + 2)"
          using flow count False by (simp add: flowing_def)
        moreover have "c + 3 = c + 2 + 1" by simp
        ultimately have "of_epoch (se_epoch t) (submissions t) = blocks (se_plan t) (se_epoch t) (unat (se_submitted t))"
          by (simp only: a(2) frame(4) n same of_epoch_snoc blocks_snoc)
        then show ?thesis using a r frame log job False n
          by (auto simp: flowing_def same_job_def eval_nat_numeral)
      qed
      ultimately show ?thesis using job by simp
    qed
  qed
qed

lemma same_job_trans: "same_job s t \<Longrightarrow> same_job t u \<Longrightarrow> same_job s u"
  by (simp add: same_job_def)

lemma same_job_refl [simp]: "same_job s s"
  by (simp add: same_job_def)

lemma flowing_kept: "flowing c s \<Longrightarrow> kept s"
  by (simp add: flowing_def kept_def)

lemma refill_ok:
  assumes "flowing c s"
  shows "wp (refill (recorded_sink K) [c..<c + n]) (\<lambda>ok t. same_job s t \<and> kept t \<and> (ok \<longrightarrow> flowing (c + n) t)) s"
  using assms
proof (induction n arbitrary: c s)
  case (Suc n)
  have split: "[c..<c + Suc n] = c # [c + 1..<c + 1 + n]" by (simp add: upt_conv_Cons)
  have "wp (submit_next (recorded_sink K) (c mod 2)) (\<lambda>ok. wp (if ok then refill (recorded_sink K) [c + 1..<c + 1 + n] else ret False)
      (\<lambda>ok t. same_job s t \<and> kept t \<and> (ok \<longrightarrow> flowing (c + Suc n) t))) (render_slot (c mod 2) s)"
  proof (rule wp_mono [OF refill_step [OF Suc.prems]])
    fix ok t
    assume t: "same_job s t \<and> kept t \<and> (ok \<longrightarrow> flowing (c + 1) t)"
    show "wp (if ok then refill (recorded_sink K) [c + 1..<c + 1 + n] else ret False)
        (\<lambda>ok t. same_job s t \<and> kept t \<and> (ok \<longrightarrow> flowing (c + Suc n) t)) t"
    proof (cases ok)
      case True
      then show ?thesis using wp_mono [OF Suc.IH [of "c + 1" t]] t same_job_trans [of s t] by auto
    qed (use t in \<open>simp add: wp_eqs\<close>)
  qed
  then show ?case by (simp only: split refill.simps wp_bind wp_modify)
qed (simp add: wp_eqs flowing_kept)

section \<open>The invariant\<close>

text \<open>The invariant of the engine with a recorded sink.\<close>

definition all_submitted :: "('k \<times> submission list, 'o) stream_engine \<Rightarrow> bool" where
  "all_submitted s \<longleftrightarrow> planned_for s \<and> unat (se_submitted s) = block_count (se_plan s) \<and>
     of_epoch (se_epoch s) (submissions s) = blocks (se_plan s) (se_epoch s) (block_count (se_plan s))"

definition engine_ok :: "('k \<times> submission list, 'o) stream_engine \<Rightarrow> bool" where
  "engine_ok s \<longleftrightarrow> kept s \<and>
     (se_state s = EngineIdle \<and> se_job s \<noteq> None \<longrightarrow> generated 2 s \<and> holds_block 0 s \<and> holds_block 1 s) \<and>
     (se_state s \<in> {EngineArmed, EngineRunning} \<longrightarrow>
        flowing (unat (se_completed s)) s \<or> (se_completed s = se_submitted s \<and> all_submitted s)) \<and>
     (se_state s = EngineComplete \<longrightarrow> all_submitted s)"

text \<open>What the sink, the observations and the clock change leaves the invariant alone.\<close>

definition untouched :: "('k \<times> submission list, 'o) stream_engine \<Rightarrow> ('k \<times> submission list, 'o) stream_engine \<Rightarrow> bool" where
  "untouched s t \<longleftrightarrow> submissions t = submissions s \<and> se_plan t = se_plan s \<and> se_job t = se_job s \<and>
     se_waveform t = se_waveform s \<and> se_buffers t = se_buffers s \<and> se_valid t = se_valid s \<and> se_state t = se_state s \<and>
     se_epoch t = se_epoch s \<and> se_submitted t = se_submitted s \<and> se_completed t = se_completed s"

lemma untouched_refl [simp]: "untouched s s"
  by (simp add: untouched_def)

lemma untouched_parts:
  assumes "untouched s t"
  shows "kept t = kept s" "flowing c t = flowing c s" "all_submitted t = all_submitted s" "generated k t = generated k s"
    "holds_block k t = holds_block k s" "engine_ok t = engine_ok s"
proof -
  note u = assms [unfolded untouched_def]
  show parts: "kept t = kept s" "flowing c t = flowing c s" "all_submitted t = all_submitted s" "generated k t = generated k s"
    "holds_block k t = holds_block k s" for c k
    using u by (simp_all add: kept_def shaped_def log_ok_def planned_for_def flowing_def generated_def holds_block_def all_submitted_def)
  show "engine_ok t = engine_ok s" using u parts by (simp add: engine_ok_def)
qed

lemma wp_aside: "(\<And>a t. untouched s t \<Longrightarrow> se_launch_ns t = se_launch_ns s \<Longrightarrow> Q a t) \<Longrightarrow> wp (on_sink (aside f)) Q s"
  by (auto simp: wp_on_sink aside_def untouched_def submissions_def split: prod.split)

lemma recorded_calls [simp]:
  "snk_stop (recorded_sink K) d = aside (snk_stop K d)" "snk_arm (recorded_sink K) e st n g = aside (snk_arm K e st n g)"
  "snk_poll (recorded_sink K) now = aside (snk_poll K now)" "snk_output_active (recorded_sink K) = aside (snk_output_active K)"
  "snk_snapshot (recorded_sink K) = aside (snk_snapshot K)"
  "snk_start_resolution_ns (recorded_sink K) = snk_start_resolution_ns K"
  "snk_amplifier_tail_ns (recorded_sink K) = snk_amplifier_tail_ns K"
  by (simp_all add: recorded_sink_def)

lemma kept_state [simp]:
  "kept (s\<lparr>se_state := st\<rparr>) = kept s" "kept (s\<lparr>se_failure := f\<rparr>) = kept s"
  "kept (s\<lparr>se_filter_observation := n\<rparr>) = kept s" "kept (s\<lparr>se_start_conditions := c\<rparr>) = kept s"
  "kept (s\<lparr>se_last_poll_ns := m\<rparr>) = kept s" "kept (s\<lparr>se_completed := m\<rparr>) = kept s" "kept (s\<lparr>se_consumed := m\<rparr>) = kept s"
  "kept (s\<lparr>se_launch_deadline_ns := m\<rparr>) = kept s" "kept (s\<lparr>se_correction_ppb := ppb\<rparr>) = kept s"
  "kept (s\<lparr>se_filters := fs\<rparr>) = kept s"
  by (simp_all add: kept_def shaped_def log_ok_def planned_for_def submissions_def)

definition settled :: "engine_state \<Rightarrow> bool" where
  "settled st \<longleftrightarrow> st = EngineFailed \<or> st = EngineMissed"

lemma settled_ok: "kept s \<Longrightarrow> settled (se_state s) \<Longrightarrow> engine_ok s"
  by (auto simp: engine_ok_def settled_def)

lemma untouched_kept: "untouched s t \<Longrightarrow> kept s \<Longrightarrow> kept t"
  by (simp add: untouched_parts)

section \<open>The operations keep the invariant\<close>

lemma fail_stream_ok:
  assumes "kept s"
  shows "wp (fail_stream (recorded_sink K) now reason) (\<lambda>r t. engine_ok t \<and> report_state r = EngineFailed) s"
proof -
  have failed: "engine_ok t" if "untouched (s\<lparr>se_failure := reason, se_state := EngineFailed\<rparr>) u"
    "untouched (u\<lparr>se_filter_observation := n\<rparr>) t" for u n t
  proof -
    have "kept t" using that assms by (metis kept_state(1-3) untouched_kept)
    moreover have "se_state t = EngineFailed" using that by (simp add: untouched_def)
    ultimately show ?thesis by (simp add: settled_ok settled_def)
  qed
  show ?thesis
    by (auto simp: fail_stream_def wp_bind wp_modify wp_ret state_report_def intro!: wp_aside) (blast intro: failed)+
qed

lemma position_done:
  assumes "flowing c s" "wave_position (se_waveform s) = total_samples (se_plan s)"
  shows "all_submitted s"
proof -
  have "wave_ok (se_plan s) (se_waveform s)" "left (se_plan s) (se_waveform s) = block_bits (se_plan s) (c + 2)"
    using assms(1) by (simp_all add: flowing_def generated_def)
  with left_length have "length (block_bits (se_plan s) (c + 2)) = 0" using assms(2) by fastforce
  then have "block_valid (se_plan s) (c + 2) = 0" by (simp add: block_valid_def)
  then have "unat (se_submitted s) = block_count (se_plan s)"
    using assms(1) by (simp only: block_valid_zero flowing_def)
  then show ?thesis using assms(1) by (simp add: flowing_def all_submitted_def)
qed

lemma state_parts:
  "flowing c (s\<lparr>se_state := st\<rparr>) = flowing c s" "flowing c (s\<lparr>se_completed := n\<rparr>) = flowing c s"
  "flowing c (s\<lparr>se_consumed := n\<rparr>) = flowing c s" "flowing c (s\<lparr>se_last_poll_ns := n\<rparr>) = flowing c s"
  "all_submitted (s\<lparr>se_state := st\<rparr>) = all_submitted s" "all_submitted (s\<lparr>se_completed := n\<rparr>) = all_submitted s"
  "all_submitted (s\<lparr>se_consumed := n\<rparr>) = all_submitted s" "all_submitted (s\<lparr>se_last_poll_ns := n\<rparr>) = all_submitted s"
  by (simp_all add: flowing_def shaped_def planned_for_def log_ok_def generated_def holds_block_def submissions_def all_submitted_def)

lemma poll_running_ok:
  assumes ok: "engine_ok s" and st: "se_state s \<in> {EngineArmed, EngineRunning}"
    and le: "se_completed s \<le> completed_blocks r" "completed_blocks r \<le> se_submitted s"
  shows "wp (poll_running (recorded_sink K) r now active) (\<lambda>_ t. engine_ok t) s"
proof (cases "running_broken r now active s")
  case True
  have "kept s" using ok by (simp add: engine_ok_def)
  then show ?thesis using True by (auto simp: poll_running_def wp_bind wp_gets intro!: wp_mono [OF fail_stream_ok])
next
  case False
  have active: "sink_state r = EngineArmed \<or> sink_state r = EngineRunning"
    using False by (auto simp: running_broken_def)
  have "completed_blocks r \<noteq> se_submitted s" using False by (simp add: running_broken_def)
  then have "se_completed s \<noteq> se_submitted s" using le by auto
  then have flow: "flowing (unat (se_completed s)) s" using ok st by (auto simp: engine_ok_def)
  obtain n where n: "unat (completed_blocks r) = unat (se_completed s) + n"
    using le(1) le_Suc_ex by (auto simp: word_le_nat_alt)
  have refill: "wp (refill (recorded_sink K) [unat (se_completed s)..<unat (completed_blocks r)])
      (\<lambda>ok t. same_job s t \<and> kept t \<and> (ok \<longrightarrow> flowing (unat (completed_blocks r)) t)) s"
    unfolding n by (rule refill_ok [OF flow])
  have finish: "engine_ok (t\<lparr>se_completed := completed_blocks r, se_consumed := consumed_samples r, se_state := sink_state r\<rparr>)"
    if "flowing (unat (completed_blocks r)) t" for t
    using that active by (auto simp: engine_ok_def state_parts dest: flowing_kept)
  show ?thesis using False
    by (auto simp: poll_running_def wp_bind wp_gets wp_modify wp_ret intro!: wp_mono [OF refill] finish
        wp_mono [OF fail_stream_ok])
qed

lemma untouched_ok: "untouched s t \<Longrightarrow> engine_ok s \<Longrightarrow> engine_ok t"
  by (simp add: untouched_parts)

lemma engine_kept: "engine_ok s \<Longrightarrow> kept s"
  by (simp add: engine_ok_def)

lemma fail_ok: "kept s \<Longrightarrow> wp (fail_stream (recorded_sink K) now reason) (\<lambda>_ t. engine_ok t) s"
  by (rule wp_mono [OF fail_stream_ok]) simp_all

lemma polled_ok: "engine_ok s \<Longrightarrow> engine_ok (s\<lparr>se_last_poll_ns := now\<rparr>)"
  by (rule untouched_ok [of s]) (simp_all add: untouched_def submissions_def)

lemma settled_poll: "kept s \<Longrightarrow> engine_ok (s\<lparr>se_failure := f, se_state := EngineMissed\<rparr>)"
  by (rule settled_ok) (simp_all add: settled_def)

lemma missed_ok: "kept s \<Longrightarrow> engine_ok (s\<lparr>se_state := EngineMissed\<rparr>)"
  by (rule settled_ok) (simp_all add: settled_def)

lemma finished:
  assumes "engine_ok s" "se_state s \<in> {EngineArmed, EngineRunning}"
    "wave_position (se_waveform s) = total_samples (se_plan s)"
  shows "all_submitted s"
  using assms position_done by (auto simp: engine_ok_def)

lemma complete_ok: "kept s \<Longrightarrow> all_submitted s \<Longrightarrow> engine_ok (s\<lparr>se_state := EngineComplete\<rparr>)"
  by (simp add: engine_ok_def state_parts)

lemma tail_ok: "kept s \<Longrightarrow> all_submitted s \<Longrightarrow>
    engine_ok (s\<lparr>se_state := EngineRunning, se_completed := se_submitted s, se_consumed := n\<rparr>)"
  by (simp add: engine_ok_def state_parts)

lemma wp_cond: "(b \<Longrightarrow> wp f Q s) \<Longrightarrow> (\<not> b \<Longrightarrow> wp g Q s) \<Longrightarrow> wp (if b then f else g) Q s"
  by simp

lemma poll_phase_ok:
  assumes ok: "engine_ok s" and st: "se_state s \<in> {EngineArmed, EngineRunning}"
    and le: "se_completed s \<le> completed_blocks r" "completed_blocks r \<le> se_submitted s"
  shows "wp (poll_phase (recorded_sink K) r now active) (\<lambda>_ t. engine_ok t) s"
proof -
  let ?s = "s\<lparr>se_last_poll_ns := now\<rparr>"
  have polled: "engine_ok ?s" by (rule polled_ok [OF ok])
  note kept = engine_kept [OF polled]
  have whole: "all_submitted ?s" if "wave_position (se_waveform s) = total_samples (se_plan s)"
    using finished [OF polled] st that by simp
  have running: "wp (poll_running (recorded_sink K) r now active) (\<lambda>_ t. engine_ok t) ?s"
    by (rule poll_running_ok [OF polled]) (use st le in simp_all)
  have tail: "engine_ok (?s\<lparr>se_state := EngineRunning, se_completed := completed_blocks r, se_consumed := consumed_samples r\<rparr>)"
    if "in_tail (recorded_sink K) r now active ?s"
    using tail_ok [OF kept whole] that by (simp add: in_tail_def)
  show ?thesis
    unfolding poll_phase_def wp_bind wp_modify wp_gets id_apply
    by (intro wp_cond) (use fail_ok [OF kept] settled_poll [OF kept] complete_ok [OF kept whole] tail running
        in \<open>auto simp: wp_bind wp_modify wp_ret\<close>)
qed

lemma poll_waiting_ok:
  assumes "engine_ok s"
  shows "wp (poll_waiting (recorded_sink K) r now active) (\<lambda>_ t. engine_ok t) s"
proof -
  let ?s = "s\<lparr>se_last_poll_ns := now\<rparr>"
  have polled: "engine_ok ?s" by (rule polled_ok [OF assms])
  show ?thesis using polled engine_kept [OF assms]
    by (auto simp: poll_waiting_def wp_bind wp_gets wp_modify wp_ret untouched_parts dest: engine_kept
        intro!: wp_aside fail_ok missed_ok)
qed

lemma untouched_state: "untouched s t \<Longrightarrow> se_state t = se_state s"
  by (simp add: untouched_def)

lemma poll_progress_ok:
  assumes "engine_ok s" "se_state s \<in> {EngineArmed, EngineRunning}"
  shows "wp (poll_progress (recorded_sink K) r now) (\<lambda>_ t. engine_ok t) s"
proof -
  have step: "wp (if progress_broken r now t then fail_stream (recorded_sink K) now ''progress_counters''
      else if waiting_for_launch r active t then poll_waiting (recorded_sink K) r now active
      else if completed_blocks r \<noteq> expected_completed r t \<or> consumed_samples r > expected_samples now t
      then fail_stream (recorded_sink K) now ''progress_time''
      else poll_phase (recorded_sink K) r now active) (\<lambda>_ t. engine_ok t) t"
    if "untouched s t" for t active
  proof -
    have ok: "engine_ok t" "se_state t \<in> {EngineArmed, EngineRunning}" "kept t"
      using that assms engine_kept by (auto simp: untouched_parts untouched_state)
    have "se_completed t \<le> completed_blocks r" "completed_blocks r \<le> se_submitted t" if "\<not> progress_broken r now t"
      using that by (auto simp: progress_broken_def Let_def)
    then show ?thesis
      by (intro wp_cond fail_ok [OF ok(3)] poll_waiting_ok [OF ok(1)] poll_phase_ok [OF ok(1,2)])
  qed
  show ?thesis
    by (cases "observed_output_active r") (auto simp only: poll_progress_def wp_bind wp_gets wp_ret option.simps recorded_calls id_apply
        intro!: wp_aside step untouched_refl)
qed

lemma launched_ok: "engine_ok s \<Longrightarrow> engine_ok (s\<lparr>se_launch_ns := l, se_start_ns := m, se_end_ns := n\<rparr>)"
  by (rule untouched_ok [of s]) (simp_all add: untouched_def submissions_def)

lemma poll_launch_seen_ok:
  assumes "engine_ok s" "se_state s \<in> {EngineArmed, EngineRunning}"
  shows "wp (poll_launch_seen (recorded_sink K) r now) (\<lambda>_ t. engine_ok t) s"
  using assms fail_ok [OF engine_kept [OF assms(1)]] poll_progress_ok [OF launched_ok [OF assms(1)]] poll_progress_ok [OF assms]
  by (simp add: poll_launch_seen_def wp_bind wp_gets wp_modify Let_def split: option.split)

lemma observed_ok: "engine_ok s \<Longrightarrow> engine_ok (s\<lparr>se_filter_observation := n\<rparr>)"
  by (rule untouched_ok [of s]) (simp_all add: untouched_def submissions_def)

lemma poll_impl_ok:
  assumes "engine_ok s"
  shows "wp (poll_impl (recorded_sink K) now) (\<lambda>_ t. engine_ok t) s"
proof -
  have polled: "wp (case observed_monotonic_ns r of None \<Rightarrow> poll_launch_seen (recorded_sink K) r now
       | Some observed \<Rightarrow>
           if observed < now then fail_stream (recorded_sink K) now ''invalid_progress''
           else poll_launch_seen (recorded_sink K) r observed) (\<lambda>_ t. engine_ok t)
      (t\<lparr>se_filter_observation := sink_filter_selector r\<rparr>)"
    if "untouched s t" "se_state s \<in> {EngineArmed, EngineRunning}" for r t
  proof -
    let ?t = "t\<lparr>se_filter_observation := sink_filter_selector r\<rparr>"
    have ok: "engine_ok ?t" "se_state ?t \<in> {EngineArmed, EngineRunning}"
      using that assms by (auto simp: untouched_parts untouched_state intro!: observed_ok)
    show ?thesis
      using fail_ok [OF engine_kept [OF ok(1)]] poll_launch_seen_ok [OF ok] by (simp split: option.split)
  qed
  show ?thesis
    unfolding poll_impl_def wp_bind wp_gets id_apply
    by (intro wp_cond)
      (use assms in \<open>auto simp: wp_bind wp_modify wp_ret untouched_parts intro!: wp_aside polled\<close>)
qed

lemma poll_stream_ok: "engine_ok s \<Longrightarrow> wp (poll_stream (recorded_sink K) now) (\<lambda>_ t. engine_ok t) s"
  unfolding poll_stream_def wp_bind wp_gets wp_ret by (rule wp_mono [OF poll_impl_ok])

lemma disable_stream_ok:
  assumes "engine_ok s"
  shows "wp (disable_stream (recorded_sink K) deadline) (\<lambda>_ t. engine_ok t) s"
proof -
  have failed: "engine_ok (t\<lparr>se_state := EngineFailed, se_filter_observation := n\<rparr>)" if "kept t" for t n
    by (rule settled_ok) (use that in \<open>simp_all add: settled_def\<close>)
  have idle: "engine_ok (t\<lparr>se_state := EngineIdle, se_filter_observation := n, se_job := None, se_plan := empty_plan,
      se_start_conditions := None, se_valid := [0, 0]\<rparr>)" if "kept t" for t n
    using that by (simp add: engine_ok_def kept_def shaped_def log_ok_def submissions_def)
  show ?thesis using engine_kept [OF assms]
    by (auto simp: disable_stream_def wp_bind wp_modify wp_ret untouched_parts intro!: wp_aside failed idle)
qed

lemma correction_ok: "engine_ok s \<Longrightarrow> wp (set_frequency_correction (recorded_sink K) ppb) (\<lambda>_ t. engine_ok t) s"
proof -
  assume ok: "engine_ok s"
  have "engine_ok (t\<lparr>se_correction_ppb := ppb\<rparr>)" if "untouched s t" for t
    by (rule untouched_ok [of s]) (use ok that in \<open>auto simp: untouched_def submissions_def\<close>)
  then show ?thesis using ok
    by (auto simp: set_frequency_correction_def wp_bind wp_gets wp_modify wp_ret untouched_parts intro!: wp_aside)
qed

lemma adopt_plan_ok:
  assumes "kept s" "plan_job j k = Some p" "se_state s = EngineIdle"
  shows "engine_ok (adopt_plan j p s)"
proof -
  let ?s = "s\<lparr>se_failure := [], se_job := Some (job_digest j), se_plan := p, se_waveform := reset_waveform p (se_waveform s)\<rparr>"
  have legal: "legal_plan p" using assms(2) plan_job_sound by blast
  have tables: "tables_ok (se_waveform s)" using assms(1) by (simp add: kept_def shaped_def)
  note reset = reset_waveform_ok [OF legal tables]
  have s0: "shaped ?s" "generated 0 ?s" "log_ok ?s" "planned_for ?s"
    using assms reset by (auto simp: kept_def shaped_def generated_def block_bits_def log_ok_def submissions_def planned_for_def wave_ok_def tables_for_def)
  let ?t = "render_slot 0 ?s"
  have s1: "shaped ?t" "generated 1 ?t" "holds_block 0 ?t"
    using render_slot_ok [OF s0(1,2), of 0] by auto
  let ?u = "render_slot 1 ?t"
  have s2: "shaped ?u" "generated 2 ?u" "holds_block 1 ?u" "holds_block 0 ?u"
    using render_slot_ok [OF s1(1,2), of 1] s1(3) by (auto simp: numeral_2_eq_2)
  have frame: "log_ok ?u" "planned_for ?u" "se_state ?u = EngineIdle" "se_job ?u = Some (job_digest j)"
    using s0 assms(3) render_slot_frame(1) [of ?s 0] render_slot_frame(1) [of ?t 1]
    by (simp_all add: render_slot_frame same_job_def)
  show ?thesis
    using s2 frame by (simp add: adopt_plan_def engine_ok_def kept_def)
qed

lemma prepare_stream_ok: "engine_ok s \<Longrightarrow> wp (prepare_stream (recorded_sink K) j) (\<lambda>_ t. engine_ok t) s"
proof -
  assume ok: "engine_ok s"
  have reject: "engine_ok (t\<lparr>se_filters := fs, se_failure := f\<rparr>)" if "untouched s t" for t fs f
    by (rule untouched_ok [of s]) (use ok that in \<open>auto simp: untouched_def submissions_def\<close>)
  have adopt: "engine_ok (adopt_plan j p (t\<lparr>se_filters := fs\<rparr>))"
    if "untouched s t" "se_state s = EngineIdle" "plan_job j k = Some p" for t p k fs
    by (rule adopt_plan_ok) (use that ok in \<open>auto simp: untouched_parts untouched_state engine_kept\<close>)
  show ?thesis using ok
    by (auto simp: prepare_stream_def wp_bind wp_gets wp_modify wp_ret untouched_parts intro!: wp_aside reject adopt
        split: option.split prod.split bool.split)
qed

definition started :: "nat \<Rightarrow> ('k \<times> submission list, 'o) stream_engine \<Rightarrow> bool" where
  "started n s \<longleftrightarrow> shaped s \<and> planned_for s \<and> log_ok s \<and> generated 2 s \<and> holds_block 0 s \<and> holds_block 1 s \<and>
     unat (se_submitted s) = min n (block_count (se_plan s)) \<and> se_completed s = 0 \<and>
     of_epoch (se_epoch s) (submissions s) = blocks (se_plan s) (se_epoch s) (unat (se_submitted s))"

lemma started_kept: "started n s \<Longrightarrow> kept s"
  by (simp add: started_def kept_def)

lemma start_step:
  assumes start: "started k s" and k: "k < 2"
  shows "wp (submit_next (recorded_sink K) k) (\<lambda>ok t. kept t \<and> (ok \<longrightarrow> started (k + 1) t)) s"
proof -
  let ?nb = "block_count (se_plan s)"
  have count: "unat (se_submitted s) = min k ?nb" using start by (simp add: started_def)
  have holds: "holds_block k s" using start k by (auto simp: started_def less_2_cases_iff)
  have slot: "k mod 2 = k" using k by simp
  have submit: "wp (submit_next (recorded_sink K) k) (\<lambda>ok t.
      if ?nb \<le> k then ok \<and> t = s
      else advanced s (if ok then se_submitted s + 1 else se_submitted s) [submission_of (se_plan s) (se_epoch s) k] t) s"
    using submit_next_ok [OF holds, of K] count by (simp only: slot) (auto simp: min_def)
  show ?thesis
  proof (rule wp_mono [OF submit])
    fix ok t
    assume t: "if ?nb \<le> k then ok \<and> t = s
      else advanced s (if ok then se_submitted s + 1 else se_submitted s) [submission_of (se_plan s) (se_epoch s) k] t"
    show "kept t \<and> (ok \<longrightarrow> started (k + 1) t)"
    proof (cases "?nb \<le> k")
      case True
      then show ?thesis using t start count started_kept [OF start] by (auto simp: started_def min_def)
    next
      case False
      then have adv: "advanced s (if ok then se_submitted s + 1 else se_submitted s) [submission_of (se_plan s) (se_epoch s) k] t"
        using t by simp
      note a = advanced_simps [OF adv]
      have log: "log_ok t" using start a(1,2) by (auto simp: log_ok_def same_job_def submission_of_def started_def)
      have kept: "kept t" using a start log by (simp add: kept_def started_def)
      have "started (k + 1) t" if ok
      proof -
        have u: "unat (se_submitted s) = k" using count False by simp
        have n: "unat (se_submitted t) = k + 1" using that a(3) u k by (simp add: unat_u64_plus)
        have same: "se_epoch t = se_epoch s" "se_plan t = se_plan s" using a(1) by (simp_all add: same_job_def)
        have "se_completed t = se_completed s" using adv by (auto simp: advanced_def)
        moreover have "of_epoch (se_epoch s) (submissions s) = blocks (se_plan s) (se_epoch s) k"
          using start u by (simp add: started_def)
        then have "of_epoch (se_epoch t) (submissions t) = blocks (se_plan t) (se_epoch t) (unat (se_submitted t))"
          by (simp only: a(2) n same of_epoch_snoc blocks_snoc)
        ultimately show ?thesis using a start log False n same by (simp add: started_def)
      qed
      then show ?thesis using kept by simp
    qed
  qed
qed

lemma started_flowing: "started 2 s \<Longrightarrow> flowing 0 s"
  by (simp add: started_def flowing_def numeral_2_eq_2)

lemma armed_ok: "started 2 s \<Longrightarrow> engine_ok (s\<lparr>se_state := EngineArmed\<rparr>)"
  using started_flowing [of s] by (simp add: engine_ok_def state_parts flowing_kept) (simp add: started_def)

lemma untouched_started: "untouched s t \<Longrightarrow> started n t = started n s"
  by (simp add: untouched_def started_def shaped_def log_ok_def planned_for_def generated_def holds_block_def)

lemma new_epoch_started:
  assumes "engine_ok s" "se_state s = EngineIdle" "se_job s \<noteq> None" "se_epoch s \<noteq> u64_max"
  shows "started 0 (s\<lparr>se_epoch := se_epoch s + 1, se_submitted := 0, se_completed := 0, se_consumed := 0,
    se_start_ns := a, se_end_ns := b, se_last_poll_ns := 0, se_launch_ns := None\<rparr>)"
proof -
  have "se_epoch s < u64_max" using assms(4) by (simp add: order.not_eq_order_implies_strict)
  then have "unat (se_epoch s) < 18446744073709551615" by (simp only: word_less_nat_alt unat_u64_max)
  then have later: "se_epoch s < se_epoch s + 1" by (simp add: word_less_nat_alt unat_u64_plus)
  have "\<forall>b \<in> set (submissions s). fst b \<le> se_epoch s" using assms(1) by (simp add: engine_ok_def kept_def log_ok_def)
  then have "of_epoch (se_epoch s + 1) (submissions s) = []" "\<forall>b \<in> set (submissions s). fst b \<le> se_epoch s + 1"
    using later by (fastforce simp: of_epoch_def filter_empty_conv)+
  then show ?thesis using assms
    by (simp add: started_def engine_ok_def kept_def shaped_def planned_for_def log_ok_def generated_def holds_block_def
        submissions_def blocks_def)
qed

lemma wp_submit:
  assumes "started k s" "k < 2" "\<And>ok t. kept t \<Longrightarrow> (ok \<Longrightarrow> started (k + 1) t) \<Longrightarrow> Q ok t"
  shows "wp (submit_next (recorded_sink K) k) Q s"
  using assms by (intro wp_mono [OF start_step]) auto

lemma launch_sequence:
  assumes "started 0 s" "\<And>second t. kept t \<Longrightarrow> (second \<Longrightarrow> started 2 t) \<Longrightarrow> Q second t"
  shows "wp (submit_next (recorded_sink K) 0) (\<lambda>first. wp (if first then submit_next (recorded_sink K) 1 else ret False) Q) s"
proof (rule wp_submit [OF assms(1)])
  fix ok and t :: "('a \<times> submission list, 'b) stream_engine"
  assume t: "kept t" "ok \<Longrightarrow> started (0 + 1) t"
  show "wp (if ok then submit_next (recorded_sink K) 1 else ret False) Q t"
  proof (cases ok)
    case True
    then have "started 1 t" using t by simp
    then have "wp (submit_next (recorded_sink K) 1) Q t"
      by (rule wp_submit) (use assms(2) in \<open>auto simp: numeral_2_eq_2\<close>)
    with True show ?thesis by simp
  qed (use t assms(2) in \<open>simp add: wp_eqs\<close>)
qed simp

lemma wp_bind_fun: "wp (m \<bind> k) Q = wp m (\<lambda>a. wp (k a) Q)"
  by (rule ext) (rule wp_bind)

lemma fail_false: "kept s \<Longrightarrow> wp (fail_stream (recorded_sink K) now reason) (\<lambda>a. wp (ret False) (\<lambda>_. engine_ok)) s"
  by (rule wp_mono [OF fail_stream_ok]) (simp_all add: wp_ret)

lemma launch_stream_ok:
  assumes "started 0 s"
  shows "wp (launch_stream (recorded_sink K)) (\<lambda>_ t. engine_ok t) s"
  unfolding launch_stream_def wp_bind_fun
proof (rule launch_sequence [OF assms])
  fix second and t :: "('a \<times> submission list, 'b) stream_engine"
  assume t: "kept t" "second \<Longrightarrow> started 2 t"
  have arm: "wp (on_sink (aside f)) (\<lambda>armed. wp (if \<not> armed
      then gets id \<bind> (\<lambda>s. fail_stream (recorded_sink K) (se_start_ns s) (se_failure s) \<bind> (\<lambda>_. ret False))
      else modify (\<lambda>s. s\<lparr>se_state := EngineArmed\<rparr>) \<bind> (\<lambda>_. ret True)) (\<lambda>_ t. engine_ok t)) t" if "started 2 t" for f
    using that t(1) by (auto simp: wp_bind wp_gets wp_modify wp_ret untouched_started intro!: wp_aside fail_false armed_ok
        intro: untouched_kept)
  have "wp (ret False) (\<lambda>armed. wp (if \<not> armed
      then gets id \<bind> (\<lambda>s. fail_stream (recorded_sink K) (se_start_ns s) (se_failure s) \<bind> (\<lambda>_. ret False))
      else modify (\<lambda>s. s\<lparr>se_state := EngineArmed\<rparr>) \<bind> (\<lambda>_. ret True)) (\<lambda>_ t. engine_ok t)) t"
    using t(1) by (auto simp: wp_bind wp_gets wp_ret intro!: fail_false)
  then show "wp (gets id) (\<lambda>s. wp (if second
       then on_sink (snk_arm (recorded_sink K) (se_epoch s) (se_start_ns s) (total_samples (se_plan s))
         (map_option (\<lambda>_. se_launch_deadline_ns s) (se_start_conditions s)))
       else ret False) (\<lambda>armed. wp (if \<not> armed
      then gets id \<bind> (\<lambda>s. fail_stream (recorded_sink K) (se_start_ns s) (se_failure s) \<bind> (\<lambda>_. ret False))
      else modify (\<lambda>s. s\<lparr>se_state := EngineArmed\<rparr>) \<bind> (\<lambda>_. ret True)) (\<lambda>_. engine_ok))) t"
    using arm t by (simp add: wp_gets)
qed

lemma begin_stream_ok:
  assumes ok: "engine_ok s"
  shows "wp (begin_stream (recorded_sink K) j start) (\<lambda>_ t. engine_ok t) s"
proof -
  have failed: "engine_ok (t\<lparr>se_state := EngineFailed, se_filter_observation := n\<rparr>)" if "kept t" for t n
    by (rule settled_ok) (use that in \<open>simp_all add: settled_def\<close>)
  show ?thesis
  proof (cases "se_state s \<noteq> EngineIdle \<or> se_job s \<noteq> Some (job_digest j) \<or> se_epoch s = u64_max")
    case False
    have fresh: "started 0 (u\<lparr>se_epoch := se_epoch u + 1, se_submitted := 0, se_completed := 0, se_consumed := 0,
        se_start_ns := a, se_end_ns := b, se_last_poll_ns := 0, se_launch_ns := None\<rparr>)"
      if "untouched s t" "untouched t u" for t u a b
    proof -
      have "untouched s u" using that by (simp add: untouched_def)
      then show ?thesis using False ok
        by (intro new_epoch_started) (simp_all add: untouched_parts, simp_all add: untouched_def)
    qed
    show ?thesis
      unfolding begin_stream_def
      by (auto simp: wp_bind wp_gets wp_modify wp_ret Let_def ok untouched_parts engine_kept
          intro!: wp_aside failed launch_stream_ok fresh)
  qed (use ok in \<open>auto simp: begin_stream_def wp_bind wp_gets wp_ret Let_def\<close>)
qed

lemma schedule_stream_ok:
  assumes "engine_ok s"
  shows "wp (schedule_stream (recorded_sink K) j start conditions) (\<lambda>_ t. engine_ok t) s"
proof -
  have conditions: "engine_ok (s\<lparr>se_start_conditions := c\<rparr>)" for c
    by (rule untouched_ok [OF _ assms]) (simp add: untouched_def submissions_def)
  have deadline: "engine_ok (t\<lparr>se_launch_deadline_ns := d\<rparr>)" if "untouched (s\<lparr>se_start_conditions := c\<rparr>) t" for c t d
    by (rule untouched_ok [OF _ conditions [of c]]) (use that in \<open>simp add: untouched_def submissions_def\<close>)
  have local: "snk_schedules_locally (recorded_sink K) = snk_schedules_locally K" by (simp add: recorded_sink_def)
  show ?thesis
    by (cases conditions)
      (auto simp: schedule_stream_def wp_bind wp_gets wp_modify wp_ret Let_def local assms conditions untouched_parts
        intro!: wp_aside deadline begin_stream_ok split: option.split)
qed

section \<open>Reachable engines\<close>

inductive stream_step :: "'k block_sink \<Rightarrow> ('k, 'o) stream_engine \<Rightarrow> ('k, 'o) stream_engine \<Rightarrow> bool" for K where
  correct_stream: "stream_step K s (snd (run_state (set_frequency_correction K ppb) s))"
| prepare_stream: "stream_step K s (snd (run_state (prepare_stream K j) s))"
| schedule_stream: "stream_step K s (snd (run_state (schedule_stream K j start conditions) s))"
| start_stream: "stream_step K s (snd (run_state (begin_stream K j start) s))"
| poll_stream: "stream_step K s (snd (run_state (poll_stream K now) s))"
| disable_stream: "stream_step K s (snd (run_state (disable_stream K deadline) s))"

inductive stream_reached :: "'k block_sink \<Rightarrow> 'k \<Rightarrow> ('k, 'o) stream_engine \<Rightarrow> bool" for K k where
  created_stream: "stream_reached K k (new_stream_engine k filters)"
| stepped_stream: "stream_reached K k s \<Longrightarrow> stream_step K s t \<Longrightarrow> stream_reached K k t"

inductive_cases stream_stepE: "stream_step K s t"

lemma new_engine_ok: "engine_ok (new_stream_engine (k, []) filters)"
  by (simp add: engine_ok_def kept_def shaped_def log_ok_def submissions_def new_stream_engine_def new_waveform_ok block_words_def list_all_iff)

lemma stream_step_ok: "stream_step (recorded_sink K) s t \<Longrightarrow> engine_ok s \<Longrightarrow> engine_ok t"
  using correction_ok prepare_stream_ok schedule_stream_ok begin_stream_ok poll_stream_ok disable_stream_ok
  by (elim stream_stepE) (fastforce simp: wp_run)+

lemma stream_reached_ok: "stream_reached (recorded_sink K) (k, []) s \<Longrightarrow> engine_ok s"
  by (induction rule: stream_reached.induct) (auto intro: new_engine_ok stream_step_ok)

section \<open>The bits of the submitted blocks\<close>

definition sent_bits :: "submission \<Rightarrow> bool list" where
  "sent_bits b = (case b of (epoch, sequence, words, valid) \<Rightarrow>
     take (unat valid) (concat (map (\<lambda>w. map (bit w) [0..<32]) words)))"

lemma word_bits:
  "length bs \<le> 32 \<Longrightarrow> take (length bs) (map (bit (word_of_bits bs)) [0..<32]) = bs"
  by (rule nth_equalityI) (simp_all add: bit_word_of_bits)

lemma packed_bits:
  "take (min (32 * n) (length bs)) (concat (map (\<lambda>w. map (bit w) [0..<32]) (packed n bs))) = take (32 * n) bs"
proof (induction n)
  case (Suc n)
  let ?x = "concat (map (\<lambda>w. map (bit w) [0..<32]) (packed n bs))"
  let ?c = "take 32 (drop (32 * n) bs)"
  have more: "concat (map (\<lambda>w. map (bit w) [0..<32]) (packed (Suc n) bs)) = ?x @ map (bit (word_of_bits ?c)) [0..<32]"
    by (simp add: packed_def)
  have len: "length ?x = 32 * n" by (simp add: packed_def length_concat comp_def sum_list_triv)
  show ?case
  proof (cases "length bs \<le> 32 * n")
    case True
    then show ?thesis using Suc by (simp add: more len min.absorb2)
  next
    case False
    then have "?x = take (32 * n) bs" using Suc len by (simp add: min_def)
    moreover have "min (32 * Suc n) (length bs) = 32 * n + length ?c" using False by simp
    moreover have "take (32 * Suc n) bs = take (32 * n) bs @ ?c" using take_add [of "32 * n" 32 bs] by (simp add: add.commute)
    ultimately show ?thesis using word_bits [of ?c] len by (simp only: more) simp
  qed
qed (simp add: packed_def)

lemma sent_submission: "sent_bits (submission_of p e k) = take 524288 (block_bits p k)"
proof -
  let ?b = "block_bits p k" and ?v = "block_valid p k"
  have v: "?v \<le> 524288" by (simp add: block_valid_def)
  then have n: "unat (of_nat ?v :: u64) = ?v" by (simp add: unat_of_nat)
  have cover: "?v \<le> 32 * ((?v + 31) div 32)" by linarith
  have "sent_bits (submission_of p e k) = take ?v (concat (map (\<lambda>w. map (bit w) [0..<32]) (packed ((?v + 31) div 32) ?b)))"
    by (simp only: sent_bits_def submission_of_def prod.case n)
  also have "\<dots> = take ?v (take (32 * ((?v + 31) div 32)) ?b)"
    using cover packed_bits [of "(?v + 31) div 32" ?b, symmetric] by (simp add: min_def block_valid_def split: if_splits)
  also have "\<dots> = take ?v ?b" using cover by (simp add: min_def)
  also have "\<dots> = take 524288 ?b" by (simp add: block_valid_def min_def)
  finally show ?thesis .
qed

lemma sent_blocks: "concat (map sent_bits (blocks p e n)) = take (524288 * n) (plan_bits p)"
proof (induction n)
  case (Suc n)
  have "take (524288 * n) (plan_bits p) @ take 524288 (block_bits p n) = take (524288 * n + 524288) (plan_bits p)"
    by (simp add: block_bits_def take_add)
  then show ?case using Suc blocks_snoc [of p e n] by (simp add: sent_submission add.commute)
qed (simp add: blocks_def)

lemma sent_all: "concat (map sent_bits (blocks p e (block_count p))) = plan_bits p"
  by (simp add: sent_blocks block_count_def)

section \<open>Properties\<close>

text \<open>C31: completion means that the whole waveform was handed over. In every reachable engine, with any
  sink and any sequence of calls, the state Complete is reached only when the blocks submitted in
  the current epoch are numbered from zero without gap or repetition and their bits, put together,
  are exactly the bits of a plan of the prepared job.\<close>

theorem stream_complete:
  assumes "stream_reached (recorded_sink K) (k, []) s" "se_state s = EngineComplete"
  shows "\<exists>j c. se_job s = Some (job_digest j) \<and> plan_job j c = Some (se_plan s) \<and>
    map (\<lambda>b. fst (snd b)) (of_epoch (se_epoch s) (submissions s)) = map of_nat [0..<block_count (se_plan s)] \<and>
    concat (map sent_bits (of_epoch (se_epoch s) (submissions s))) = plan_bits (se_plan s)"
proof -
  have "all_submitted s" using stream_reached_ok [OF assms(1)] assms(2) by (simp add: engine_ok_def)
  then have planned: "planned_for s" and
    sent: "of_epoch (se_epoch s) (submissions s) = blocks (se_plan s) (se_epoch s) (block_count (se_plan s))"
    by (simp_all add: all_submitted_def)
  have "map (\<lambda>b. fst (snd b)) (blocks (se_plan s) (se_epoch s) n) = map of_nat [0..<n]" for n
    by (simp add: blocks_def submission_of_def)
  then show ?thesis using planned by (auto simp only: sent sent_all planned_for_def)
qed

text \<open>C32: an armed or running engine streams in order and never overwrites a block the sink may still
  read. The blocks submitted in the epoch carry an initial part of the bits of the plan of the
  prepared job, and at most two blocks, one per buffer, are submitted and not yet reported complete.\<close>

theorem stream_in_order:
  assumes "stream_reached (recorded_sink K) (k, []) s" "se_state s \<in> {EngineArmed, EngineRunning}"
  shows "(\<exists>j c. se_job s = Some (job_digest j) \<and> plan_job j c = Some (se_plan s)) \<and>
    unat (se_submitted s) \<le> unat (se_completed s) + 2 \<and>
    concat (map sent_bits (of_epoch (se_epoch s) (submissions s))) =
      take (524288 * unat (se_submitted s)) (plan_bits (se_plan s))"
proof -
  have "flowing (unat (se_completed s)) s \<or> (se_completed s = se_submitted s \<and> all_submitted s)"
    using stream_reached_ok [OF assms(1)] assms(2) by (auto simp: engine_ok_def)
  then have "planned_for s" "unat (se_submitted s) \<le> unat (se_completed s) + 2"
    "of_epoch (se_epoch s) (submissions s) = blocks (se_plan s) (se_epoch s) (unat (se_submitted s))"
    by (auto simp: flowing_def all_submitted_def)
  then show ?thesis by (simp add: sent_blocks) (simp add: planned_for_def)
qed

section \<open>Witness\<close>

definition finished_report :: sink_report where
  "finished_report =
     \<lparr>sink_state = EngineComplete, sink_epoch = 1, completed_blocks = 1, consumed_samples = 138,
      observed_monotonic_ns = None, observed_output_active = None, sink_launch_ns = None, sink_chain_phase = ChainInactive,
      sink_tail_deadline_ns = None, sink_filter_selector = 0\<rparr>"

definition ready_sink :: "unit block_sink" where
  "ready_sink =
     \<lparr>snk_stop = (\<lambda>_ k. (True, k)), snk_submit = (\<lambda>_ _ _ _ k. (True, k)), snk_arm = (\<lambda>_ _ _ _ k. (True, k)),
      snk_poll = (\<lambda>_ k. (finished_report, k)), snk_output_active = (\<lambda>k. (False, k)),
      snk_snapshot = (\<lambda>k. (two_rate_anchor, k)), snk_diagnostic = (\<lambda>_. []), snk_schedules_locally = False,
      snk_start_resolution_ns = 1, snk_amplifier_tail_ns = 0\<rparr>"

definition prepared_engine :: "(unit \<times> submission list, unit) stream_engine" where
  "prepared_engine = snd (run_state (prepare_stream (recorded_sink ready_sink) keyed_job) (new_stream_engine ((), []) None))"

definition running_engine :: "(unit \<times> submission list, unit) stream_engine" where
  "running_engine = snd (run_state (begin_stream (recorded_sink ready_sink) keyed_job 1000) prepared_engine)"

definition complete_engine :: "(unit \<times> submission list, unit) stream_engine" where
  "complete_engine = snd (run_state (poll_stream (recorded_sink ready_sink) 5000) running_engine)"

lemma keyed_counts: "total_samples keyed_plan = 138" "length (plan_bits keyed_plan) = 138" "block_count keyed_plan = 1"
  "block_valid keyed_plan 0 = 138" "block_valid keyed_plan 1 = 0"
proof -
  have legal: "legal_plan keyed_plan" using plan_job_sound [OF keyed_job_planned] by simp
  show total: "total_samples keyed_plan = 138" by (simp add: keyed_plan_def)
  note ok = reset_waveform_ok [OF legal new_waveform_ok]
  show bits: "length (plan_bits keyed_plan) = 138"
    using left_length [OF ok(1)] ok(2) total by (simp add: reset_waveform_def Let_def)
  show "block_count keyed_plan = 1" "block_valid keyed_plan 0 = 138" "block_valid keyed_plan 1 = 0"
    by (simp_all add: block_count_def block_valid_def block_bits_def bits)
qed

lemma prepared_run: "prepared_engine = adopt_plan keyed_job keyed_plan (new_stream_engine ((), []) None)"
proof -
  have "wp (prepare_stream (recorded_sink ready_sink) keyed_job)
      (\<lambda>_ t. t = adopt_plan keyed_job keyed_plan (new_stream_engine ((), []) None)) (new_stream_engine ((), []) None)"
    by (simp add: prepare_stream_def wp_eqs new_stream_engine_def ready_sink_def aside_def keyed_job_planned)
  then show ?thesis by (simp add: wp_run prepared_engine_def)
qed

lemma prepared_reached: "stream_reached (recorded_sink ready_sink) ((), []) prepared_engine"
  unfolding prepared_engine_def by (rule stepped_stream [OF created_stream stream_step.prepare_stream])

lemma prepared_state:
  "se_state prepared_engine = EngineIdle" "se_job prepared_engine = Some (job_digest keyed_job)"
  "se_plan prepared_engine = keyed_plan" "se_epoch prepared_engine = 0"
  by (simp_all add: prepared_run adopt_plan_def render_slot_frame(1) [unfolded same_job_def] new_stream_engine_def)

lemma prepared_waveform:
  "se_valid prepared_engine ! 0 = 138" "se_valid prepared_engine ! 1 = 0" "wave_position (se_waveform prepared_engine) = 138"
proof -
  have ok: "generated 2 prepared_engine" "holds_block 0 prepared_engine" "holds_block 1 prepared_engine"
    using stream_reached_ok [OF prepared_reached] by (simp_all add: engine_ok_def prepared_state)
  show "se_valid prepared_engine ! 0 = 138" "se_valid prepared_engine ! 1 = 0"
    using ok(2,3) by (simp_all add: holds_block_def prepared_state keyed_counts [simplified])
  have "wave_ok keyed_plan (se_waveform prepared_engine)" "left keyed_plan (se_waveform prepared_engine) = []"
    using ok(1) by (simp_all add: generated_def prepared_state block_bits_def keyed_counts)
  with left_length [of keyed_plan "se_waveform prepared_engine"] have "unat (wave_position (se_waveform prepared_engine)) = unat (138 :: u64)"
    by (simp add: keyed_counts)
  then show "wave_position (se_waveform prepared_engine) = 138" by (rule word_unat_eq_iff [THEN iffD2])
qed

lemma begun:
  "wp (begin_stream (recorded_sink ready_sink) keyed_job 1000) (\<lambda>_ t. se_state t = EngineArmed \<and> se_plan t = keyed_plan \<and>
     se_epoch t = 1 \<and> se_submitted t = 1 \<and> se_completed t = 0 \<and> se_consumed t = 0 \<and> se_last_poll_ns t = 0 \<and>
     se_start_ns t = 1000 \<and> se_end_ns t = 2000 \<and> wave_position (se_waveform t) = 138) prepared_engine"
  by (simp add: begin_stream_def launch_stream_def submit_next_def wp_eqs Let_def ready_sink_def recorded_sink_def aside_def
      prepared_state prepared_waveform keyed_counts realized_duration_ns_def samples_per_microsecond_def
      u64_max_def maximum_completion_acknowledgement_ns_def sample_rate_def keyed_job_def prepared_waveform [simplified])

lemma running_state:
  "se_state running_engine = EngineArmed" "se_plan running_engine = keyed_plan" "se_epoch running_engine = 1"
  "se_submitted running_engine = 1" "se_completed running_engine = 0" "se_consumed running_engine = 0"
  "se_last_poll_ns running_engine = 0" "se_end_ns running_engine = 2000" "wave_position (se_waveform running_engine) = 138"
  using begun by (simp_all add: wp_run running_engine_def)

lemma finished_run: "wp (poll_stream (recorded_sink ready_sink) 5000) (\<lambda>_ t. se_state t = EngineComplete \<and> se_plan t = keyed_plan \<and>
    se_epoch t = 1) running_engine"
  by (simp add: poll_stream_def poll_impl_def poll_launch_seen_def poll_progress_def poll_phase_def wp_eqs Let_def
      ready_sink_def recorded_sink_def aside_def running_state finished_report_def progress_broken_def waiting_for_launch_def
      expected_completed_def expected_samples_def keyed_counts block_samples_def block_words_def min_def)

lemma complete_state: "se_state complete_engine = EngineComplete" "se_plan complete_engine = keyed_plan" "se_epoch complete_engine = 1"
  using finished_run by (simp_all add: wp_run complete_engine_def)

lemma running_reached: "stream_reached (recorded_sink ready_sink) ((), []) running_engine"
  unfolding running_engine_def by (rule stepped_stream [OF prepared_reached stream_step.start_stream])

lemma complete_reached: "stream_reached (recorded_sink ready_sink) ((), []) complete_engine"
  unfolding complete_engine_def by (rule stepped_stream [OF running_reached stream_step.poll_stream])

theorem stream_complete_witness:
  "map (\<lambda>b. fst (snd b)) (of_epoch 1 (submissions complete_engine)) = [0] \<and>
    concat (map sent_bits (of_epoch 1 (submissions complete_engine))) = plan_bits keyed_plan"
  using stream_complete [OF complete_reached complete_state(1)] by (auto simp: complete_state keyed_counts)

theorem stream_in_order_witness:
  "concat (map sent_bits (of_epoch 1 (submissions running_engine))) = take 524288 (plan_bits keyed_plan)"
  using stream_in_order [OF running_reached] by (auto simp: running_state)

end
