(* ===== verification/Stream_Launch.thy ===== *)
theory Stream_Launch
  imports Stream_Engine
begin

text \<open>
  The launch target of the streaming engine (\<open>project_clock\<close> of \<open>src/rf/stream_engine.cpp\<close>): the callback
  the sink runs just before it commits to a launch. The lemmas read its guards as arithmetic on
  naturals; the property says which targets it can return.
\<close>

section \<open>Projection near the anchor\<close>

lemma project_now:
  assumes "legal_rate (rate_ppb a)"
  shows "project a (monotonic_now_ns a) = Some (utc_now_ns a)"
proof -
  have "elapsed_utc 0 (rate_ppb a) False = Some 0"
    using assms rate_scale_value [OF assms] by (simp add: elapsed_utc_iff quotient_def)
  then show ?thesis by (auto simp: project.simps [of a "monotonic_now_ns a"] horizon_ahead_def)
qed

lemma project_straight_after:
  assumes "\<not> (horizon_ahead a \<and> x > rate_until_monotonic_ns a)" "project a x = Some u" "monotonic_now_ns a \<le> x"
  shows "utc_now_ns a \<le> u"
proof -
  have "0 \<le> int (unat x) - int (unat (monotonic_now_ns a))" using assms(3) by (simp add: word_le_def)
  then have "0 \<le> advance (1000000000 + sint (rate_ppb a)) 1000000000 (int (unat x) - int (unat (monotonic_now_ns a)))"
    using project_straight(1) [OF assms(1,2)]
    by (auto simp: advance_def legal_rate_def utc_max_rate_ppb_def intro!: div_int_pos_iff [THEN iffD2])
  then show ?thesis using project_straight(2) [OF assms(1,2)] by (simp add: word_le_def)
qed

lemma project_after:
  assumes "project a x = Some u" "monotonic_now_ns a \<le> x"
  shows "utc_now_ns a \<le> u"
proof (cases "horizon_ahead a \<and> x > rate_until_monotonic_ns a")
  case False
  then show ?thesis by (rule project_straight_after [OF _ assms])
next
  case True
  then obtain b where b: "project (a\<lparr>rate_until_monotonic_ns := u64_max\<rparr>) (rate_until_monotonic_ns a) = Some b"
    "project (second_segment a b) x = Some u"
    using project_second [of a x u] assms(1) by blast
  have "utc_now_ns (a\<lparr>rate_until_monotonic_ns := u64_max\<rparr>) \<le> b"
    by (rule project_straight_after [OF _ b(1)]) (use True in \<open>simp_all add: horizon_ahead_def\<close>)
  also have "b \<le> u" using second_segment_ends [OF b(2)] True by simp
  finally show ?thesis by simp
qed

lemma project_legal: "project a x = Some u \<Longrightarrow> legal_rate (rate_ppb a)"
proof (cases "horizon_ahead a \<and> x > rate_until_monotonic_ns a")
  case True
  assume "project a x = Some u"
  then obtain b where "project (a\<lparr>rate_until_monotonic_ns := u64_max\<rparr>) (rate_until_monotonic_ns a) = Some b"
    using project_second [of a x u] True by blast
  then show ?thesis using project_straight(1) [of "a\<lparr>rate_until_monotonic_ns := u64_max\<rparr>"] by simp
qed (rule project_straight(1))

section \<open>Safe targets\<close>

text \<open>The target of a launch: inside the admitted second of UTC and before its deadline on the local clock,
  on the grid of the sink, with the whole error budget inside the limit of the arm, and the transmission
  inside the validity of the clock and clear of a leap second. All arithmetic is on naturals.\<close>

definition launch_latest :: "local_start_conditions \<Rightarrow> nat" where
  "launch_latest c = unat (conditions_start_utc_ns c) + unat (start_window_ns (conditions_start_utc_ns c)) - 1"

text \<open>The instant aimed at: the requested UTC start through the clock, or now when it has passed. The target is
  the first instant of the grid from there on, and the way to it, like the growth of the uncertainty until
  then, is part of the error budget.\<close>

definition nominal_start :: "local_start_conditions \<Rightarrow> clock_snapshot \<Rightarrow> u64 option" where
  "nominal_start c now =
     (if utc_now_ns now < conditions_start_utc_ns c then inverse_utc now (conditions_start_utc_ns c)
      else Some (monotonic_now_ns now))"

definition launch_budget :: "u64 \<Rightarrow> local_start_conditions \<Rightarrow> clock_snapshot \<Rightarrow> u64 \<Rightarrow> bool" where
  "launch_budget resolution c now target \<longleftrightarrow>
     (\<exists>nominal g r. nominal_start c now = Some nominal \<and> nominal \<le> target \<and> target - nominal < resolution \<and>
        growth (target - monotonic_now_ns now) (ucast (rate_uncertainty_ppb now)) = Some g \<and>
        elapsed_utc (target - nominal + of_bool (rate_ppb now \<noteq> 0)) (rate_ppb now) True = Some r \<and>
        unat (uncertainty_ns now) + unat g + unat r \<le> unat (conditions_maximum_uncertainty_ns c))"

definition safe_target :: "u64 \<Rightarrow> u64 \<Rightarrow> u64 \<Rightarrow> local_start_conditions \<Rightarrow> clock_snapshot \<Rightarrow> u64 \<Rightarrow> bool" where
  "safe_target resolution deadline duration c now target \<longleftrightarrow>
     launch_clock_ok c now \<and> leap now \<noteq> LeapUnknown \<and>
     unat resolution dvd unat target \<and> monotonic_now_ns now \<le> target \<and> target < deadline \<and>
     (\<exists>u. project now target = Some u \<and> conditions_start_utc_ns c \<le> u \<and> unat u \<le> launch_latest c) \<and>
     launch_budget resolution c now target \<and>
     (\<exists>d. duration_utc_bound duration now = Some d \<and> launch_latest c + unat d < unat (valid_until_utc_ns now) \<and>
        clear_of_leap (conditions_start_utc_ns c) (launch_latest c + unat d) (leap_transition_utc_ns now))"

lemma rounded_up:
  assumes "resolution \<noteq> (0 :: u64)" "\<not> nominal > u64_max - (resolution - nominal mod resolution) mod resolution"
  shows "unat resolution dvd unat (nominal + (resolution - nominal mod resolution) mod resolution)"
    "nominal \<le> nominal + (resolution - nominal mod resolution) mod resolution"
    "(resolution - nominal mod resolution) mod resolution < resolution"
proof -
  let ?r = "(resolution - nominal mod resolution) mod resolution"
  have sum: "unat (nominal + ?r) = unat nominal + unat ?r"
    using assms(2) by (subst add.commute) (simp add: unat_guarded_plus)
  then show "nominal \<le> nominal + ?r" by (simp add: word_nat)
  have r: "unat resolution > 0" using assms(1) by (simp add: unat_gt_0)
  then show "?r < resolution" by (simp add: word_nat unat_mod)
  have "nominal mod resolution \<le> resolution" using r by (simp add: word_nat unat_mod less_imp_le)
  then have less: "unat (resolution - nominal mod resolution) = unat resolution - unat nominal mod unat resolution"
    by (simp only: unat_sub unat_mod)
  have "unat ?r = (unat resolution - unat nominal mod unat resolution) mod unat resolution"
    by (simp only: unat_mod less)
  then have "unat (nominal + ?r) = unat nominal + (unat resolution - unat nominal mod unat resolution) mod unat resolution"
    using sum by simp
  moreover have "(n + (m - n mod m) mod m) mod m = 0" if "m > 0" for n m :: nat
  proof -
    have "(n + (m - n mod m) mod m) mod m = (n mod m + (m - n mod m)) mod m"
      by (simp only: mod_add_left_eq mod_add_right_eq)
    then show ?thesis using that by (simp add: less_imp_le)
  qed
  ultimately show "unat resolution dvd unat (nominal + ?r)" using r by (metis dvd_eq_mod_eq_0)
qed

section \<open>The guards of the callback\<close>

lemma project_clock_guards:
  assumes "project_clock resolution s c now = Some target"
  defines "utc \<equiv> conditions_start_utc_ns c"
  obtains nominal where "se_job s \<noteq> None" "uncertainty_ns now \<le> conditions_maximum_uncertainty_ns c" "launch_clock_ok c now"
    "\<not> utc > u64_max - start_window_ns utc"
    "(if utc_now_ns now < utc then inverse_utc now utc else Some (monotonic_now_ns now)) = Some nominal"
    "resolution \<noteq> 0" "\<not> nominal > u64_max - (resolution - nominal mod resolution) mod resolution"
    "target = nominal + (resolution - nominal mod resolution) mod resolution"
    "target_ok c (se_launch_deadline_ns s) ((resolution - nominal mod resolution) mod resolution) target now"
    "horizon_clear c (se_end_ns s - se_start_ns s) now" "leap_clear c (se_end_ns s - se_start_ns s) now"
  using assms(1) unfolding project_clock_def Let_def utc_def
  by (auto split: if_splits option.splits)

lemma target_ok_parts:
  assumes "target_ok c deadline rounding target now"
  obtains u g r where "project now target = Some u"
    "u < conditions_start_utc_ns c + start_window_ns (conditions_start_utc_ns c)" "target < deadline"
    "growth (target - monotonic_now_ns now) (ucast (rate_uncertainty_ppb now)) = Some g"
    "g \<le> conditions_maximum_uncertainty_ns c - uncertainty_ns now" "leap now \<noteq> LeapUnknown"
    "elapsed_utc (rounding + of_bool (rate_ppb now \<noteq> 0)) (rate_ppb now) True = Some r"
    "r \<le> conditions_maximum_uncertainty_ns c - uncertainty_ns now - g"
  using assms unfolding target_ok_def by (auto simp: not_le not_less split: option.splits)

lemma latest_word:
  assumes "\<not> utc > u64_max - start_window_ns utc" "utc = conditions_start_utc_ns c"
  shows "unat (utc + start_window_ns utc - 1) = launch_latest c" "unat (utc + start_window_ns utc) = launch_latest c + 1"
proof -
  have u: "unat (utc + start_window_ns utc) = unat utc + unat (start_window_ns utc)"
    using assms(1) by (subst add.commute) (simp add: unat_guarded_plus)
  then show "unat (utc + start_window_ns utc - 1) = launch_latest c" "unat (utc + start_window_ns utc) = launch_latest c + 1"
    using start_window_bounds(1) [of utc] by (simp_all add: launch_latest_def assms(2) unat_u64_minus word_nat)
qed

lemma horizon_parts:
  assumes "horizon_clear c duration now" "leap_clear c duration now"
    "\<not> conditions_start_utc_ns c > u64_max - start_window_ns (conditions_start_utc_ns c)"
  shows "\<exists>d. duration_utc_bound duration now = Some d \<and> launch_latest c + unat d < unat (valid_until_utc_ns now) \<and>
        clear_of_leap (conditions_start_utc_ns c) (launch_latest c + unat d) (leap_transition_utc_ns now)"
proof -
  note last = latest_word(1) [OF assms(3) refl]
  obtain d where d: "duration_utc_bound duration now = Some d"
    using assms(1) by (auto simp: horizon_clear_def Let_def split: option.splits)
  have horizon: "launch_latest c + unat d < unat (valid_until_utc_ns now)"
    using assms(1) d by (auto simp: horizon_clear_def Let_def word_nat unat_u64_minus last)
  moreover have "clear_of_leap (conditions_start_utc_ns c) (launch_latest c + unat d) (leap_transition_utc_ns now)"
  proof (cases "leap_transition_utc_ns now")
    case (Some t)
    let ?utc = "conditions_start_utc_ns c"
    let ?latest = "?utc + start_window_ns ?utc - 1"
    have "?utc > (if t > u64_max - 1000000000 then u64_max else t + 1000000000) \<or>
        (?latest \<le> u64_max - d \<and> ?latest + d < (if t > 1000000000 then t - 1000000000 else 0))"
      using assms(2) d Some by (simp add: leap_clear_def Let_def)
    then show ?thesis
    proof
      assume high: "?utc > (if t > u64_max - 1000000000 then u64_max else t + 1000000000)"
      then have near: "\<not> t > u64_max - 1000000000" using leD [OF u64_max_top [of ?utc]] by (auto split: if_splits)
      then have "unat (t + 1000000000) = unat t + 1000000000"
        using near unat_guarded_plus [where x = t and y = 1000000000] by (simp add: word_nat unat_u64_plus)
      then show ?thesis using high near Some by (simp add: clear_of_leap_def word_nat)
    next
      assume low: "?latest \<le> u64_max - d \<and> ?latest + d < (if t > 1000000000 then t - 1000000000 else 0)"
      then have "unat (?latest + d) = launch_latest c + unat d"
        using unat_guarded_plus [where x = d and y = ?latest] last by (simp add: add.commute not_less)
      then show ?thesis using low Some by (auto simp: clear_of_leap_def word_nat unat_u64_minus split: if_splits)
    qed
  qed (simp add: clear_of_leap_def)
  ultimately show ?thesis using d by blast
qed

lemma project_clock_sound:
  assumes "project_clock resolution s c now = Some target"
  shows "safe_target resolution (se_launch_deadline_ns s) (se_end_ns s - se_start_ns s) c now target"
proof -
  let ?utc = "conditions_start_utc_ns c"
  obtain nominal where g: "uncertainty_ns now \<le> conditions_maximum_uncertainty_ns c" "launch_clock_ok c now"
    "\<not> ?utc > u64_max - start_window_ns ?utc"
    "(if utc_now_ns now < ?utc then inverse_utc now ?utc else Some (monotonic_now_ns now)) = Some nominal"
    "resolution \<noteq> 0" "\<not> nominal > u64_max - (resolution - nominal mod resolution) mod resolution"
    "target = nominal + (resolution - nominal mod resolution) mod resolution"
    "target_ok c (se_launch_deadline_ns s) ((resolution - nominal mod resolution) mod resolution) target now"
    "horizon_clear c (se_end_ns s - se_start_ns s) now" "leap_clear c (se_end_ns s - se_start_ns s) now"
    using project_clock_guards [OF assms] by metis
  obtain u e r where t: "project now target = Some u" "u < ?utc + start_window_ns ?utc" "target < se_launch_deadline_ns s"
    "growth (target - monotonic_now_ns now) (ucast (rate_uncertainty_ppb now)) = Some e"
    "e \<le> conditions_maximum_uncertainty_ns c - uncertainty_ns now" "leap now \<noteq> LeapUnknown"
    "elapsed_utc ((resolution - nominal mod resolution) mod resolution + of_bool (rate_ppb now \<noteq> 0)) (rate_ppb now) True = Some r"
    "r \<le> conditions_maximum_uncertainty_ns c - uncertainty_ns now - e"
    using target_ok_parts [OF g(8)] by metis
  note grid = rounded_up [OF g(5,6), folded g(7)]
  have start: "monotonic_now_ns now \<le> nominal \<and> ?utc \<le> u"
  proof (cases "utc_now_ns now < ?utc")
    case True
    then have inverse: "inverse_utc now ?utc = Some nominal" using g(4) by simp
    have "\<not> ?utc \<le> utc_now_ns now" using True by simp
    then have "\<not> nominal \<le> monotonic_now_ns now"
      using project_inverse_galois [OF project_now [OF project_legal [OF t(1)]] inverse] by simp
    moreover have "?utc \<le> u" using project_inverse_galois [OF t(1) inverse] grid(2) by simp
    ultimately show ?thesis by simp
  next
    case False
    then have "nominal = monotonic_now_ns now" using g(4) by simp
    then have "utc_now_ns now \<le> u" using project_after [OF t(1)] grid(2) by simp
    then show ?thesis using False \<open>nominal = _\<close> by simp
  qed
  have "target - nominal = (resolution - nominal mod resolution) mod resolution" using g(7) by simp
  then have "launch_budget resolution c now target"
    unfolding launch_budget_def nominal_start_def using g(4) grid t(4,7)
    by (intro exI [of _ nominal] exI [of _ e] exI [of _ r])
      (use t(5,8) g(1) in \<open>simp add: word_nat unat_u64_minus\<close>)
  moreover have "unat u \<le> launch_latest c" using t(2) latest_word(2) [OF g(3) refl] by (simp add: word_nat)
  ultimately show ?thesis
    using start grid g(2) t horizon_parts [OF g(9,10,3)] by (auto simp: safe_target_def)
qed

section \<open>Properties\<close>

text \<open>C33: every launch target the engine gives its sink is safe. It is the first instant of the sink's start
  grid at or after the requested UTC start (or after now, when that has passed), less than one grid step
  later, not before now and before the launch deadline; projected through the clock it is not before the
  requested UTC start and still inside that UTC second; the clock is synchronised or in admitted
  holdover; its uncertainty, the growth until the target and the rounding to the grid together stay within
  the limit of the arm; and the whole transmission ends before the clock model expires and a second clear of
  any announced leap second.\<close>

theorem project_clock_safe:
  assumes "project_clock resolution s c now = Some target"
  shows "safe_target resolution (se_launch_deadline_ns s) (se_end_ns s - se_start_ns s) c now target"
  using assms by (rule project_clock_sound)

definition waiting_engine :: "(unit, unit) stream_engine" where
  "waiting_engine = (new_stream_engine () None)\<lparr>se_job := Some [], se_start_ns := 6999999900, se_end_ns := 16999999900,
     se_launch_deadline_ns := 7999999900\<rparr>"

definition second_conditions :: local_start_conditions where
  "second_conditions = \<lparr>conditions_start_utc_ns = 1002000000000, conditions_maximum_uncertainty_ns = 1000000,
     conditions_maximum_holdover_age_ns = 0, conditions_start_adjustment_ns = 0\<rparr>"

lemma waiting_target: "project_clock 1000 waiting_engine second_conditions two_rate_anchor = Some 7000000000"
proof -
  have w: "se_job waiting_engine = Some []" "se_start_ns waiting_engine = 6999999900" "se_end_ns waiting_engine = 16999999900"
    "se_launch_deadline_ns waiting_engine = 7999999900"
    by (simp_all add: waiting_engine_def new_stream_engine_def)
  show ?thesis by (simp only: project_clock_def w) code_simp
qed

theorem project_clock_safe_witness:
  "safe_target 1000 7999999900 10000000000 second_conditions two_rate_anchor 7000000000"
  using project_clock_safe [OF waiting_target] by (simp add: waiting_engine_def new_stream_engine_def)

end
