(* ===== verification/Stream_Progress.thy ===== *)
theory Stream_Progress
  imports Stream_Safety Stream_Launch
begin

text \<open>
  The supervision of a sink by the streaming engine ends: \<open>launch_limit\<close> is an instant after which a
  poll ends the transmission, whatever the sink answers. A log of what the engine asked the sink, and of the
  answers, shows how it ended (\<open>ended\<close>). A launch seen for the
  first time moves the end of the timeline once, so the limit of an engine that waits for its launch is
  the launch deadline plus the duration.
\<close>

section \<open>A watched sink\<close>

text \<open>What the engine asks its sink: stops and their results, polls and their reports, and the observations of
  the output. The engine cannot see the log.\<close>

datatype sink_event = Stopped u64 bool | Observed bool | Polled sink_report

definition noting :: "('a \<Rightarrow> sink_event) \<Rightarrow> ('k \<Rightarrow> 'a \<times> 'k) \<Rightarrow> 'k \<times> sink_event list \<Rightarrow> 'a \<times> 'k \<times> sink_event list" where
  "noting event f w = (case f (fst w) of (a, k) \<Rightarrow> (a, k, snd w @ [event a]))"

definition watched_sink :: "'k block_sink \<Rightarrow> ('k \<times> sink_event list) block_sink" where
  "watched_sink K =
     \<lparr>snk_stop = (\<lambda>d. noting (Stopped d) (snk_stop K d)), snk_submit = (\<lambda>e n ws valid. aside (snk_submit K e n ws valid)),
      snk_arm = (\<lambda>e start n guard. aside (snk_arm K e start n guard)), snk_poll = (\<lambda>now. noting Polled (snk_poll K now)),
      snk_output_active = noting Observed (snk_output_active K), snk_snapshot = aside (snk_snapshot K),
      snk_diagnostic = snk_diagnostic K \<circ> fst, snk_schedules_locally = snk_schedules_locally K,
      snk_start_resolution_ns = snk_start_resolution_ns K, snk_amplifier_tail_ns = snk_amplifier_tail_ns K\<rparr>"

lemma watched_calls [simp]:
  "snk_stop (watched_sink K) d = noting (Stopped d) (snk_stop K d)"
  "snk_output_active (watched_sink K) = noting Observed (snk_output_active K)"
  "snk_poll (watched_sink K) now = noting Polled (snk_poll K now)"
  "snk_amplifier_tail_ns (watched_sink K) = snk_amplifier_tail_ns K"
  by (simp_all add: watched_sink_def)

lemma wp_noting:
  "(\<And>a k. Q a (s\<lparr>se_sink := (k, snd (se_sink s) @ [e a])\<rparr>)) \<Longrightarrow> wp (on_sink (noting e f)) Q s"
  by (simp add: wp_on_sink noting_def split: prod.split)

section \<open>Endings\<close>

text \<open>The output was off: the report of the sink says so, or the sink was asked and said so.\<close>

definition shown_off :: "sink_report \<Rightarrow> sink_event list \<Rightarrow> bool" where
  "shown_off q n \<longleftrightarrow> observed_output_active q = Some False \<or> observed_output_active q = None \<and> Observed False \<in> set n"

text \<open>How a transmission ends, in the events \<open>n\<close> of a poll that got the report \<open>q\<close>: failed, with a stop as the last
  act and the output reported as observed after it; missed, after a stop that succeeded and an output seen
  off, or because the sink missed it with nothing played and the output off; complete, with every sample
  played and the output off. Only the tail of the amplifier is left running, all samples played.\<close>

definition ended :: "'k block_sink \<Rightarrow> sink_report \<Rightarrow> sink_event list \<Rightarrow> engine_report \<Rightarrow> ('l, 'o) stream_engine \<Rightarrow> bool" where
  "ended K q n r t \<longleftrightarrow> report_state r = se_state t \<and>
     (case se_state t of
        EngineFailed \<Rightarrow> \<exists>m d ok. n = m @ [Stopped d ok, Observed (report_output_active r)]
      | EngineMissed \<Rightarrow> \<not> report_output_active r \<and>
          ((\<exists>m d. n = m @ [Stopped d True, Observed False]) \<or>
           sink_state q = EngineMissed \<and> consumed_samples q = 0 \<and> shown_off q n)
      | EngineComplete \<Rightarrow> \<not> report_output_active r \<and> sink_state q = EngineComplete \<and>
          consumed_samples q = total_samples (se_plan t) \<and> shown_off q n
      | EngineRunning \<Rightarrow> sink_state q = EngineRunning \<and> sink_chain_phase q = ChainTail \<and>
          consumed_samples q = total_samples (se_plan t) \<and> report_chain_phase r = ChainTail \<and>
          (\<exists>d. report_tail_deadline_ns r = Some d \<and> se_last_poll_ns t < d \<and>
             unat d \<le> unat (se_last_poll_ns t) + unat (snk_amplifier_tail_ns K))
      | _ \<Rightarrow> False)"

definition ends :: "'k block_sink \<Rightarrow> sink_event list \<Rightarrow> engine_report \<Rightarrow> ('k \<times> sink_event list, 'o) stream_engine \<Rightarrow> bool" where
  "ends K l r t \<longleftrightarrow> (\<exists>q n. snd (se_sink t) = l @ Polled q # n \<and> ended K q (Polled q # n) r t)"

lemma ended_selector: "ended K q n (r\<lparr>report_filter_selector := f\<rparr>) t = ended K q n r t"
  by (cases "se_state t") (simp_all add: ended_def)

lemma ends_selector [simp]: "ends K l (r\<lparr>report_filter_selector := f\<rparr>) t = ends K l r t"
  by (simp add: ends_def ended_selector)

text \<open>Within the poll: the report is in the log, and if the output is taken for off, the log shows it.\<close>

definition told :: "sink_event list \<Rightarrow> sink_report \<Rightarrow> bool \<Rightarrow> ('k \<times> sink_event list, 'o) stream_engine \<Rightarrow> bool" where
  "told l q active s \<longleftrightarrow> (\<exists>n. snd (se_sink s) = l @ Polled q # n \<and> (\<not> active \<longrightarrow> shown_off q (Polled q # n)))"

lemma told_on: "told l q active s \<Longrightarrow> told l q True s"
  by (auto simp: told_def)

lemma told_fields [simp]:
  "told l q a (s\<lparr>se_last_poll_ns := now\<rparr>) = told l q a s"
  "told l q a (s\<lparr>se_launch_ns := x, se_start_ns := y, se_end_ns := z\<rparr>) = told l q a s"
  "told l q a (s\<lparr>se_sink := k, se_filter_observation := f\<rparr>) = told l q a (s\<lparr>se_sink := k\<rparr>)"
  by (simp_all add: told_def)

lemma told_ends:
  assumes "told l q active s" "snd (se_sink t) = snd (se_sink s)"
    "\<And>n. (\<not> active \<longrightarrow> shown_off q n) \<Longrightarrow> ended K q n r t"
  shows "ends K l r t"
  using assms by (auto simp: told_def ends_def)

definition late :: "u64 \<Rightarrow> ('k, 'o) stream_engine \<Rightarrow> bool" where
  "late now s \<longleftrightarrow> unat (se_end_ns s) + 100000 < unat now \<and> (se_start_conditions s \<noteq> None \<longrightarrow> se_launch_deadline_ns s \<le> now)"

definition launch_limit :: "('k, 'o) stream_engine \<Rightarrow> nat" where
  "launch_limit s = max (unat (se_end_ns s)) (unat (se_launch_deadline_ns s) +
     (if se_launch_ns s = None then unat (se_end_ns s - se_start_ns s) else 0)) + 100000"

text \<open>What fails is stopped and observed.\<close>

lemma fail_ends:
  assumes "told l q active s"
  shows "wp (fail_stream (watched_sink K) now reason) (ends K l) s"
proof -
  obtain n where n: "snd (se_sink s) = l @ Polled q # n" using assms by (auto simp: told_def)
  have failed: "ends K l (state_report EngineFailed b) t"
    if "se_state t = EngineFailed" "snd (se_sink t) = snd (se_sink s) @ [Stopped now a, Observed b]" for t a b
    unfolding ends_def
  proof (intro exI conjI)
    show "snd (se_sink t) = l @ Polled q # (n @ [Stopped now a, Observed b])" using n that by simp
    have "\<exists>m d ok. Polled q # (n @ [Stopped now a, Observed b]) = m @ [Stopped d ok, Observed b]"
      by (intro exI [of _ "Polled q # n"] exI [of _ now] exI [of _ a]) simp
    then show "ended K q (Polled q # (n @ [Stopped now a, Observed b])) (state_report EngineFailed b) t"
      using that by (simp add: ended_def state_report_def)
  qed
  show ?thesis
    unfolding fail_stream_def wp_bind wp_modify wp_ret watched_calls
    by (rule wp_noting, rule wp_noting, rule failed) simp_all
qed

lemma poll_running_ends:
  assumes "late now s" "told l q active s"
  shows "wp (poll_running (watched_sink K) q now active) (ends K l) s"
proof -
  have "unat (se_end_ns s) < unat now" using assms(1) by (simp add: late_def)
  then have "se_end_ns s \<le> now" "unat (now - se_end_ns s) = unat now - unat (se_end_ns s)"
    by (simp_all add: word_nat unat_u64_minus)
  then have "running_broken q now active s"
    using assms(1)
    by (auto simp: running_broken_def awaiting_tail_def late_def word_nat maximum_completion_acknowledgement_ns_def)
  then show ?thesis using fail_ends [OF assms(2)] by (simp add: poll_running_def wp_bind wp_gets)
qed

lemma poll_phase_ends:
  assumes "late now s" "told l q active s"
  shows "wp (poll_phase (watched_sink K) q now active) (ends K l) s"
proof -
  let ?s = "s\<lparr>se_last_poll_ns := now\<rparr>"
  have told: "told l q active ?s" and late: "late now ?s" using assms by (simp_all add: late_def)
  have tail: "ended K q n ((state_report EngineRunning True)\<lparr>report_launch_monotonic_ns := launch,
         report_chain_phase := ChainTail, report_tail_deadline_ns := sink_tail_deadline_ns q\<rparr>)
      (s\<lparr>se_last_poll_ns := now, se_state := EngineRunning, se_completed := k, se_consumed := m\<rparr>)"
    if "in_tail (watched_sink K) q now active ?s" for n launch k m
    using that by (auto simp: in_tail_def ended_def state_report_def word_nat unat_u64_minus split: option.splits)
  show ?thesis
    unfolding poll_phase_def wp_bind wp_modify wp_gets id_apply
    by (intro wp_cond) (use tail fail_ends [OF told] poll_running_ends [OF late told] in
      \<open>auto simp: wp_bind wp_modify wp_ret ended_def state_report_def intro!: told_ends [OF told]\<close>)
qed

lemma poll_waiting_ends:
  assumes "se_launch_deadline_ns s \<le> now" "told l q active s"
  shows "wp (poll_waiting (watched_sink K) q now active) (ends K l) s"
proof -
  have more: "told l q True (s\<lparr>se_last_poll_ns := now, se_sink := (k, snd (se_sink s) @ m)\<rparr>)" for k m
    using assms(2) by (auto simp: told_def)
  have off: "ends K l (state_report EngineMissed False)
      (s\<lparr>se_last_poll_ns := now, se_sink := (k, snd (se_sink s) @ [Stopped d True, Observed False]), se_state := EngineMissed\<rparr>)"
    for k d
    using assms(2) by (auto simp: told_def ends_def ended_def state_report_def)
  show ?thesis
    using assms(1) fail_ends [OF more] off
    by (auto simp: poll_waiting_def wp_bind wp_gets wp_modify wp_ret intro!: wp_noting)
qed

lemma late_sink: "late now (s\<lparr>se_sink := k\<rparr>) = late now s"
  by (simp add: late_def)

lemma poll_progress_ends:
  assumes "late now s" "told l q True s"
  shows "wp (poll_progress (watched_sink K) q now) (ends K l) s"
proof -
  have step: "wp (if progress_broken q now t then fail_stream (watched_sink K) now ''progress_counters''
      else if waiting_for_launch q active t then poll_waiting (watched_sink K) q now active
      else if completed_blocks q \<noteq> expected_completed q t \<or> consumed_samples q > expected_samples now t
      then fail_stream (watched_sink K) now ''progress_time''
      else poll_phase (watched_sink K) q now active) (ends K l) t"
    if "late now t" "told l q active t" for active t
    using that fail_ends [OF that(2)] by (intro wp_cond poll_phase_ends poll_waiting_ends)
      (auto simp: waiting_for_launch_def late_def)
  show ?thesis
  proof (cases "observed_output_active q")
    case None
    have "told l q active (s\<lparr>se_sink := (k, snd (se_sink s) @ [Observed active])\<rparr>)" for active k
      using assms(2) None by (auto simp: told_def shown_off_def)
    then show ?thesis
      using assms(1) None
      by (auto simp only: poll_progress_def wp_bind wp_gets option.simps id_apply late_sink watched_calls
          intro!: step wp_noting)
  next
    case (Some active)
    have told: "told l q active s"
      using assms(2) Some by (auto simp: told_def shown_off_def)
    show ?thesis
      unfolding poll_progress_def wp_bind wp_gets Some option.simps wp_ret id_apply by (rule step [OF assms(1) told])
  qed
qed

text \<open>A launch seen for the first time moves the end of the timeline once, to the duration after it.\<close>

lemma poll_launch_ends:
  assumes "launch_limit s < unat now" "se_start_conditions s \<noteq> None \<or> se_launch_ns s \<noteq> None" "told l q True s"
  shows "wp (poll_launch_seen (watched_sink K) q now) (ends K l) s"
proof -
  have late: "late now s" using assms(1) by (auto simp: late_def launch_limit_def word_nat split: if_splits)
  show ?thesis
  proof (cases "sink_launch_ns q")
    case None
    then show ?thesis using poll_progress_ends [OF late assms(3)] by (simp add: poll_launch_seen_def wp_bind wp_gets)
  next
    case (Some launch)
    have moved: "late now (s\<lparr>se_launch_ns := Some launch, se_start_ns := launch, se_end_ns := launch + (se_end_ns s - se_start_ns s)\<rparr>)"
      if "se_launch_ns s = None" "launch < se_launch_deadline_ns s" "\<not> launch > u64_max - (se_end_ns s - se_start_ns s)"
    proof -
      have "unat (launch + (se_end_ns s - se_start_ns s)) = unat launch + unat (se_end_ns s - se_start_ns s)"
        using unat_guarded_plus [where x = "se_end_ns s - se_start_ns s" and y = launch] that(3) by (simp add: add.commute)
      then show ?thesis using that assms(1) by (auto simp: late_def launch_limit_def word_nat)
    qed
    show ?thesis
      unfolding poll_launch_seen_def wp_bind wp_gets id_apply Some option.simps Let_def
      by (intro wp_cond) (use assms(2,3) late moved fail_ends [OF assms(3)] in
        \<open>auto simp: wp_bind wp_modify not_le intro!: poll_progress_ends\<close>)
  qed
qed

lemma poll_ends:
  assumes "se_state s \<in> {EngineArmed, EngineRunning}" "launch_limit s < unat now"
    "se_start_conditions s \<noteq> None \<or> se_launch_ns s \<noteq> None"
  shows "wp (poll_stream (watched_sink K) now) (ends K (snd (se_sink s))) s"
proof -
  let ?l = "snd (se_sink s)"
  have seen: "wp (case observed_monotonic_ns q of None \<Rightarrow> poll_launch_seen (watched_sink K) q now
       | Some observed \<Rightarrow> if observed < now then fail_stream (watched_sink K) now ''invalid_progress''
           else poll_launch_seen (watched_sink K) q observed)
      (ends K ?l) (s\<lparr>se_sink := (k, ?l @ [Polled q]), se_filter_observation := f\<rparr>)" for q k f
  proof -
    let ?t = "s\<lparr>se_sink := (k, ?l @ [Polled q]), se_filter_observation := f\<rparr>"
    have told: "told ?l q True ?t" by (simp add: told_def)
    have "launch_limit ?t = launch_limit s" by (simp add: launch_limit_def)
    then have "wp (poll_launch_seen (watched_sink K) q m) (ends K ?l) ?t" if "now \<le> m" for m
      using assms that told by (intro poll_launch_ends) (auto simp: word_nat)
    then show ?thesis using fail_ends [OF told] by (auto simp: not_less split: option.split)
  qed
  have "wp (poll_impl (watched_sink K) now) (ends K ?l) s"
    using assms(1) seen by (auto simp: poll_impl_def wp_bind wp_gets wp_modify intro!: wp_noting)
  then show ?thesis
    unfolding poll_stream_def wp_bind
    by (rule wp_mono) (simp add: wp_bind wp_gets wp_ret)
qed

section \<open>Properties\<close>

text \<open>C34: the engine cannot be kept transmitting past its timeline. Take an armed or running engine that was
  scheduled against the clock or has seen its launch, and a poll at any time after its launch limit, 100
  microseconds after the latest end of the waveform. Whatever the sink answers, the poll ends the
  transmission: the engine has failed, and the last it did was to stop the sink and to look at its output; or
  the launch is missed, after a stop that succeeded and an output seen off, or because the sink missed it with
  nothing played and its output off; or the transmission is complete, every sample played and the output off.
  The one exception is the tail of the amplifier: all samples are played, the sink reports the tail, and
  the deadline it gives is at most the configured tail away. That bound is one of each poll: a sink may give
  a later deadline at the next.\<close>

theorem stream_poll_ends:
  assumes "se_state s \<in> {EngineArmed, EngineRunning}" "launch_limit s < unat now"
    "se_start_conditions s \<noteq> None \<or> se_launch_ns s \<noteq> None"
    "run_state (poll_stream (watched_sink K) now) s = (r, t)"
  shows "\<exists>q n. snd (se_sink t) = snd (se_sink s) @ Polled q # n \<and> ended K q (Polled q # n) r t"
  using poll_ends [OF assms(1-3), of K] assms(4) by (simp add: wp_run ends_def)

text \<open>An armed engine, polled right after its launch limit.\<close>

definition overdue_engine :: "(unit \<times> sink_event list, unit) stream_engine" where
  "overdue_engine = (new_stream_engine ((), []) None)\<lparr>se_job := Some [], se_start_ns := 6999999900,
     se_end_ns := 16999999900, se_launch_deadline_ns := 7999999900, se_state := EngineArmed,
     se_start_conditions := Some second_conditions\<rparr>"

theorem stream_poll_ends_witness:
  "\<exists>q n. snd (se_sink (snd (run_state (poll_stream (watched_sink ready_sink) 18000099901) overdue_engine))) = Polled q # n \<and>
    ended ready_sink q (Polled q # n) (fst (run_state (poll_stream (watched_sink ready_sink) 18000099901) overdue_engine))
      (snd (run_state (poll_stream (watched_sink ready_sink) 18000099901) overdue_engine))"
  using stream_poll_ends [OF _ _ _ prod.collapse [symmetric], of overdue_engine 18000099901 ready_sink]
  by (simp add: overdue_engine_def new_stream_engine_def launch_limit_def)

end
