(* ===== verification/Utc_Discipline.thy ===== *)
theory Utc_Discipline
  imports Time_Mapping Complex_Main
begin

text \<open>
  The disciplined clock (\<open>src/time/utc_discipline.hpp\<close>, \<open>src/time/utc_discipline.cpp\<close>, with
  \<open>consistent_import\<close> of \<open>src/time/mapping.hpp\<close> and the month horizon of \<open>src/time/gps.cpp\<close>): it keeps one
  anchor between the monotonic counter and UTC, replaces it when an observation or a model of a
  trusted source arrives, and answers \<open>snapshot\<close> with the projected time, its uncertainty and the trust
  it deserves at its age. The function that reads the monotonic counter is a parameter of the class; an
  operation takes the values it reads.
\<close>

section \<open>Calendar\<close>

text \<open>The proleptic Gregorian calendar of \<open>std::chrono\<close>: the first day of the month that holds a day, and
  of the next one, counted from 1970-01-01.\<close>

definition leap_year :: "nat \<Rightarrow> bool" where
  "leap_year y \<longleftrightarrow> (y mod 4 = 0 \<and> y mod 100 \<noteq> 0) \<or> y mod 400 = 0"

definition days_in_month :: "nat \<Rightarrow> nat \<Rightarrow> nat" where
  "days_in_month y m = (if m = 2 then (if leap_year y then 29 else 28)
     else if m = 4 \<or> m = 6 \<or> m = 9 \<or> m = 11 then 30 else 31)"

lemma days_in_month_pos [simp]: "0 < days_in_month y m"
  by (simp add: days_in_month_def)

function month_span :: "nat \<Rightarrow> nat \<Rightarrow> nat \<Rightarrow> nat \<Rightarrow> nat \<times> nat" where
  "month_span year month first day =
     (if day < first + days_in_month year month then (first, first + days_in_month year month)
      else if month = 12 then month_span (year + 1) 1 (first + days_in_month year month) day
      else month_span year (month + 1) (first + days_in_month year month) day)"
  by pat_completeness auto
termination
proof (relation "measure (\<lambda>(year, month, first, day). day - first)", goal_cases)
  case (2 year month first day)
  then show ?case using days_in_month_pos [of year month] unfolding in_measure prod.case by linarith
next
  case (3 year month first day)
  then show ?case using days_in_month_pos [of year month] unfolding in_measure prod.case by linarith
qed simp

declare month_span.simps [simp del]

definition gps_second :: u64 where
  "gps_second = 1000000000"

definition utc_valid_until :: "u64 \<Rightarrow> u64 option" where
  "utc_valid_until utc =
     (if utc < 1735689600 * gps_second \<or> utc \<ge> 4102444800 * gps_second then None
      else
        let (first, next) = month_span 1970 1 0 (unat (utc div gps_second div 86400));
            start = of_nat first * 86400 * gps_second;
            stop = of_nat next * 86400 * gps_second
        in if utc < start + 5 * gps_second \<or> utc \<ge> stop - 5 * gps_second then None
           else Some (stop - 5 * gps_second))"

section \<open>Observations\<close>

datatype observation_source = Sntp | Controller | Browser | Gps

record rate_observation =
  ro_utc_ns :: u64
  ro_raw_ns :: u64
  ro_uncertainty_ns :: u64
  ro_rate_ppb :: i32
  ro_rate_uncertainty_ppb :: u32
  ro_generation :: u64

definition default_snapshot :: clock_snapshot where
  "default_snapshot =
     \<lparr>clock_state = Unsynchronized, utc_now_ns = 0, monotonic_now_ns = 0, uncertainty_ns = 0, sync_age_ns = 0,
      leap = LeapUnknown, leap_transition_utc_ns = None, rate_ppb = 0, rate_uncertainty_ppb = 0,
      model_generation = 0, rate_until_monotonic_ns = u64_max, subsequent_rate_ppb = 0,
      valid_until_utc_ns = u64_max\<rparr>"

definition consistent_import :: "rate_observation \<Rightarrow> clock_snapshot \<Rightarrow> bool" where
  "consistent_import source model \<longleftrightarrow>
     \<not> (sync_age_ns model > monotonic_now_ns model \<or> ro_raw_ns source \<noteq> monotonic_now_ns model - sync_age_ns model \<or>
        ro_generation source \<noteq> model_generation model \<or> ro_uncertainty_ns source > uncertainty_ns model) \<and>
     (case project (default_snapshot\<lparr>monotonic_now_ns := ro_raw_ns source, utc_now_ns := ro_utc_ns source,
             rate_ppb := ro_rate_ppb source\<rparr>) (monotonic_now_ns model) of None \<Rightarrow> False
      | Some estimate \<Rightarrow>
          (if estimate \<ge> utc_now_ns model then estimate - utc_now_ns model else utc_now_ns model - estimate)
            \<le> uncertainty_ns model - ro_uncertainty_ns source)"

section \<open>State\<close>

record discipline_config =
  synchronized_for_ns :: u64
  holdover_for_ns :: u64
  max_observation_age_ns :: u64
  max_uncertainty_ns :: u64
  oscillator_drift_ppb :: u64
  max_rate_observation_age_ns :: u64
  non_ntp_holdover_for_ns :: u64
  browser_holdover_for_ns :: u64
  gps_synchronized_for_ns :: u64
  gps_holdover_for_ns :: u64
  unlimited_ntp_holdover :: bool

definition default_discipline_config :: discipline_config where
  "default_discipline_config =
     \<lparr>synchronized_for_ns = 5000000000, holdover_for_ns = 30000000000, max_observation_age_ns = 2000000000,
      max_uncertainty_ns = 1000000000, oscillator_drift_ppb = 50000, max_rate_observation_age_ns = 0,
      non_ntp_holdover_for_ns = 0, browser_holdover_for_ns = 3600000000000, gps_synchronized_for_ns = 3000000000,
      gps_holdover_for_ns = 3600000000000, unlimited_ntp_holdover = False\<rparr>"

record discipline =
  ud_config :: discipline_config
  ud_config_valid :: bool
  ud_valid :: bool
  ud_utc_ns :: u64
  ud_monotonic_ns :: u64
  ud_uncertainty_ns :: u64
  ud_rate_ppb :: i32
  ud_rate_uncertainty_ppb :: u32
  ud_generation :: u64
  ud_leap :: leap_state
  ud_leap_transition :: "u64 option"
  ud_imported :: bool
  ud_browser_rate :: bool
  ud_source :: observation_source
  ud_source_ns :: u64
  ud_imported_generation :: u64
  ud_rate_until_ns :: u64
  ud_subsequent_rate_ppb :: i32
  ud_imported_growth_ppb :: u32
  ud_valid_until_utc_ns :: u64

definition discipline_config_valid :: "bool \<Rightarrow> discipline_config \<Rightarrow> bool" where
  "discipline_config_valid has_clock c \<longleftrightarrow>
     has_clock \<and> synchronized_for_ns c \<le> holdover_for_ns c \<and> holdover_for_ns c \<le> 604800000000000 \<and>
     browser_holdover_for_ns c > 0 \<and> browser_holdover_for_ns c \<le> 3600000000000 \<and>
     non_ntp_holdover_for_ns c \<le> 604800000000000 \<and> gps_synchronized_for_ns c \<le> gps_holdover_for_ns c \<and>
     gps_holdover_for_ns c > 0 \<and> gps_holdover_for_ns c \<le> 3600000000000 \<and>
     max_observation_age_ns c \<le> holdover_for_ns c \<and> max_rate_observation_age_ns c \<le> holdover_for_ns c \<and>
     max_uncertainty_ns c > 0 \<and> oscillator_drift_ppb c \<le> 1000000000"

definition new_discipline :: "bool \<Rightarrow> discipline_config \<Rightarrow> discipline" where
  "new_discipline has_clock c =
     \<lparr>ud_config = c, ud_config_valid = discipline_config_valid has_clock c, ud_valid = False, ud_utc_ns = 0,
      ud_monotonic_ns = 0, ud_uncertainty_ns = 0, ud_rate_ppb = 0, ud_rate_uncertainty_ppb = 0, ud_generation = 0,
      ud_leap = LeapUnknown, ud_leap_transition = None, ud_imported = False, ud_browser_rate = False,
      ud_source = Sntp, ud_source_ns = 0, ud_imported_generation = 0, ud_rate_until_ns = u64_max,
      ud_subsequent_rate_ppb = 0, ud_imported_growth_ppb = 1000, ud_valid_until_utc_ns = u64_max\<rparr>"

section \<open>Snapshots\<close>

definition untrusted_snapshot :: "u64 \<Rightarrow> u64 \<Rightarrow> u64 \<Rightarrow> clock_snapshot" where
  "untrusted_snapshot now age generation =
     default_snapshot\<lparr>monotonic_now_ns := now, uncertainty_ns := u64_max, sync_age_ns := age,
       model_generation := generation\<rparr>"

definition growth_ppb :: "discipline \<Rightarrow> u64" where
  "growth_ppb d =
     (if ud_imported d then ucast (max (ud_imported_growth_ppb d) (ud_rate_uncertainty_ppb d))
      else oscillator_drift_ppb (ud_config d) + ucast (ud_rate_uncertainty_ppb d))"

definition anchor_of :: "discipline \<Rightarrow> clock_snapshot" where
  "anchor_of d = default_snapshot\<lparr>utc_now_ns := ud_utc_ns d, monotonic_now_ns := ud_monotonic_ns d,
     rate_ppb := ud_rate_ppb d, rate_until_monotonic_ns := ud_rate_until_ns d,
     subsequent_rate_ppb := ud_subsequent_rate_ppb d\<rparr>"

definition maximum_age_ns :: "discipline \<Rightarrow> u64" where
  "maximum_age_ns d =
     (let c = ud_config d in
      if ud_source d = Gps then gps_holdover_for_ns c
      else if ud_source d = Browser then browser_holdover_for_ns c
      else if ud_source d \<noteq> Sntp \<and> non_ntp_holdover_for_ns c \<noteq> 0 then non_ntp_holdover_for_ns c
      else holdover_for_ns c)"

definition trust_at :: "discipline \<Rightarrow> u64 \<Rightarrow> clock_state" where
  "trust_at d age =
     (let c = ud_config d;
          synchronized_for = (if ud_source d = Gps then gps_synchronized_for_ns c else synchronized_for_ns c) in
      if age \<le> min synchronized_for (maximum_age_ns d) then Synchronized
      else if age \<le> maximum_age_ns d \<or> (unlimited_ntp_holdover c \<and> ud_source d = Sntp) then Holdover
      else Unsynchronized)"

definition age_of :: "discipline \<Rightarrow> u64 \<Rightarrow> u64" where
  "age_of d now = now - (if ud_imported d \<or> ud_browser_rate d then ud_source_ns d else ud_monotonic_ns d)"

definition trusted_snapshot :: "discipline \<Rightarrow> u64 \<Rightarrow> u64 \<Rightarrow> u64 \<Rightarrow> clock_snapshot" where
  "trusted_snapshot d now utc grown =
     (let until = ud_rate_until_ns d;
          valid_until = (if ud_source d = Gps then ud_valid_until_utc_ns d else u64_max);
          result = \<lparr>clock_state = trust_at d (age_of d now), utc_now_ns = utc, monotonic_now_ns = now,
            uncertainty_ns = grown, sync_age_ns = age_of d now, leap = ud_leap d,
            leap_transition_utc_ns = ud_leap_transition d,
            rate_ppb = (if now \<ge> until then ud_subsequent_rate_ppb d else ud_rate_ppb d),
            rate_uncertainty_ppb = (if ud_source d = Browser
              then ud_rate_uncertainty_ppb d + ucast (oscillator_drift_ppb (ud_config d))
              else ud_rate_uncertainty_ppb d),
            model_generation = ud_generation d,
            rate_until_monotonic_ns = (if now \<ge> until then u64_max else until),
            subsequent_rate_ppb = ud_subsequent_rate_ppb d, valid_until_utc_ns = valid_until\<rparr>
      in if utc \<ge> valid_until then result\<lparr>clock_state := Unsynchronized, leap := LeapUnknown\<rparr> else result)"

definition utc_snapshot :: "discipline \<Rightarrow> u64 \<Rightarrow> clock_snapshot" where
  "utc_snapshot d now =
     (if \<not> ud_config_valid d then untrusted_snapshot 0 u64_max (ud_generation d)
      else if \<not> ud_valid d \<or> now < ud_monotonic_ns d then untrusted_snapshot now u64_max (ud_generation d)
      else
        case growth (now - ud_monotonic_ns d) (growth_ppb d) of
          None \<Rightarrow> untrusted_snapshot now (age_of d now) (ud_generation d)
        | Some drift \<Rightarrow>
            (case project (anchor_of d) now of
               None \<Rightarrow> untrusted_snapshot now (age_of d now) (ud_generation d)
             | Some utc \<Rightarrow>
                 let increase = drift + of_bool (ud_rate_ppb d \<noteq> 0) in
                 if increase > u64_max - ud_uncertainty_ns d
                 then untrusted_snapshot now (age_of d now) (ud_generation d)
                 else trusted_snapshot d now utc (ud_uncertainty_ns d + increase)))"

definition browser_time_available :: "discipline \<Rightarrow> u64 \<Rightarrow> bool" where
  "browser_time_available d now \<longleftrightarrow> clock_state (utc_snapshot d now) = Unsynchronized"

section \<open>Updates\<close>

definition accept_observation ::
  "u64 \<Rightarrow> u64 \<Rightarrow> u64 \<Rightarrow> u64 \<Rightarrow> leap_state \<Rightarrow> u64 option \<Rightarrow> u64 \<Rightarrow> discipline \<Rightarrow> bool \<times> discipline" where
  "accept_observation now utc raw uncertainty announced transition maximum_age d =
     (if \<not> ud_config_valid d then (False, d)
      else if raw > now \<or> (ud_valid d \<and> raw \<le> ud_monotonic_ns d) \<or> now - raw > maximum_age \<or>
         uncertainty > max_uncertainty_ns (ud_config d) \<or> announced = LeapUnknown \<or>
         (announced = LeapNormal \<and> transition \<noteq> None) \<or> (announced \<noteq> LeapNormal \<and> transition = None)
      then (False, d)
      else if now - raw > u64_max - utc then (False, d)
      else (True, d\<lparr>ud_rate_ppb := 0, ud_rate_uncertainty_ppb := 0, ud_imported := False, ud_browser_rate := False,
        ud_source_ns := raw, ud_source := Sntp, ud_rate_until_ns := u64_max, ud_subsequent_rate_ppb := 0,
        ud_generation := ud_generation d + 1, ud_valid := True, ud_utc_ns := utc, ud_monotonic_ns := raw,
        ud_uncertainty_ns := uncertainty, ud_leap := announced, ud_leap_transition := transition\<rparr>))"

definition observe_utc ::
  "u64 \<Rightarrow> u64 \<Rightarrow> u64 \<Rightarrow> u64 \<Rightarrow> leap_state \<Rightarrow> u64 option \<Rightarrow> discipline \<Rightarrow> bool \<times> discipline" where
  "observe_utc now utc raw uncertainty announced transition d =
     accept_observation now utc raw uncertainty announced transition (max_observation_age_ns (ud_config d)) d"

definition observe_from ::
  "observation_source \<Rightarrow> u64 \<Rightarrow> u64 \<Rightarrow> u64 \<Rightarrow> u64 \<Rightarrow> leap_state \<Rightarrow> u64 option \<Rightarrow> discipline \<Rightarrow> bool \<times> discipline" where
  "observe_from source now utc raw uncertainty announced transition d =
     (if source = Gps then (False, d)
      else case observe_utc now utc raw uncertainty announced transition d of
        (accepted, d) \<Rightarrow> if \<not> accepted then (False, d) else (True, d\<lparr>ud_source := source\<rparr>))"

definition adjust_browser_rate :: "u64 \<Rightarrow> i32 \<Rightarrow> u32 \<Rightarrow> discipline \<Rightarrow> bool \<times> discipline" where
  "adjust_browser_rate now rate uncertainty d =
     (if \<not> ud_valid d \<or> ud_source d \<noteq> Browser \<or> sint rate < - 100000 \<or> sint rate > 100000 \<or> uncertainty > 100000 \<or>
         (rate \<noteq> 0 \<and> uncertainty = 0)
      then (False, d)
      else
        let model = utc_snapshot d now in
        if clock_state model = Unsynchronized then (False, d)
        else if ud_rate_ppb d = rate \<and> ud_rate_uncertainty_ppb d = uncertainty then (True, d)
        else (True, d\<lparr>ud_utc_ns := utc_now_ns model, ud_monotonic_ns := monotonic_now_ns model,
          ud_uncertainty_ns := uncertainty_ns model, ud_rate_ppb := rate, ud_subsequent_rate_ppb := rate,
          ud_rate_until_ns := u64_max, ud_rate_uncertainty_ppb := uncertainty, ud_browser_rate := True,
          ud_generation := ud_generation d + 1\<rparr>))"

definition observe_rate :: "u64 \<Rightarrow> u64 \<Rightarrow> u64 \<Rightarrow> u64 \<Rightarrow> i32 \<Rightarrow> u32 \<Rightarrow> discipline \<Rightarrow> bool \<times> discipline" where
  "observe_rate now utc raw uncertainty rate rate_uncertainty d =
     (if \<not> legal_rate rate \<or> rate_uncertainty > utc_max_rate_uncertainty_ppb then (False, d)
      else
        let c = ud_config d;
            maximum_age = (if max_rate_observation_age_ns c \<noteq> 0 then max_rate_observation_age_ns c
              else max_observation_age_ns c)
        in case accept_observation now utc raw uncertainty LeapNormal None maximum_age d of
             (accepted, d) \<Rightarrow>
               if \<not> accepted then (False, d)
               else (True, d\<lparr>ud_rate_ppb := rate, ud_rate_uncertainty_ppb := rate_uncertainty\<rparr>))"

text \<open>\<open>import_model\<close> reads the counter twice.\<close>

definition import_refused ::
  "u64 \<Rightarrow> u64 \<Rightarrow> rate_observation \<Rightarrow> clock_snapshot \<Rightarrow> u32 \<Rightarrow> discipline \<Rightarrow> bool" where
  "import_refused now1 now2 source model max_clock_error d \<longleftrightarrow>
     \<not> ud_config_valid d \<or> \<not> consistent_import source model \<or> utc_now_ns model = 0 \<or>
     sync_age_ns model > monotonic_now_ns model \<or> monotonic_now_ns model > now1 \<or>
     now2 - monotonic_now_ns model > max_observation_age_ns (ud_config d) \<or>
     uncertainty_ns model > 3000000000 \<or> \<not> legal_rate (rate_ppb model) \<or> \<not> legal_rate (subsequent_rate_ppb model) \<or>
     rate_uncertainty_ppb model > utc_max_rate_uncertainty_ppb \<or> max_clock_error > utc_max_rate_uncertainty_ppb \<or>
     clock_state model = Unsynchronized \<or> leap model = LeapUnknown \<or>
     (leap model \<noteq> LeapNormal \<and> leap_transition_utc_ns model = None) \<or>
     (leap model = LeapNormal \<and> leap_transition_utc_ns model \<noteq> None) \<or>
     rate_until_monotonic_ns model < monotonic_now_ns model \<or> model_generation model = 0 \<or>
     ro_generation source \<noteq> model_generation model \<or>
     ro_raw_ns source \<noteq> monotonic_now_ns model - sync_age_ns model \<or>
     (ud_imported d \<and> model_generation model < ud_imported_generation d) \<or>
     (ud_imported d \<and> model_generation model = ud_imported_generation d \<and>
      monotonic_now_ns model - sync_age_ns model \<noteq> ud_source_ns d)"

definition import_model ::
  "u64 \<Rightarrow> u64 \<Rightarrow> observation_source \<Rightarrow> rate_observation \<Rightarrow> clock_snapshot \<Rightarrow> u32 \<Rightarrow> discipline \<Rightarrow> bool \<times> discipline" where
  "import_model now1 now2 kind source model max_clock_error d =
     (case (if kind = Gps then utc_valid_until (ro_utc_ns source) else Some u64_max) of None \<Rightarrow> (False, d)
      | Some horizon \<Rightarrow>
          if utc_now_ns model \<ge> horizon then (False, d)
          else if import_refused now1 now2 source model max_clock_error d then (False, d)
          else (True, d\<lparr>
            ud_generation := (if \<not> ud_imported d \<or> ud_imported_generation d \<noteq> model_generation model
              then ud_generation d + 1 else ud_generation d),
            ud_imported_generation := model_generation model, ud_imported := True, ud_valid := True,
            ud_browser_rate := False, ud_source := kind, ud_valid_until_utc_ns := horizon,
            ud_utc_ns := utc_now_ns model, ud_monotonic_ns := monotonic_now_ns model,
            ud_source_ns := monotonic_now_ns model - sync_age_ns model, ud_uncertainty_ns := uncertainty_ns model,
            ud_rate_ppb := rate_ppb model, ud_rate_uncertainty_ppb := rate_uncertainty_ppb model,
            ud_imported_growth_ppb := max_clock_error, ud_rate_until_ns := rate_until_monotonic_ns model,
            ud_subsequent_rate_ppb := subsequent_rate_ppb model, ud_leap := leap model,
            ud_leap_transition := leap_transition_utc_ns model\<rparr>))"

definition observe_ntp_model ::
  "u64 \<Rightarrow> u64 \<Rightarrow> rate_observation \<Rightarrow> clock_snapshot \<Rightarrow> u32 \<Rightarrow> discipline \<Rightarrow> bool \<times> discipline" where
  "observe_ntp_model now1 now2 source model maximum_error d = import_model now1 now2 Sntp source model maximum_error d"

definition observe_reference_model ::
  "u64 \<Rightarrow> u64 \<Rightarrow> rate_observation \<Rightarrow> clock_snapshot \<Rightarrow> u32 \<Rightarrow> discipline \<Rightarrow> bool \<times> discipline" where
  "observe_reference_model now1 now2 source model maximum_error d = import_model now1 now2 Gps source model maximum_error d"

definition invalidate :: "discipline \<Rightarrow> discipline" where
  "invalidate d = d\<lparr>ud_generation := ud_generation d + 1, ud_valid := False\<rparr>"

definition invalidate_source :: "observation_source \<Rightarrow> discipline \<Rightarrow> discipline" where
  "invalidate_source source d = (if source = ud_source d then invalidate d else d)"

end
