(* ===== verification/Utc_Enclosure.thy ===== *)
theory Utc_Enclosure
  imports Utc_Discipline
begin

text \<open>
  What the snapshots of the disciplined clock mean. Time is a function \<open>T\<close> from the monotonic counter to UTC in
  real nanoseconds. \<open>tracks\<close> says that from an anchor on it follows the nominal rates of a model within a relative
  error; \<open>told T d\<close> that a discipline was built, by any sequence of operations, from observations that are true
  of \<open>T\<close>. The enclosure follows segment by segment from the exact arithmetic of \<open>Time_Mapping\<close>.
\<close>

section \<open>Nominal time\<close>

definition slope :: "int \<Rightarrow> real" where
  "slope rate = 1 + real_of_int rate / 1000000000"

definition nominal :: "nat \<Rightarrow> int \<Rightarrow> nat \<Rightarrow> int \<Rightarrow> nat \<Rightarrow> real" where
  "nominal anchor rate until rate' x =
     (if x \<le> until then slope rate * (real x - real anchor)
      else slope rate * (real until - real anchor) + slope rate' * (real x - real until))"

definition tracks :: "(nat \<Rightarrow> real) \<Rightarrow> nat \<Rightarrow> int \<Rightarrow> nat \<Rightarrow> int \<Rightarrow> nat \<Rightarrow> bool" where
  "tracks T anchor rate until rate' ppb \<longleftrightarrow>
     (\<forall>x \<ge> anchor. x \<le> unat u64_max \<longrightarrow> \<bar>T x - T anchor - nominal anchor rate until rate' x\<bar> \<le> (real x - real anchor) * real ppb / 1000000000)"

definition faithful :: "(nat \<Rightarrow> real) \<Rightarrow> discipline \<Rightarrow> bool" where
  "faithful T d \<longleftrightarrow> (ud_valid d \<longrightarrow>
     ud_monotonic_ns d \<le> ud_rate_until_ns d \<and>
     \<bar>T (unat (ud_monotonic_ns d)) - real (unat (ud_utc_ns d))\<bar> \<le> real (unat (ud_uncertainty_ns d)) \<and>
     tracks T (unat (ud_monotonic_ns d)) (sint (ud_rate_ppb d)) (unat (ud_rate_until_ns d)) (sint (ud_subsequent_rate_ppb d))
       (unat (growth_ppb d)))"

lemma advance_slope:
  "real_of_int (advance (1000000000 + rate) 1000000000 x) \<le> slope rate * real_of_int x"
  "slope rate * real_of_int x \<le> real_of_int (advance (1000000000 + rate) 1000000000 x) + of_bool (rate \<noteq> 0)"
proof -
  have eq: "slope rate * real_of_int x = real_of_int (x * (1000000000 + rate)) / real_of_int 1000000000"
    by (simp add: slope_def field_simps)
  show "real_of_int (advance (1000000000 + rate) 1000000000 x) \<le> slope rate * real_of_int x"
    unfolding eq advance_def by (rule real_of_int_div4)
  show "slope rate * real_of_int x \<le> real_of_int (advance (1000000000 + rate) 1000000000 x) + of_bool (rate \<noteq> 0)"
  proof (cases "rate = 0")
    case False
    then show ?thesis
      unfolding eq advance_def using real_of_int_div3 [of "x * (1000000000 + rate)" 1000000000] by simp
  qed (simp add: slope_def advance_def)
qed

lemma quotient_upper: "0 < d \<Longrightarrow> real v * real n / real d \<le> real (quotient v n d True)"
proof -
  assume d: "0 < d"
  have "v * n \<le> (v * n + (d - 1)) div d * d"
    using d div_mult_mod_eq [of "v * n + (d - 1)" d] mod_less_divisor [OF d, of "v * n + (d - 1)"] by linarith
  then have "real (v * n) \<le> real (quotient v n d True) * real d"
    unfolding quotient_def of_nat_mult [symmetric] of_nat_le_iff by simp
  then show ?thesis using d by (simp add: field_simps)
qed

lemma growth_upper:
  assumes "growth age ppb = Some drift"
  shows "real (unat age) * real (unat ppb) / 1000000000 \<le> real (unat drift)"
proof -
  have "unat drift = quotient (unat age) (unat ppb) 1000000000 True"
    using assms by (simp add: growth_def scale_iff)
  then show ?thesis using quotient_upper [of 1000000000 "unat age" "unat ppb"] by simp
qed

lemma project_straight_real:
  assumes "\<not> (horizon_ahead a \<and> raw > rate_until_monotonic_ns a)" "project a raw = Some u"
  defines "x \<equiv> real (unat raw) - real (unat (monotonic_now_ns a))"
  shows "real (unat u) - real (unat (utc_now_ns a)) \<le> slope (sint (rate_ppb a)) * x"
    "slope (sint (rate_ppb a)) * x \<le> real (unat u) - real (unat (utc_now_ns a)) + of_bool (rate_ppb a \<noteq> 0)"
proof -
  let ?x = "int (unat raw) - int (unat (monotonic_now_ns a))"
  have "int (unat u) - int (unat (utc_now_ns a)) = advance (1000000000 + sint (rate_ppb a)) 1000000000 ?x"
    using project_straight(2) [OF assms(1,2)] by simp
  then have "real (unat u) - real (unat (utc_now_ns a)) = real_of_int (advance (1000000000 + sint (rate_ppb a)) 1000000000 ?x)"
    by (metis of_int_diff of_int_of_nat_eq)
  moreover have "x = real_of_int ?x" by (simp add: x_def)
  moreover have "sint (rate_ppb a) = 0 \<longleftrightarrow> rate_ppb a = 0"
    by (metis signed_0 signed_word_eqI)
  ultimately show "real (unat u) - real (unat (utc_now_ns a)) \<le> slope (sint (rate_ppb a)) * x"
    "slope (sint (rate_ppb a)) * x \<le> real (unat u) - real (unat (utc_now_ns a)) + of_bool (rate_ppb a \<noteq> 0)"
    using advance_slope [of "sint (rate_ppb a)" ?x] by simp_all
qed

lemma project_real:
  assumes "project a raw = Some u" "monotonic_now_ns a \<le> rate_until_monotonic_ns a"
  defines "n \<equiv> nominal (unat (monotonic_now_ns a)) (sint (rate_ppb a)) (unat (rate_until_monotonic_ns a))
    (sint (subsequent_rate_ppb a)) (unat raw)"
  shows "real (unat u) - real (unat (utc_now_ns a)) \<le> n"
    "n \<le> real (unat u) - real (unat (utc_now_ns a)) + of_bool (rate_ppb a \<noteq> 0) + of_bool (raw > rate_until_monotonic_ns a)"
proof -
  let ?until = "rate_until_monotonic_ns a"
  have "real (unat u) - real (unat (utc_now_ns a)) \<le> n \<and>
    n \<le> real (unat u) - real (unat (utc_now_ns a)) + of_bool (rate_ppb a \<noteq> 0) + of_bool (raw > ?until)"
  proof (cases "raw > ?until")
    case False
    then have "n = slope (sint (rate_ppb a)) * (real (unat raw) - real (unat (monotonic_now_ns a)))"
      by (simp add: n_def nominal_def word_nat)
    then show ?thesis using project_straight_real [OF _ assms(1)] False by simp
  next
    case True
    then have ahead: "horizon_ahead a" using assms(2) leD [OF u64_max_top [of raw]] by (auto simp: horizon_ahead_def)
    obtain b where b: "project (a\<lparr>rate_until_monotonic_ns := u64_max\<rparr>) ?until = Some b" "project (second_segment a b) raw = Some u"
      using project_second [OF ahead True assms(1)] by blast
    have n: "n = slope (sint (rate_ppb a)) * (real (unat ?until) - real (unat (monotonic_now_ns a))) +
        slope (sint (subsequent_rate_ppb a)) * (real (unat raw) - real (unat ?until))"
      using True by (simp add: n_def nominal_def word_nat)
    have second: "\<not> (horizon_ahead (second_segment a b) \<and> raw > rate_until_monotonic_ns (second_segment a b))" by simp
    have "real (unat u) - real (unat b) \<le> slope (sint (subsequent_rate_ppb a)) * (real (unat raw) - real (unat ?until))"
      "slope (sint (subsequent_rate_ppb a)) * (real (unat raw) - real (unat ?until)) \<le> real (unat u) - real (unat b) + 1"
      using project_straight_real [OF second b(2)] by (auto simp: second_segment_def of_bool_def split: if_splits)
    moreover have "real (unat b) - real (unat (utc_now_ns a)) \<le> slope (sint (rate_ppb a)) * (real (unat ?until) - real (unat (monotonic_now_ns a)))"
      "slope (sint (rate_ppb a)) * (real (unat ?until) - real (unat (monotonic_now_ns a))) \<le>
        real (unat b) - real (unat (utc_now_ns a)) + of_bool (rate_ppb a \<noteq> 0)"
      using project_straight_real [OF _ b(1)] by simp_all
    ultimately show ?thesis using True by (simp add: n)
  qed
  then show "real (unat u) - real (unat (utc_now_ns a)) \<le> n"
    "n \<le> real (unat u) - real (unat (utc_now_ns a)) + of_bool (rate_ppb a \<noteq> 0) + of_bool (raw > rate_until_monotonic_ns a)"
    by simp_all
qed

section \<open>Snapshots enclose the time\<close>

lemma trusted_parts:
  assumes "clock_state (utc_snapshot d now) \<noteq> Unsynchronized"
  obtains drift utc where "ud_valid d" "ud_monotonic_ns d \<le> now"
    "growth (now - ud_monotonic_ns d) (growth_ppb d) = Some drift" "project (anchor_of d) now = Some utc"
    "\<not> drift + of_bool (ud_rate_ppb d \<noteq> 0) > u64_max - ud_uncertainty_ns d"
    "utc_snapshot d now = trusted_snapshot d now utc (ud_uncertainty_ns d + (drift + of_bool (ud_rate_ppb d \<noteq> 0)))"
  using assms
  by (auto simp: utc_snapshot_def untrusted_snapshot_def default_snapshot_def Let_def split: if_splits option.splits)

lemma trusted_fields [simp]:
  "utc_now_ns (trusted_snapshot d now utc grown) = utc" "uncertainty_ns (trusted_snapshot d now utc grown) = grown"
  "monotonic_now_ns (trusted_snapshot d now utc grown) = now"
  by (simp_all add: trusted_snapshot_def Let_def)

lemma anchor_fields [simp]:
  "monotonic_now_ns (anchor_of d) = ud_monotonic_ns d" "utc_now_ns (anchor_of d) = ud_utc_ns d"
  "rate_ppb (anchor_of d) = ud_rate_ppb d" "rate_until_monotonic_ns (anchor_of d) = ud_rate_until_ns d"
  "subsequent_rate_ppb (anchor_of d) = ud_subsequent_rate_ppb d"
  by (simp_all add: anchor_of_def)

lemma drift_fits:
  assumes "growth age ppb = Some drift" "\<not> drift + of_bool b > u64_max - uncertainty" "unat age < 9223372036854775808"
  shows "unat (uncertainty + (drift + of_bool b)) = unat uncertainty + (unat drift + of_bool b)"
proof -
  have g: "unat drift = (unat age * unat ppb + 999999999) div 1000000000" "unat ppb \<le> 2000000000"
    using assms(1) by (simp_all add: growth_def scale_iff quotient_def word_nat)
  have "unat age * unat ppb \<le> 9223372036854775807 * 2000000000"
    using g(2) assms(3) by (intro mult_le_mono) simp_all
  then have "unat drift \<le> 18446744073709551614" unfolding g(1) by simp
  then have "unat (drift + of_bool b) = unat drift + of_bool b" by (cases b) (simp_all add: unat_u64_plus)
  moreover have "unat (uncertainty + (drift + of_bool b)) = unat uncertainty + unat (drift + of_bool b)"
    by (rule unat_guarded_plus [OF assms(2)])
  ultimately show ?thesis by simp
qed

lemma snapshot_encloses:
  assumes "faithful T d" "clock_state (utc_snapshot d now) \<noteq> Unsynchronized" "unat now < 9223372036854775808"
  shows "\<bar>T (unat now) - real (unat (utc_now_ns (utc_snapshot d now)))\<bar> \<le>
    real (unat (uncertainty_ns (utc_snapshot d now))) + of_bool (now > ud_rate_until_ns d)"
proof -
  obtain drift utc where t: "ud_valid d" "ud_monotonic_ns d \<le> now"
    "growth (now - ud_monotonic_ns d) (growth_ppb d) = Some drift" "project (anchor_of d) now = Some utc"
    "\<not> drift + of_bool (ud_rate_ppb d \<noteq> 0) > u64_max - ud_uncertainty_ns d"
    "utc_snapshot d now = trusted_snapshot d now utc (ud_uncertainty_ns d + (drift + of_bool (ud_rate_ppb d \<noteq> 0)))"
    using trusted_parts [OF assms(2)] by blast
  let ?n = "nominal (unat (ud_monotonic_ns d)) (sint (ud_rate_ppb d)) (unat (ud_rate_until_ns d))
      (sint (ud_subsequent_rate_ppb d)) (unat now)"
  have f: "ud_monotonic_ns d \<le> ud_rate_until_ns d"
    "\<bar>T (unat (ud_monotonic_ns d)) - real (unat (ud_utc_ns d))\<bar> \<le> real (unat (ud_uncertainty_ns d))"
    "tracks T (unat (ud_monotonic_ns d)) (sint (ud_rate_ppb d)) (unat (ud_rate_until_ns d)) (sint (ud_subsequent_rate_ppb d))
       (unat (growth_ppb d))"
    using assms(1) t(1) by (auto simp: faithful_def)
  have age: "unat (now - ud_monotonic_ns d) = unat now - unat (ud_monotonic_ns d)" "unat (ud_monotonic_ns d) \<le> unat now"
    using t(2) by (simp_all add: unat_u64_minus word_nat)
  have unat_now: "unat now \<le> unat u64_max" using u64_max_top [of now] by (simp only: word_nat)
  have "\<bar>T (unat now) - T (unat (ud_monotonic_ns d)) - ?n\<bar> \<le>
      (real (unat now) - real (unat (ud_monotonic_ns d))) * real (unat (growth_ppb d)) / 1000000000"
    by (rule f(3) [unfolded tracks_def, rule_format, OF age(2) unat_now])
  also have "\<dots> \<le> real (unat drift)"
    using growth_upper [OF t(3)] age by (simp add: of_nat_diff)
  finally have moved: "\<bar>T (unat now) - T (unat (ud_monotonic_ns d)) - ?n\<bar> \<le> real (unat drift)" .
  have "unat (ud_uncertainty_ns d + (drift + of_bool (ud_rate_ppb d \<noteq> 0))) =
      unat (ud_uncertainty_ns d) + (unat drift + of_bool (ud_rate_ppb d \<noteq> 0))"
    by (rule drift_fits [OF t(3,5)]) (use age assms(3) in simp)
  then show ?thesis
    using moved f(2) project_real [OF t(4)] f(1) by (simp add: t(6) abs_le_iff)
qed

section \<open>Sequences of observations\<close>

text \<open>\<open>told T d\<close>: the discipline was built from observations that are true of the time \<open>T\<close>. An observation is true
  when it is off by at most its stated uncertainty and the counter then runs at the stated rate within the
  stated error.\<close>

definition true_anchor :: "(nat \<Rightarrow> real) \<Rightarrow> u64 \<Rightarrow> u64 \<Rightarrow> u64 \<Rightarrow> bool" where
  "true_anchor T utc raw uncertainty \<longleftrightarrow> \<bar>T (unat raw) - real (unat utc)\<bar> \<le> real (unat uncertainty)"

definition true_rate :: "(nat \<Rightarrow> real) \<Rightarrow> u64 \<Rightarrow> i32 \<Rightarrow> nat \<Rightarrow> bool" where
  "true_rate T raw rate ppb \<longleftrightarrow> tracks T (unat raw) (sint rate) (unat u64_max) (sint rate) ppb"

inductive told :: "(nat \<Rightarrow> real) \<Rightarrow> discipline \<Rightarrow> bool" for T where
  fresh: "told T (new_discipline has_clock c)"
| utc: "told T d \<Longrightarrow> true_anchor T utc raw uncertainty \<Longrightarrow> true_rate T raw 0 (unat (oscillator_drift_ppb (ud_config d))) \<Longrightarrow>
    told T (snd (observe_from source now utc raw uncertainty announced transition d))"
| rate: "told T d \<Longrightarrow> true_anchor T utc raw uncertainty \<Longrightarrow>
    true_rate T raw rate (unat (oscillator_drift_ppb (ud_config d)) + unat rate_uncertainty) \<Longrightarrow>
    told T (snd (observe_rate now utc raw uncertainty rate rate_uncertainty d))"
| model: "told T d \<Longrightarrow> kind = Sntp \<or> kind = Gps \<Longrightarrow> true_anchor T (utc_now_ns model) (monotonic_now_ns model) (uncertainty_ns model) \<Longrightarrow>
    tracks T (unat (monotonic_now_ns model)) (sint (rate_ppb model)) (unat (rate_until_monotonic_ns model))
      (sint (subsequent_rate_ppb model)) (unat (max maximum_error (rate_uncertainty_ppb model))) \<Longrightarrow>
    told T (snd (import_model now1 now2 kind source model maximum_error d))"
| browser: "told T d \<Longrightarrow> unat now < 9223372036854775808 \<Longrightarrow>
    true_rate T now rate (unat (oscillator_drift_ppb (ud_config d)) + unat uncertainty) \<Longrightarrow>
    told T (snd (adjust_browser_rate now rate uncertainty d))"
| dropped: "told T d \<Longrightarrow> told T (invalidate_source source d)"

lemma tracks_one_rate: "tracks T a r (unat u64_max) r1 ppb \<longleftrightarrow> tracks T a r (unat u64_max) r2 ppb"
  by (simp add: tracks_def nominal_def)

definition told_ok :: "(nat \<Rightarrow> real) \<Rightarrow> discipline \<Rightarrow> bool" where
  "told_ok T d \<longleftrightarrow> faithful T d \<and> (ud_config_valid d \<longrightarrow> oscillator_drift_ppb (ud_config d) \<le> 1000000000) \<and>
     (ud_valid d \<longrightarrow> ud_config_valid d) \<and>
     (ud_valid d \<and> ud_source d = Browser \<longrightarrow> ud_rate_until_ns d = u64_max \<and> \<not> ud_imported d)"

lemma unat_ucast_u32: "unat (ucast (r :: u32) :: u64) = unat r"
proof -
  have "unat r < 2 ^ LENGTH(32)" by (rule unsigned_less)
  then show ?thesis by (simp add: unsigned_ucast_eq take_bit_nat_eq_self)
qed

lemma drift_sum:
  assumes "drift \<le> (1000000000 :: u64)"
  shows "unat (drift + ucast (r :: u32)) = unat drift + unat r"
proof -
  have "unat r < 2 ^ LENGTH(32)" by (rule unsigned_less)
  moreover have "unat (ucast r :: u64) = unat r" by (rule unat_ucast_u32)
  ultimately show ?thesis using assms by (subst unat_u64_plus) (simp_all add: word_nat)
qed

lemma accept_ok:
  assumes "told_ok T d" "true_anchor T utc raw uncertainty"
    "accept_observation now utc raw uncertainty announced transition maximum_age d = (accepted, d')"
  shows "if accepted then d' = d\<lparr>ud_rate_ppb := 0, ud_rate_uncertainty_ppb := 0, ud_imported := False, ud_browser_rate := False,
        ud_source_ns := raw, ud_source := Sntp, ud_rate_until_ns := u64_max, ud_subsequent_rate_ppb := 0,
        ud_generation := ud_generation d + 1, ud_valid := True, ud_utc_ns := utc, ud_monotonic_ns := raw,
        ud_uncertainty_ns := uncertainty, ud_leap := announced, ud_leap_transition := transition\<rparr> \<and> ud_config_valid d
    else d' = d"
  using assms(3) by (auto simp: accept_observation_def split: if_splits)

lemma import_result:
  "snd (import_model now1 now2 kind source model maximum_error d) = d \<or>
     (\<not> import_refused now1 now2 source model maximum_error d \<and>
      (\<exists>generation horizon. snd (import_model now1 now2 kind source model maximum_error d) = d\<lparr>ud_generation := generation,
            ud_imported_generation := model_generation model, ud_imported := True, ud_valid := True,
            ud_browser_rate := False, ud_source := kind, ud_valid_until_utc_ns := horizon,
            ud_utc_ns := utc_now_ns model, ud_monotonic_ns := monotonic_now_ns model,
            ud_source_ns := monotonic_now_ns model - sync_age_ns model, ud_uncertainty_ns := uncertainty_ns model,
            ud_rate_ppb := rate_ppb model, ud_rate_uncertainty_ppb := rate_uncertainty_ppb model,
            ud_imported_growth_ppb := maximum_error, ud_rate_until_ns := rate_until_monotonic_ns model,
            ud_subsequent_rate_ppb := subsequent_rate_ppb model, ud_leap := leap model,
            ud_leap_transition := leap_transition_utc_ns model\<rparr>))"
proof (cases "if kind = Gps then utc_valid_until (ro_utc_ns source) else Some u64_max")
  case None
  then show ?thesis by (simp add: import_model_def)
next
  case (Some h)
  show ?thesis
  proof (cases "utc_now_ns model \<ge> h \<or> import_refused now1 now2 source model maximum_error d")
    case True
    then show ?thesis by (auto simp: import_model_def Some)
  next
    case False
    then show ?thesis unfolding import_model_def Some option.case by (intro disjI2 conjI exI) simp_all
  qed
qed

lemma told_is_ok: "told T d \<Longrightarrow> told_ok T d"
proof (induction rule: told.induct)
  case (fresh has_clock c)
  then show ?case
    by (simp add: told_ok_def faithful_def new_discipline_def discipline_config_valid_def)
next
  case (utc d utc raw uncertainty source now announced transition)
  obtain a d' where "observe_utc now utc raw uncertainty announced transition d = (a, d')" by fastforce
  note acc = this accept_ok [OF utc.IH utc.hyps(2) this [unfolded observe_utc_def]]
  show ?case
    using acc utc.IH utc.hyps(2,3)
    by (auto simp: observe_from_def told_ok_def faithful_def growth_ppb_def true_anchor_def true_rate_def split: if_splits)
next
  case (rate d utc raw uncertainty rate rate_uncertainty now)
  define maximum_age where "maximum_age = (if max_rate_observation_age_ns (ud_config d) \<noteq> 0
    then max_rate_observation_age_ns (ud_config d) else max_observation_age_ns (ud_config d))"
  obtain a d' where run: "accept_observation now utc raw uncertainty LeapNormal None maximum_age d = (a, d')" by fastforce
  have then_on: "tracks T (unat raw) (sint rate) 18446744073709551615 0 (unat (oscillator_drift_ppb (ud_config d)) + unat rate_uncertainty)"
    using rate.hyps(3) tracks_one_rate [of T "unat raw" "sint rate" "sint rate" _ 0] by (simp add: true_rate_def)
  show ?case
  proof (cases a)
    case False
    then have "snd (observe_rate now utc raw uncertainty rate rate_uncertainty d) = d"
      using run accept_ok [OF rate.IH rate.hyps(2) run]
      by (simp add: observe_rate_def Let_def maximum_age_def [symmetric])
    then show ?thesis using rate.IH by simp
  next
    case True
    let ?d = "d'\<lparr>ud_rate_ppb := rate, ud_rate_uncertainty_ppb := rate_uncertainty\<rparr>"
    have "snd (observe_rate now utc raw uncertainty rate rate_uncertainty d) \<in> {d, ?d}"
      using run True by (simp add: observe_rate_def Let_def maximum_age_def [symmetric])
    moreover have "told_ok T ?d"
    proof -
      have valid: "ud_config_valid d" using accept_ok [OF rate.IH rate.hyps(2) run] True by simp
      then have "oscillator_drift_ppb (ud_config d) \<le> 1000000000" using rate.IH by (simp add: told_ok_def)
      note sum = drift_sum [OF this]
      have "d' = d\<lparr>ud_rate_ppb := 0, ud_rate_uncertainty_ppb := 0, ud_imported := False, ud_browser_rate := False,
        ud_source_ns := raw, ud_source := Sntp, ud_rate_until_ns := u64_max, ud_subsequent_rate_ppb := 0,
        ud_generation := ud_generation d + 1, ud_valid := True, ud_utc_ns := utc, ud_monotonic_ns := raw,
        ud_uncertainty_ns := uncertainty, ud_leap := LeapNormal, ud_leap_transition := None\<rparr>"
        using accept_ok [OF rate.IH rate.hyps(2) run] True by simp
      then show ?thesis
        using then_on rate.hyps(2) rate.IH valid
        by (simp only:) (simp add: told_ok_def faithful_def growth_ppb_def true_anchor_def sum)
    qed
    ultimately show ?thesis using rate.IH by auto
  qed
next
  case (model d kind model maximum_error now1 now2 source)
  show ?case
  proof (cases "snd (import_model now1 now2 kind source model maximum_error d) = d")
    case False
    then obtain generation horizon where imported: "\<not> import_refused now1 now2 source model maximum_error d"
      "snd (import_model now1 now2 kind source model maximum_error d) = d\<lparr>ud_generation := generation,
            ud_imported_generation := model_generation model, ud_imported := True, ud_valid := True,
            ud_browser_rate := False, ud_source := kind, ud_valid_until_utc_ns := horizon,
            ud_utc_ns := utc_now_ns model, ud_monotonic_ns := monotonic_now_ns model,
            ud_source_ns := monotonic_now_ns model - sync_age_ns model, ud_uncertainty_ns := uncertainty_ns model,
            ud_rate_ppb := rate_ppb model, ud_rate_uncertainty_ppb := rate_uncertainty_ppb model,
            ud_imported_growth_ppb := maximum_error, ud_rate_until_ns := rate_until_monotonic_ns model,
            ud_subsequent_rate_ppb := subsequent_rate_ppb model, ud_leap := leap model,
            ud_leap_transition := leap_transition_utc_ns model\<rparr>"
      using import_result by blast
    have "ud_config_valid d" "monotonic_now_ns model \<le> rate_until_monotonic_ns model"
      using imported(1) by (simp_all add: import_refused_def not_less)
    then show ?thesis
      using model.IH model.hyps(2-4) unfolding imported(2) told_ok_def faithful_def growth_ppb_def true_anchor_def
      by (auto simp: unat_ucast_u32)
  qed (use model.IH in simp)
next
  case (browser d now rate uncertainty)
  show ?case
  proof (cases "fst (adjust_browser_rate now rate uncertainty d) \<and> snd (adjust_browser_rate now rate uncertainty d) \<noteq> d")
    case False
    then have "snd (adjust_browser_rate now rate uncertainty d) = d"
      by (auto simp: adjust_browser_rate_def Let_def split: if_splits)
    then show ?thesis using browser.IH by simp
  next
    case True
    then have adjusted: "ud_valid d" "ud_source d = Browser" "clock_state (utc_snapshot d now) \<noteq> Unsynchronized"
      "snd (adjust_browser_rate now rate uncertainty d) = d\<lparr>ud_utc_ns := utc_now_ns (utc_snapshot d now),
          ud_monotonic_ns := monotonic_now_ns (utc_snapshot d now), ud_uncertainty_ns := uncertainty_ns (utc_snapshot d now),
          ud_rate_ppb := rate, ud_subsequent_rate_ppb := rate, ud_rate_until_ns := u64_max,
          ud_rate_uncertainty_ppb := uncertainty, ud_browser_rate := True, ud_generation := ud_generation d + 1\<rparr>"
      by (auto simp: adjust_browser_rate_def Let_def split: if_splits)
    have "monotonic_now_ns (utc_snapshot d now) = now" using trusted_parts [OF adjusted(3)] by (metis trusted_fields(3))
    moreover have "\<bar>T (unat now) - real (unat (utc_now_ns (utc_snapshot d now)))\<bar> \<le> real (unat (uncertainty_ns (utc_snapshot d now)))"
      using snapshot_encloses [of T d now] browser.IH browser.hyps(2) adjusted(1-3) leD [OF u64_max_top [of now]]
      by (auto simp: told_ok_def)
    ultimately show ?thesis
      using browser.IH browser.hyps(3) adjusted(1,2)
      by (auto simp: adjusted(4) told_ok_def faithful_def growth_ppb_def true_rate_def drift_sum)
  qed
next
  case (dropped d source)
  then show ?case by (auto simp: invalidate_source_def invalidate_def told_ok_def faithful_def)
qed

section \<open>Properties\<close>

text \<open>C13: the clock is wrong by at most what it says, up to one nanosecond. Whatever observations, rate
  models, imported NTP or GPS models, browser rate adjustments and invalidations it has processed, if they
  were true of the time then every snapshot it marks as trusted, at a counter value below half its range (292
  years), encloses the time in its uncertainty; after the counter has passed the end of the rate segment of
  the model, one more nanosecond is needed, since the projection of the second segment truncates as well and
  the uncertainty does not count it (\<open>slew_rounding_unaccounted\<close> below is a case where it is missing).\<close>

theorem utc_enclosed:
  assumes "told T d" "clock_state (utc_snapshot d now) \<noteq> Unsynchronized" "unat now < 2 ^ 63"
  shows "\<bar>T (unat now) - real (unat (utc_now_ns (utc_snapshot d now)))\<bar> \<le>
    real (unat (uncertainty_ns (utc_snapshot d now))) + of_bool (now > ud_rate_until_ns d)"
  using snapshot_encloses [of T d now] told_is_ok [OF assms(1)] assms(2,3) by (simp add: told_ok_def)

text \<open>A discipline that heard of UTC once, from a true source.\<close>

definition ideal_time :: "nat \<Rightarrow> real" where
  "ideal_time x = real x + 995000000000"

definition heard :: discipline where
  "heard = snd (observe_from Sntp 5000000000 1000000000000 5000000000 1000000 LeapNormal None
     (new_discipline True default_discipline_config))"

lemma heard_told: "told ideal_time heard"
  unfolding heard_def
  by (rule told.utc [OF told.fresh])
    (simp_all add: true_anchor_def ideal_time_def true_rate_def tracks_def nominal_def slope_def
      new_discipline_def default_discipline_config_def)

lemma heard_snapshot:
  "clock_state (utc_snapshot heard 6000000000) = Synchronized" "utc_now_ns (utc_snapshot heard 6000000000) = 1001000000000"
  "uncertainty_ns (utc_snapshot heard 6000000000) = 1050000" "ud_rate_until_ns heard = u64_max"
  by code_simp+

lemma heard_later: "clock_state (utc_snapshot heard 7000000000) = Synchronized"
  by code_simp

theorem utc_enclosed_witness:
  "\<bar>ideal_time 6000000000 - 1001000000000\<bar> \<le> 1050000"
  using utc_enclosed [OF heard_told, of 6000000000] by (simp add: heard_snapshot leD)

section \<open>Order\<close>

lemma project_mono:
  assumes "project a x = Some u" "project a y = Some v" "x \<le> y"
  shows "u \<le> v"
proof -
  have straight: "u \<le> v" if "\<not> (horizon_ahead c \<and> y > rate_until_monotonic_ns c)" "project c x = Some u" "project c y = Some v"
    "x \<le> y" for c x y u v
  proof -
    have x: "\<not> (horizon_ahead c \<and> x > rate_until_monotonic_ns c)" using that(1,4) by (auto dest: order.strict_trans1)
    note p = project_straight [OF x that(2)] project_straight [OF that(1,3)]
    have "0 < 1000000000 + sint (rate_ppb c)" using rate_scale_value [OF p(1)] by simp
    then have "advance (1000000000 + sint (rate_ppb c)) 1000000000 (int (unat x) - int (unat (monotonic_now_ns c)))
        \<le> advance (1000000000 + sint (rate_ppb c)) 1000000000 (int (unat y) - int (unat (monotonic_now_ns c)))"
      using that(4) by (intro advance_mono) (simp_all add: word_le_def)
    then have "int (unat u) \<le> int (unat v)" using p(2,4) by linarith
    then show ?thesis by (simp only: word_nat of_nat_le_iff)
  qed
  show ?thesis
  proof (cases "horizon_ahead a \<and> y > rate_until_monotonic_ns a")
    case False
    then show ?thesis using straight assms by blast
  next
    case True
    obtain b where b: "project (a\<lparr>rate_until_monotonic_ns := u64_max\<rparr>) (rate_until_monotonic_ns a) = Some b"
      "project (second_segment a b) y = Some v"
      using project_second [OF _ _ assms(2)] True by blast
    show ?thesis
    proof (cases "x > rate_until_monotonic_ns a")
      case False
      then have "u \<le> b" using project_below_boundary [OF _ _ assms(1) b(1)] True by simp
      also have "b \<le> v" using second_segment_ends [OF b(2)] True by simp
      finally show ?thesis .
    next
      case x: True
      obtain b' where "project (a\<lparr>rate_until_monotonic_ns := u64_max\<rparr>) (rate_until_monotonic_ns a) = Some b'"
        "project (second_segment a b') x = Some u"
        using project_second [OF _ x assms(1)] True by blast
      then have "project (second_segment a b) x = Some u" using b(1) by simp
      then show ?thesis using straight [OF _ _ b(2)] assms(3) by simp
    qed
  qed
qed

text \<open>C14: between two observations UTC does not run backwards: of two trusted snapshots of the same clock the later
  one shows the same time or a later one, also across the end of a slew.\<close>

theorem utc_never_runs_back:
  assumes "clock_state (utc_snapshot d now) \<noteq> Unsynchronized" "clock_state (utc_snapshot d later) \<noteq> Unsynchronized"
    "now \<le> later"
  shows "utc_now_ns (utc_snapshot d now) \<le> utc_now_ns (utc_snapshot d later)"
  using trusted_parts [OF assms(1)] trusted_parts [OF assms(2)] project_mono [OF _ _ assms(3)] by (metis trusted_fields(1))

theorem utc_never_runs_back_witness:
  "utc_now_ns (utc_snapshot heard 6000000000) \<le> utc_now_ns (utc_snapshot heard 7000000000)"
  by (rule utc_never_runs_back) (simp_all add: heard_snapshot heard_later)

section \<open>Rounding after a slew\<close>

text \<open>The code adds a nanosecond for the rounding of the first segment only, and only if its rate is not
  zero. A model that was exact, with a slew that has ended, is off by a fraction of a nanosecond that
  the reported uncertainty does not cover: the additional term of the enclosure is needed.\<close>

definition slewed_source :: rate_observation where
  "slewed_source = \<lparr>ro_utc_ns = 1000000000000, ro_raw_ns = 5000000000, ro_uncertainty_ns = 0, ro_rate_ppb = 0,
     ro_rate_uncertainty_ppb = 0, ro_generation = 1\<rparr>"

definition slewed_model :: clock_snapshot where
  "slewed_model = default_snapshot\<lparr>clock_state := Synchronized, utc_now_ns := 1000000000000,
     monotonic_now_ns := 5000000000, leap := LeapNormal, model_generation := 1,
     rate_until_monotonic_ns := 5000000000, subsequent_rate_ppb := 100\<rparr>"

definition slewed_time :: "nat \<Rightarrow> real" where
  "slewed_time x = 1000000000000 + nominal 5000000000 0 5000000000 100 x"

definition slewed :: discipline where
  "slewed = snd (import_model 5000000000 5000000000 Sntp slewed_source slewed_model 0
     (new_discipline True default_discipline_config))"

lemma slewed_told: "told slewed_time slewed"
  unfolding slewed_def
  by (rule told.model [OF told.fresh])
    (simp_all add: true_anchor_def slewed_time_def slewed_model_def default_snapshot_def tracks_def, simp_all add: nominal_def)

lemma slewed_snapshot:
  "clock_state (utc_snapshot slewed 5000000001) = Synchronized" "utc_now_ns (utc_snapshot slewed 5000000001) = 1000000000001"
  "uncertainty_ns (utc_snapshot slewed 5000000001) = 0"
  by code_simp+

lemma slew_rounding_unaccounted:
  "\<exists>T d now. told T d \<and> clock_state (utc_snapshot d now) \<noteq> Unsynchronized \<and>
     real (unat (uncertainty_ns (utc_snapshot d now))) < \<bar>T (unat now) - real (unat (utc_now_ns (utc_snapshot d now)))\<bar>"
proof (intro exI conjI)
  show "told slewed_time slewed" by (rule slewed_told)
  show "clock_state (utc_snapshot slewed 5000000001) \<noteq> Unsynchronized" by (simp add: slewed_snapshot)
  show "real (unat (uncertainty_ns (utc_snapshot slewed 5000000001))) <
      \<bar>slewed_time (unat (5000000001 :: u64)) - real (unat (utc_now_ns (utc_snapshot slewed 5000000001)))\<bar>"
    by (simp add: slewed_snapshot slewed_time_def nominal_def slope_def)
qed

end
