(* ===== verification/Json.thy ===== *)
theory Json
  imports Prelude "HOL-Library.Char_ord" "HOL-Library.List_Lexorder"
begin

text \<open>
  The JSON reader and writer of WTP, \<open>src/src/wtp/json.cpp\<close>: the validator over the raw payload, the views
  into a validated payload (\<open>Value\<close>), and the quoting of strings.

  A payload is a \<open>string\<close>, one \<open>char\<close> per byte. A position in it is the rest of the input from that
  position on, so advancing the position is taking the tail. A \<open>Value\<close> is its raw text. A function that
  moves the position and returns whether it succeeded returns the new rest, or \<open>Reject\<close>; every caller
  gives up on a rejection, so the position it leaves behind is never read.

  The loops are partial functions: \<open>None\<close> means that a loop does not return, or that the code reads past
  the end of the text. The nesting of the parser is bounded by its depth, so that recursion is total.
\<close>

section \<open>Characters and tokens\<close>

abbreviation quote_char :: char where "quote_char \<equiv> CHR 0x22"
abbreviation backslash :: char where "backslash \<equiv> CHR 0x5C"

definition json_space :: "char \<Rightarrow> bool" where
  "json_space c \<longleftrightarrow> c = CHR 0x20 \<or> c = CHR 0x0A \<or> c = CHR 0x0D \<or> c = CHR 0x09"

definition whitespace :: "string \<Rightarrow> string" where
  "whitespace s = dropWhile json_space s"

definition digit_char :: "char \<Rightarrow> bool" where
  "digit_char c \<longleftrightarrow> CHR ''0'' \<le> c \<and> c \<le> CHR ''9''"

definition byte_of :: "char \<Rightarrow> nat" where
  "byte_of c = of_char c"

definition hex_value :: "char \<Rightarrow> nat option" where
  "hex_value c =
     (if CHR ''0'' \<le> c \<and> c \<le> CHR ''9'' then Some (byte_of c - byte_of CHR ''0'')
      else if CHR ''a'' \<le> c \<and> c \<le> CHR ''f'' then Some (byte_of c - byte_of CHR ''a'' + 10)
      else if CHR ''A'' \<le> c \<and> c \<le> CHR ''F'' then Some (byte_of c - byte_of CHR ''A'' + 10)
      else None)"

fun hex_digits :: "nat \<Rightarrow> nat \<Rightarrow> string \<Rightarrow> (nat \<times> string) option" where
  "hex_digits 0 cp s = Some (cp, s)"
| "hex_digits (Suc i) cp [] = None"
| "hex_digits (Suc i) cp (c # s) =
     (case hex_value c of None \<Rightarrow> None | Some h \<Rightarrow> hex_digits i (cp * 16 + h) s)"

definition codepoint :: "string \<Rightarrow> (nat \<times> string) option" where
  "codepoint s = hex_digits 4 0 s"

definition append_utf8 :: "string \<Rightarrow> nat \<Rightarrow> string" where
  "append_utf8 out cp = out @ map char_of
     (if cp < 0x80 then [cp]
      else if cp < 0x800 then [0xC0 OR drop_bit 6 cp, 0x80 OR (cp AND 63)]
      else if cp < 0x10000 then
        [0xE0 OR drop_bit 12 cp, 0x80 OR (drop_bit 6 cp AND 63), 0x80 OR (cp AND 63)]
      else
        [0xF0 OR drop_bit 18 cp, 0x80 OR (drop_bit 12 cp AND 63), 0x80 OR (drop_bit 6 cp AND 63),
         0x80 OR (cp AND 63)])"

text \<open>The code point of an escape \<open>\u\<close>, after its two characters: a surrogate must be the high half of a
  pair of escapes.\<close>

definition unicode_escape :: "string \<Rightarrow> (nat \<times> string) option" where
  "unicode_escape s =
     (case codepoint s of
        None \<Rightarrow> None
      | Some (cp, r) \<Rightarrow>
          if 0xD800 \<le> cp \<and> cp \<le> 0xDBFF then
            if length r < 2 \<or> take 2 r \<noteq> [backslash, CHR ''u''] then None
            else (case codepoint (drop 2 r) of
                    None \<Rightarrow> None
                  | Some (low, r') \<Rightarrow>
                      if low < 0xDC00 \<or> 0xDFFF < low then None
                      else Some (0x10000 + push_bit 10 (cp - 0xD800) + low - 0xDC00, r'))
          else if 0xDC00 \<le> cp \<and> cp \<le> 0xDFFF then None
          else Some (cp, r))"

definition simple_escape :: "char \<Rightarrow> char option" where
  "simple_escape e =
     (if e = quote_char \<or> e = backslash \<or> e = CHR ''/'' then Some e
      else if e = CHR ''b'' then Some (CHR 0x08)
      else if e = CHR ''f'' then Some (CHR 0x0C)
      else if e = CHR ''n'' then Some (CHR 0x0A)
      else if e = CHR ''r'' then Some (CHR 0x0D)
      else if e = CHR ''t'' then Some (CHR 0x09)
      else None)"

lemma hex_digits_length: "hex_digits n cp s = Some (cp', r) \<Longrightarrow> length s = length r + n"
  by (induction n cp s rule: hex_digits.induct) (auto split: option.splits)

lemma codepoint_length: "codepoint s = Some (cp, r) \<Longrightarrow> length s = length r + 4"
  by (auto simp: codepoint_def dest: hex_digits_length)

lemma unicode_escape_length: "unicode_escape s = Some (cp, r) \<Longrightarrow> length r < length s"
  by (auto simp: unicode_escape_def split: option.splits if_splits dest!: codepoint_length)

text \<open>The loop of \<open>string_token\<close>, after the opening quote: what is decoded so far, and the rest after the
  closing quote unless the token is refused.\<close>

function string_body :: "string \<Rightarrow> string \<Rightarrow> string \<times> string option" where
  "string_body out [] = (out, None)"
| "string_body out (c # s) =
     (if c = quote_char then (out, Some s)
      else if byte_of c < 32 then (out, None)
      else if c \<noteq> backslash then string_body (out @ [c]) s
      else case s of
             [] \<Rightarrow> (out, None)
           | e # r \<Rightarrow>
               if e = CHR ''u'' then
                 case unicode_escape r of
                   None \<Rightarrow> (out, None)
                 | Some (cp, r') \<Rightarrow> string_body (append_utf8 out cp) r'
               else
                 case simple_escape e of
                   None \<Rightarrow> (out, None)
                 | Some c \<Rightarrow> string_body (out @ [c]) r)"
  by pat_completeness auto
termination
  by (relation "measure (\<lambda>(_, s). length s)") (auto dest: unicode_escape_length)

definition string_token :: "string \<Rightarrow> string \<times> string option" where
  "string_token s =
     (case s of [] \<Rightarrow> ([], None) | c # r \<Rightarrow> if c \<noteq> quote_char then ([], None) else string_body [] r)"

section \<open>UTF-8\<close>

fun continuation :: "nat \<Rightarrow> nat \<Rightarrow> string \<Rightarrow> (nat \<times> string) option" where
  "continuation 0 cp s = Some (cp, s)"
| "continuation (Suc remaining) cp [] = None"
| "continuation (Suc remaining) cp (c # s) =
     (if byte_of c AND 0xC0 \<noteq> 0x80 then None
      else continuation remaining (push_bit 6 cp OR (byte_of c AND 63)) s)"

text \<open>A leading byte: how many bytes remain, the bits it contributes, the least code point.\<close>

definition utf8_lead :: "nat \<Rightarrow> (nat \<times> nat \<times> nat) option" where
  "utf8_lead c =
     (if 0xC2 \<le> c \<and> c \<le> 0xDF then Some (1, c AND 31, 0x80)
      else if 0xE0 \<le> c \<and> c \<le> 0xEF then Some (2, c AND 15, 0x800)
      else if 0xF0 \<le> c \<and> c \<le> 0xF4 then Some (3, c AND 7, 0x10000)
      else None)"

lemma continuation_length: "continuation n cp s = Some (cp', r) \<Longrightarrow> length s = length r + n"
  by (induction n cp s rule: continuation.induct) (auto split: if_splits)

function utf8 :: "string \<Rightarrow> bool" where
  "utf8 [] = True"
| "utf8 (c # s) =
     (if byte_of c < 0x80 then utf8 s
      else case utf8_lead (byte_of c) of
             None \<Rightarrow> False
           | Some (remaining, bits, minimum) \<Rightarrow>
               (case continuation remaining bits s of
                  None \<Rightarrow> False
                | Some (cp, r) \<Rightarrow>
                    if cp < minimum \<or> 0x10FFFF < cp \<or> (0xD800 \<le> cp \<and> cp \<le> 0xDFFF) then False
                    else utf8 r))"
  by pat_completeness auto
termination
  by (relation "measure length") (auto dest: continuation_length)

section \<open>Integers\<close>

text \<open>\<open>std::from_chars\<close> on a \<open>std::int32_t\<close>: the longest text of an optional minus sign and digits, refused
  when there is no digit or the number is out of range. The result is the number and the unread text.\<close>

definition digits_value :: "string \<Rightarrow> nat" where
  "digits_value ds = foldl (\<lambda>n c. n * 10 + (byte_of c - byte_of CHR ''0'')) 0 ds"

definition from_chars_i32 :: "string \<Rightarrow> (int \<times> string) option" where
  "from_chars_i32 s =
     (let minus = (s \<noteq> [] \<and> hd s = CHR ''-''); t = (if minus then tl s else s);
          ds = takeWhile digit_char t; n = int (digits_value ds); number = (if minus then - n else n)
      in if ds = [] \<or> number < - (2 ^ 31) \<or> 2 ^ 31 \<le> number then None
         else Some (number, dropWhile digit_char t))"

text \<open>Whether the bytes are an integer, and the value of the out parameter, whose old value is given.\<close>

definition integer_token :: "string \<Rightarrow> int \<Rightarrow> bool \<times> int" where
  "integer_token bytes number =
     (if bytes = [] \<or> length bytes > 11 then (False, number)
      else case from_chars_i32 bytes of
             None \<Rightarrow> (False, number)
           | Some (n, r) \<Rightarrow> (r = [], n))"

section \<open>The validator\<close>

datatype outcome = Reject | Accept string

text \<open>\<open>s.substr(start, p - start)\<close>: the text between two positions.\<close>

definition text_between :: "string \<Rightarrow> string \<Rightarrow> string" where
  "text_between start p = take (length start - length p) start"

definition outcome_of :: "string option \<Rightarrow> outcome" where
  "outcome_of r = (case r of None \<Rightarrow> Reject | Some s \<Rightarrow> Accept s)"

definition number_end :: "string \<Rightarrow> string option" where
  "number_end s =
     (let r = (if s \<noteq> [] \<and> hd s = CHR ''-'' then tl s else s) in
      case r of
        [] \<Rightarrow> None
      | d # r' \<Rightarrow>
          if \<not> digit_char d then None
          else if d = CHR ''0'' then Some r' else Some (dropWhile digit_char r))"

definition starts_with :: "string \<Rightarrow> string \<Rightarrow> bool" where
  "starts_with s literal \<longleftrightarrow> take (length literal) s = literal"

definition scalar :: "string \<Rightarrow> outcome" where
  "scalar s =
     (case find (starts_with s) [''true'', ''false'', ''null''] of
        Some literal \<Rightarrow> Accept (drop (length literal) s)
      | None \<Rightarrow>
          (case number_end s of
             None \<Rightarrow> Reject
           | Some r \<Rightarrow> if fst (integer_token (text_between s r) 0) then Accept r else Reject))"

text \<open>The views of the keys of an open object: the vector with its capacity, and the longest key.\<close>

record key_views =
  kv_keys :: "string list"
  kv_capacity :: nat
  kv_longest :: nat

definition no_keys :: key_views where
  "no_keys = \<lparr>kv_keys = [], kv_capacity = 0, kv_longest = 0\<rparr>"

text \<open>\<open>sizeof(InputView)\<close> on the target: two pointers, offset and size.\<close>

definition view_bytes :: nat where
  "view_bytes = 16"

text \<open>\<open>mem left bytes\<close> is the answer of \<open>memory_admitted\<close> for \<open>bytes\<close>, asked when \<open>left\<close> bytes of the input remain.\<close>

definition admit_key :: "(nat \<Rightarrow> nat \<Rightarrow> bool) \<Rightarrow> nat \<Rightarrow> string \<Rightarrow> key_views \<Rightarrow> key_views option" where
  "admit_key mem left key v =
     (let longest = max (kv_longest v) (length key);
          capacity = (if length (kv_keys v) = kv_capacity v then max 8 (kv_capacity v * 2) else 0)
      in if \<not> mem left (capacity * view_bytes + 2 * longest + 1024) then None
         else Some \<lparr>kv_keys = kv_keys v @ [key],
                    kv_capacity = (if capacity \<noteq> 0 then capacity else kv_capacity v),
                    kv_longest = longest\<rparr>)"

definition member_key ::
  "(nat \<Rightarrow> nat \<Rightarrow> bool) \<Rightarrow> bool \<Rightarrow> bool \<Rightarrow> key_views \<Rightarrow> string \<Rightarrow> (key_views \<times> string) option" where
  "member_key mem validate object v s =
     (if \<not> object then Some (v, s)
      else case snd (string_token s) of
             None \<Rightarrow> None
           | Some r \<Rightarrow>
               (case (if validate then admit_key mem (length r) (text_between s r) v else Some v) of
                  None \<Rightarrow> None
                | Some v' \<Rightarrow>
                    (case whitespace r of
                       [] \<Rightarrow> None
                     | c # r' \<Rightarrow> if c \<noteq> CHR '':'' then None else Some (v', r'))))"

text \<open>\<open>Value::string\<close>: what is decoded up to the end of the token.\<close>

definition json_string :: "string \<Rightarrow> string" where
  "json_string raw = fst (string_token raw)"

fun adjacent_equal :: "string list \<Rightarrow> bool" where
  "adjacent_equal (a # b # l) \<longleftrightarrow> a = b \<or> adjacent_equal (b # l)"
| "adjacent_equal l \<longleftrightarrow> False"

definition repeated_key :: "key_views \<Rightarrow> bool" where
  "repeated_key v \<longleftrightarrow> adjacent_equal (map json_string (sort_key json_string (kv_keys v)))"

definition closer :: "bool \<Rightarrow> char" where
  "closer object = (if object then CHR ''}'' else CHR '']'')"

text \<open>The loop over the members of an object or the elements of an array; \<open>element\<close> is the validator one
  level deeper.\<close>

partial_function (option) members_loop ::
  "(nat \<Rightarrow> nat \<Rightarrow> bool) \<Rightarrow> bool \<Rightarrow> bool \<Rightarrow> (string \<Rightarrow> outcome option) \<Rightarrow> key_views \<Rightarrow> string \<Rightarrow> outcome option" where
  "members_loop mem validate object element v s =
     (if s = [] then Some Reject
      else case member_key mem validate object v s of
        None \<Rightarrow> Some Reject
      | Some (v', r) \<Rightarrow>
          Option.bind (element r) (\<lambda>result.
            case result of
              Reject \<Rightarrow> Some Reject
            | Accept r' \<Rightarrow>
                (case whitespace r' of
                   [] \<Rightarrow> Some Reject
                 | c # t \<Rightarrow>
                     if c = closer object then
                       Some (if validate \<and> object \<and> repeated_key v' then Reject else Accept t)
                     else if c \<noteq> CHR '','' then Some Reject
                     else members_loop mem validate object element v' (whitespace t))))"

function json_value ::
  "(nat \<Rightarrow> nat \<Rightarrow> bool) \<Rightarrow> bool \<Rightarrow> nat \<Rightarrow> nat \<Rightarrow> string \<Rightarrow> outcome option" where
  "json_value mem validate maximum_depth depth s0 =
     (case whitespace s0 of
        [] \<Rightarrow> Some Reject
      | c # r \<Rightarrow>
          if c = quote_char then Some (outcome_of (snd (string_token (c # r))))
          else if c = CHR ''{'' \<or> c = CHR ''['' then
            if depth > maximum_depth then Some Reject
            else (let object = (c = CHR ''{''); r' = whitespace r in
              if r' \<noteq> [] \<and> hd r' = closer object then Some (Accept (tl r'))
              else members_loop mem validate object
                     (json_value mem validate maximum_depth (Suc depth)) no_keys r')
          else Some (scalar (c # r)))"
  by pat_completeness auto
termination
  by (relation "measure (\<lambda>(_, _, maximum_depth, depth, _). Suc maximum_depth - depth)") auto

declare json_value.simps [simp del]

section \<open>Reading a validated value\<close>

definition json_type :: "string \<Rightarrow> char" where
  "json_type raw = (if raw = [] then CHR ''?'' else hd raw)"

definition json_integer :: "string \<Rightarrow> int" where
  "json_integer raw = snd (integer_token raw 0)"

definition json_boolean :: "string \<Rightarrow> bool" where
  "json_boolean raw \<longleftrightarrow> raw = ''true''"

definition skip_value :: "string \<Rightarrow> outcome option" where
  "skip_value s = json_value (\<lambda>_ _. True) False 16 1 s"

text \<open>\<open>next_element\<close>: the cursor is an offset into the raw text. The result is the element and the new
  cursor; without an element the traversal is over and the cursor is not used again.\<close>

definition next_element :: "string \<Rightarrow> nat \<Rightarrow> (string \<times> nat) option option" where
  "next_element raw cursor =
     (let s = whitespace (drop (if cursor = 0 then 1 else cursor) raw) in
      if json_type raw \<noteq> CHR ''['' \<or> s = [] \<or> hd s = CHR '']'' then Some None
      else Option.bind (skip_value s) (\<lambda>result.
        case result of
          Reject \<Rightarrow> Some None
        | Accept r \<Rightarrow>
            let t = whitespace r in
            if t = [] \<or> (hd t \<noteq> CHR '','' \<and> hd t \<noteq> CHR '']'') then Some None
            else Some (Some (text_between s r,
              length raw - length (if hd t = CHR '','' then tl t else t)))))"

partial_function (option) elements_loop :: "nat \<Rightarrow> string list \<Rightarrow> string \<Rightarrow> string list option" where
  "elements_loop limit out s =
     (if s = [] \<or> hd s = CHR '']'' then Some out
      else Option.bind (skip_value s) (\<lambda>result.
        case result of
          Reject \<Rightarrow> Some []
        | Accept r \<Rightarrow>
            if length (out @ [text_between s r]) > limit then Some (out @ [text_between s r])
            else (case whitespace r of
                    [] \<Rightarrow> None
                  | c # t \<Rightarrow>
                      if c = CHR '']'' then Some (out @ [text_between s r])
                      else elements_loop limit (out @ [text_between s r]) (whitespace t))))"

definition elements :: "nat \<Rightarrow> string \<Rightarrow> string list option" where
  "elements limit raw =
     (if json_type raw \<noteq> CHR ''['' then Some [] else elements_loop limit [] (whitespace (drop 1 raw)))"

partial_function (option) get_loop :: "string \<Rightarrow> string \<Rightarrow> string option option" where
  "get_loop key s =
     (if s = [] \<or> hd s = CHR ''}'' then Some None
      else case snd (string_token s) of
        None \<Rightarrow> Some None
      | Some r \<Rightarrow>
          (case whitespace r of
             [] \<Rightarrow> None
           | _ # r' \<Rightarrow>
               Option.bind (skip_value (whitespace r')) (\<lambda>result.
                 case result of
                   Reject \<Rightarrow> Some None
                 | Accept t \<Rightarrow>
                     if fst (string_token s) = key then Some (Some (text_between (whitespace r') t))
                     else (case whitespace t of
                             [] \<Rightarrow> None
                           | c # t' \<Rightarrow> if c = CHR ''}'' then Some None else get_loop key (whitespace t')))))"

definition json_get :: "string \<Rightarrow> string \<Rightarrow> string option option" where
  "json_get raw key =
     (if json_type raw \<noteq> CHR ''{'' then Some None else get_loop key (whitespace (drop 1 raw)))"

partial_function (option) fields_loop :: "string list \<Rightarrow> string \<Rightarrow> bool option" where
  "fields_loop allowed s =
     (if s = [] \<or> hd s = CHR ''}'' then Some True
      else case snd (string_token s) of
        None \<Rightarrow> Some False
      | Some r \<Rightarrow>
          if fst (string_token s) \<notin> set allowed then Some False
          else (case whitespace r of
             [] \<Rightarrow> None
           | _ # r' \<Rightarrow>
               Option.bind (skip_value r') (\<lambda>result.
                 case result of
                   Reject \<Rightarrow> Some False
                 | Accept t \<Rightarrow>
                     (case whitespace t of
                        [] \<Rightarrow> None
                      | c # t' \<Rightarrow> if c = CHR ''}'' then Some True else fields_loop allowed (whitespace t')))))"

fun all_present :: "string \<Rightarrow> string list \<Rightarrow> bool option" where
  "all_present raw [] = Some True"
| "all_present raw (key # keys) =
     Option.bind (json_get raw key) (\<lambda>v. if v = None then Some False else all_present raw keys)"

definition json_fields :: "string \<Rightarrow> string list \<Rightarrow> string list \<Rightarrow> bool option" where
  "json_fields raw required optional =
     (if json_type raw \<noteq> CHR ''{'' then Some False
      else Option.bind (all_present raw required) (\<lambda>present.
        if \<not> present then Some False
        else fields_loop (required @ optional) (whitespace (drop 1 raw))))"

section \<open>Whole payloads and typed fields\<close>

definition json_parse :: "(nat \<Rightarrow> nat \<Rightarrow> bool) \<Rightarrow> string \<Rightarrow> nat \<Rightarrow> string option option" where
  "json_parse mem payload maximum_depth =
     (if maximum_depth = 0 \<or> maximum_depth > 16 \<or> payload = [] \<or> length payload > 65536 \<or> \<not> utf8 payload
      then Some None
      else
        let s = whitespace payload in
        if s = [] \<or> hd s \<noteq> CHR ''{'' then Some None
        else Option.bind (json_value mem True maximum_depth 1 s) (\<lambda>result.
          case result of
            Reject \<Rightarrow> Some None
          | Accept r \<Rightarrow>
              if whitespace r \<noteq> [] then Some None else Some (Some (text_between s r))))"

definition lower_hex :: "nat \<Rightarrow> char" where
  "lower_hex n = ''0123456789abcdef'' ! n"

definition quoted_char :: "char \<Rightarrow> string" where
  "quoted_char c =
     (if c = quote_char \<or> c = backslash then [backslash, c]
      else if byte_of c < 32 then
        backslash # ''u00'' @ [lower_hex (drop_bit 4 (byte_of c)), lower_hex (byte_of c AND 15)]
      else [c])"

definition json_quote :: "string \<Rightarrow> string" where
  "json_quote s = [quote_char] @ concat (map quoted_char s) @ [quote_char]"

definition json_decimal :: "string \<Rightarrow> bool \<Rightarrow> u64 option" where
  "json_decimal raw nonzero =
     (if json_type raw \<noteq> quote_char \<or> length raw > 20 * 6 + 2 then None
      else
        let s = json_string raw in
        if s = [] \<or> (length s > 1 \<and> hd s = CHR ''0'') \<or> (nonzero \<and> s = ''0'') then None
        else if \<not> list_all digit_char s then None
        else if digits_value s \<ge> 2 ^ 64 then None
        else Some (of_nat (digits_value s)))"

definition json_identifier :: "string \<Rightarrow> bool" where
  "json_identifier raw =
     (if json_type raw \<noteq> quote_char \<or> length raw > 32 * 6 + 2 then False
      else
        let s = json_string raw in
        length s = 32 \<and> list_all (\<lambda>c. digit_char c \<or> (CHR ''a'' \<le> c \<and> c \<le> CHR ''f'')) s)"

end
