(* ===== verification/Wtp_Codec.thy ===== *)
theory Wtp_Codec
  imports Json Job_Service
begin

text \<open>
  Decoding of requests, \<open>src/src/wtp/codec.cpp\<close>: a parsed payload is checked against the closed envelope and
  the body of its operation, and becomes the \<open>request\<close> that \<open>Job_Service\<close> handles. Texts of values are read
  with the views of \<open>Json\<close>; where a view is undefined (never on the values of a parsed payload, see
  \<open>Json_Views\<close>) the value counts as absent. \<open>grant\<close> is the allocator of the event container, as in
  \<open>Job_Model\<close>. A retry of the active job is not decoded into events, only digested.
\<close>

section \<open>Values\<close>

definition member_of :: "string \<Rightarrow> string \<Rightarrow> string option" where
  "member_of v key = (case json_get v key of Some r \<Rightarrow> r | None \<Rightarrow> None)"

text \<open>\<open>get\<close>: an absent member is the empty value.\<close>

definition value_of :: "string \<Rightarrow> string \<Rightarrow> string" where
  "value_of v key = (case member_of v key of Some x \<Rightarrow> x | None \<Rightarrow> [])"

definition has_fields :: "string \<Rightarrow> string list \<Rightarrow> string list \<Rightarrow> bool" where
  "has_fields v required optional \<longleftrightarrow> json_fields v required optional = Some True"

definition text_within :: "string \<Rightarrow> nat \<Rightarrow> nat \<Rightarrow> bool" where
  "text_within v least most \<longleftrightarrow> json_type v = quote_char \<and> length v \<le> most * 6 + 2 \<and>
     least \<le> length (json_string v) \<and> length (json_string v) \<le> most"

definition version_text :: "string \<Rightarrow> bool" where
  "version_text v \<longleftrightarrow> take 4 v = ''WTP/'' \<and> length v \<ge> 5 \<and> CHR ''1'' \<le> v ! 4 \<and> v ! 4 \<le> CHR ''9'' \<and>
     list_all digit_char (drop 5 v)"

definition operation_text :: "string \<Rightarrow> bool" where
  "operation_text v \<longleftrightarrow> v \<noteq> [] \<and> length v \<le> 64 \<and> CHR ''A'' \<le> v ! 0 \<and> v ! 0 \<le> CHR ''Z'' \<and>
     list_all (\<lambda>c. (CHR ''A'' \<le> c \<and> c \<le> CHR ''Z'') \<or> digit_char c \<or> c = CHR ''_'') (drop 1 v)"

section \<open>Bodies\<close>

definition decode_hello :: "string \<Rightarrow> bool \<times> request_body" where
  "decode_hello b =
     (let versions = value_of b ''versions'';
          found = (case elements 16 versions of Some vs \<Rightarrow> vs | None \<Rightarrow> []);
          texts = map json_string found;
          valid = (json_type versions = CHR ''['' \<and>
            list_all (\<lambda>v. json_type v = quote_char \<and> version_text (json_string v)) found \<and>
            texts \<noteq> [] \<and> length texts \<le> 16 \<and> distinct texts)
      in (valid \<and> has_fields b [''versions'', ''client_name'', ''client_version''] [] \<and>
            text_within (value_of b ''client_name'') 1 64 \<and> text_within (value_of b ''client_version'') 1 64,
          HelloBody texts))"

text \<open>The body of CLAIM and RENEW: owner and lease.\<close>

definition decode_lease :: "string \<Rightarrow> (string \<times> u32) option" where
  "decode_lease b =
     (let owner = value_of b ''owner_id''; lease = value_of b ''lease_ms'' in
      if \<not> has_fields b [''owner_id'', ''lease_ms''] [] \<or> \<not> json_identifier owner \<or>
         json_type lease < CHR ''0'' \<or> json_type lease > CHR ''9'' \<or>
         json_integer lease < 5000 \<or> json_integer lease > 60000
      then None else Some (json_string owner, word_of_int (json_integer lease)))"

definition decode_arm :: "string \<Rightarrow> arm_body option" where
  "decode_arm b =
     (if \<not> has_fields b [''job_id'', ''start_utc_ns'', ''max_start_uncertainty_ns''] [] \<or>
         \<not> json_identifier (value_of b ''job_id'')
      then None
      else case (json_decimal (value_of b ''start_utc_ns'') False,
                 json_decimal (value_of b ''max_start_uncertainty_ns'') False) of
        (Some start, Some uncertainty) \<Rightarrow>
          Some \<lparr>arm_job_id = json_string (value_of b ''job_id''), arm_start_utc_ns = start,
                arm_max_start_uncertainty_ns = uncertainty\<rparr>
      | _ \<Rightarrow> None)"

definition decode_abort :: "string \<Rightarrow> string option" where
  "decode_abort b =
     (if \<not> has_fields b [''job_id''] [] \<or> \<not> json_identifier (value_of b ''job_id'') then None
      else Some (json_string (value_of b ''job_id'')))"

definition decode_ping :: "string \<Rightarrow> string option option" where
  "decode_ping b =
     (if \<not> has_fields b [] [''token''] then None
      else case member_of b ''token'' of
        None \<Rightarrow> Some None
      | Some token \<Rightarrow> if \<not> text_within token 0 64 then None else Some (Some (json_string token)))"

subsection \<open>LOAD\<close>

definition boolean_text :: "string \<Rightarrow> bool" where
  "boolean_text raw \<longleftrightarrow> raw = ''true'' \<or> raw = ''false''"

definition decode_event :: "string \<Rightarrow> rf_event option" where
  "decode_event e =
     (if \<not> has_fields e [''offset_ns'', ''duration_ns'', ''rf_on''] [''frequency_nhz''] then None
      else case (json_decimal (value_of e ''offset_ns'') False, json_decimal (value_of e ''duration_ns'') True) of
        (Some offset, Some duration) \<Rightarrow>
          if \<not> boolean_text (value_of e ''rf_on'') then None
          else
            let on = json_boolean (value_of e ''rf_on'') in
            if on \<noteq> (member_of e ''frequency_nhz'' \<noteq> None) then None
            else (case member_of e ''frequency_nhz'' of
                    None \<Rightarrow> Some \<lparr>offset_ns = offset, duration_ns = duration, rf_on = on, frequency_nhz = None\<rparr>
                  | Some f \<Rightarrow>
                      (case json_decimal f True of
                         None \<Rightarrow> None
                       | Some frequency \<Rightarrow> Some \<lparr>offset_ns = offset, duration_ns = duration, rf_on = on,
                           frequency_nhz = Some frequency\<rparr>))
      | _ \<Rightarrow> None)"

text \<open>The first traversal: the number of events, or nothing when there are more than 512.\<close>

partial_function (option) count_events :: "string \<Rightarrow> nat \<Rightarrow> nat \<Rightarrow> nat option option" where
  "count_events raw cursor count = Option.bind (next_element raw cursor) (\<lambda>found.
     case found of
       None \<Rightarrow> Some (Some count)
     | Some (_, cursor') \<Rightarrow> if count + 1 > 512 then Some None else count_events raw cursor' (count + 1))"

datatype load_result = BadEvent | Unstored event_list | Stored event_list | Digested sha_state

text \<open>The second traversal decodes each event and stores it, or adds it to the digest of a replay.\<close>

partial_function (option) load_events ::
  "(nat \<Rightarrow> bool) \<Rightarrow> bool \<Rightarrow> string \<Rightarrow> nat \<Rightarrow> event_list \<Rightarrow> sha_state \<Rightarrow> load_result option" where
  "load_events grant is_replay raw cursor l d = Option.bind (next_element raw cursor) (\<lambda>found.
     case found of
       None \<Rightarrow> Some (if is_replay then Digested d else Stored l)
     | Some (e, cursor') \<Rightarrow>
         (case decode_event e of
            None \<Rightarrow> Some BadEvent
          | Some event \<Rightarrow>
              if is_replay then load_events grant is_replay raw cursor' l (digest_event event d)
              else if fst (push_back grant event l)
              then load_events grant is_replay raw cursor' (snd (push_back grant event l)) d
              else Some (Unstored (snd (push_back grant event l)))))"

definition known_modes :: "string list" where
  "known_modes = [''wspr'', ''qrss'', ''fskcw'', ''dfcw'', ''cw'', ''tone'']"

text \<open>The fields of a LOAD beside its events; the job is returned without events.\<close>

definition decode_load_header :: "string \<Rightarrow> job option" where
  "decode_load_header b =
     (if \<not> has_fields b [''job_id'', ''profile'', ''mode'', ''total_duration_ns'', ''events'']
           [''allow_frequency_adjustment''] \<or>
         \<not> json_identifier (value_of b ''job_id'') \<or> \<not> text_within (value_of b ''profile'') 11 11 \<or>
         json_string (value_of b ''profile'') \<noteq> ''rf-events/1'' \<or> \<not> text_within (value_of b ''mode'') 2 5
      then None
      else case json_decimal (value_of b ''total_duration_ns'') True of
        None \<Rightarrow> None
      | Some total_ns \<Rightarrow>
          if json_type (value_of b ''events'') \<noteq> CHR ''['' \<or> json_string (value_of b ''mode'') \<notin> set known_modes
          then None
          else
            (let j = \<lparr>job_id = json_string (value_of b ''job_id''), profile = ''rf-events/1'',
                      mode = json_string (value_of b ''mode''), total_duration_ns = total_ns, events = no_events,
                      allow_frequency_adjustment = False, message = None\<rparr>
             in case member_of b ''allow_frequency_adjustment'' of
                  None \<Rightarrow> Some j
                | Some allow \<Rightarrow>
                    if \<not> boolean_text allow then None
                    else Some (j\<lparr>allow_frequency_adjustment := json_boolean allow\<rparr>)))"

definition decode_load :: "(nat \<Rightarrow> bool) \<Rightarrow> string \<Rightarrow> string \<Rightarrow> bool \<times> request_body" where
  "decode_load grant b active_replay_id =
     (case decode_load_header b of
        None \<Rightarrow> (False, NoBody)
      | Some j \<Rightarrow>
          (case count_events (value_of b ''events'') 0 0 of
             Some (Some count) \<Rightarrow>
               if count = 0 then (False, NoBody)
               else
                 (let is_replay = (active_replay_id \<noteq> [] \<and> job_id j = active_replay_id);
                      reserved = reserve_events grant count (events j)
                  in if \<not> is_replay \<and> \<not> fst reserved then (True, JobBody (j\<lparr>events := snd reserved\<rparr>))
                     else case load_events grant is_replay (value_of b ''events'') 0
                              (if is_replay then events j else snd reserved) (digest_header j count) of
                       Some (Unstored l) \<Rightarrow> (True, JobBody (j\<lparr>events := l\<rparr>))
                     | Some (Stored l) \<Rightarrow> (True, JobBody (j\<lparr>events := l\<rparr>))
                     | Some (Digested d) \<Rightarrow> (True, LoadReplayBody (job_id j) (sha_finish d))
                     | _ \<Rightarrow> (False, NoBody))
           | _ \<Rightarrow> (False, NoBody)))"

definition decode_body :: "(nat \<Rightarrow> bool) \<Rightarrow> string \<Rightarrow> string \<Rightarrow> string \<Rightarrow> bool \<times> request_body" where
  "decode_body grant op b active_replay_id =
     (if op = ''HELLO'' then decode_hello b
      else if op = ''CLAIM'' then
        (case decode_lease b of None \<Rightarrow> (False, NoBody) | Some (owner, lease) \<Rightarrow> (True, ClaimBody owner lease))
      else if op = ''RENEW'' then
        (case decode_lease b of None \<Rightarrow> (False, NoBody) | Some (owner, lease) \<Rightarrow> (True, RenewBody owner lease))
      else if op = ''ARM'' then
        (case decode_arm b of None \<Rightarrow> (False, NoBody) | Some a \<Rightarrow> (True, ArmBody a))
      else if op = ''ABORT'' then
        (case decode_abort b of None \<Rightarrow> (False, NoBody) | Some i \<Rightarrow> (True, AbortBody i))
      else if op = ''PING'' then
        (case decode_ping b of None \<Rightarrow> (False, NoBody) | Some token \<Rightarrow> (True, PingBody token))
      else if op = ''LOAD'' then decode_load grant b active_replay_id
      else (op \<in> {''CAPS'', ''STATUS'', ''GET_CLOCK'', ''RELEASE''} \<and> has_fields b [] [], NoBody))"

section \<open>Requests\<close>

definition is_bounded_control_request :: "string \<Rightarrow> bool" where
  "is_bounded_control_request root =
     (let op = value_of root ''op''; b = value_of root ''body''; name = json_string op in
      if length (value_of root ''protocol'') > 128 \<or> length (value_of root ''type'') > 44 \<or> length op > 56 \<or>
         json_type b \<noteq> CHR ''{''
      then False
      else if has_fields b [] [] \<and> name \<in> {''STATUS'', ''CAPS'', ''GET_CLOCK'', ''PING'', ''RELEASE''} then True
      else if length b > 2048 then False
      else name \<in> {''HELLO'', ''CLAIM'', ''RENEW'', ''ARM'', ''ABORT'', ''PING''})"

definition is_active_load_replay :: "string \<Rightarrow> string \<Rightarrow> bool" where
  "is_active_load_replay root ident =
     (if ident = [] then False
      else
        let op = value_of root ''op''; j = value_of (value_of root ''body'') ''job_id'' in
        length (value_of root ''protocol'') \<le> 128 \<and> length (value_of root ''type'') \<le> 44 \<and> length op \<le> 26 \<and>
        length j \<le> 194 \<and> json_string op = ''LOAD'' \<and> json_string j = ident)"

text \<open>The digest of the payload is the one computed while the frame arrived, or is computed here.\<close>

definition decode_request ::
  "(nat \<Rightarrow> bool) \<Rightarrow> string \<Rightarrow> string \<Rightarrow> bytes \<Rightarrow> string \<Rightarrow> bytes option \<Rightarrow> request option" where
  "decode_request grant root caller payload active_replay_id original_digest =
     (if \<not> has_fields root [''type'', ''protocol'', ''session_id'', ''request_id'', ''op'', ''body''] [] \<or>
         json_string (value_of root ''type'') \<noteq> ''request'' \<or>
         \<not> json_identifier (value_of root ''session_id'') \<or> \<not> json_identifier (value_of root ''request_id'') \<or>
         json_type (value_of root ''protocol'') \<noteq> quote_char \<or>
         \<not> version_text (json_string (value_of root ''protocol'')) \<or>
         json_type (value_of root ''op'') \<noteq> quote_char \<or>
         \<not> operation_text (json_string (value_of root ''op'')) \<or> json_type (value_of root ''body'') \<noteq> CHR ''{''
      then None
      else
        let op = json_string (value_of root ''op'');
            body = decode_body grant op (value_of root ''body'') active_replay_id
        in Some \<lparr>req_protocol = json_string (value_of root ''protocol''),
                 req_session_id = json_string (value_of root ''session_id''),
                 req_request_id = json_string (value_of root ''request_id''),
                 req_principal = caller, req_operation = op,
                 req_payload_digest =
                   (case original_digest of Some d \<Rightarrow> d | None \<Rightarrow> sha_finish (sha_update sha_init payload)),
                 req_body = snd body, req_body_valid = fst body\<rparr>)"

end
