(* ===== verification/Json_Grammar.thy ===== *)
theory Json_Grammar
  imports Json "HOL-Library.Sublist"
begin

text \<open>
  What the reader of \<open>Json\<close> accepts. \<open>json_text\<close> is the grammar of JSON texts, as productions over whole texts
  and with the nesting they need; the validator accepts exactly its objects, and the views read the members
  of the grammar. The loops are treated once, over the laws of the parser they call (\<open>consuming_parser\<close>,
  \<open>grammar_parser\<close>), which the validator satisfies at every depth.
\<close>

section \<open>Strings\<close>

definition hex_text :: "string \<Rightarrow> bool" where
  "hex_text h \<longleftrightarrow> length h = 4 \<and> list_all (\<lambda>c. hex_value c \<noteq> None) h"

definition hex_number :: "nat \<Rightarrow> string \<Rightarrow> nat" where
  "hex_number n h = foldl (\<lambda>n c. n * 16 + the (hex_value c)) n h"

definition utf8_bytes :: "nat \<Rightarrow> string" where
  "utf8_bytes cp = append_utf8 [] cp"

lemma append_utf8_bytes: "append_utf8 out cp = out @ utf8_bytes cp"
  by (simp add: append_utf8_def utf8_bytes_def)

definition surrogate :: "nat \<Rightarrow> bool" where
  "surrogate cp \<longleftrightarrow> 0xD800 \<le> cp \<and> cp \<le> 0xDFFF"

text \<open>The text between the quotes of a string, with what it stands for.\<close>

inductive json_chars :: "string \<Rightarrow> string \<Rightarrow> bool" where
  empty: "json_chars [] []"
| plain: "c \<noteq> quote_char \<Longrightarrow> c \<noteq> backslash \<Longrightarrow> 32 \<le> byte_of c \<Longrightarrow> json_chars d t \<Longrightarrow> json_chars (c # d) (c # t)"
| escaped: "simple_escape e = Some c \<Longrightarrow> json_chars d t \<Longrightarrow> json_chars (c # d) (backslash # e # t)"
| unicode: "hex_text h \<Longrightarrow> \<not> surrogate (hex_number 0 h) \<Longrightarrow> json_chars d t \<Longrightarrow>
    json_chars (utf8_bytes (hex_number 0 h) @ d) (backslash # CHR ''u'' # h @ t)"
| pair: "hex_text h \<Longrightarrow> hex_text l \<Longrightarrow> hex_number 0 h = 0xD800 + high \<Longrightarrow> hex_number 0 l = 0xDC00 + low \<Longrightarrow>
    high < 1024 \<Longrightarrow> low < 1024 \<Longrightarrow> json_chars d t \<Longrightarrow>
    json_chars (utf8_bytes (0x10000 + 1024 * high + low) @ d)
      (backslash # CHR ''u'' # h @ backslash # CHR ''u'' # l @ t)"

definition string_text :: "string \<Rightarrow> string \<Rightarrow> bool" where
  "string_text d k \<longleftrightarrow> (\<exists>t. k = quote_char # t @ [quote_char] \<and> json_chars d t)"

lemma hex_digits_exact:
  "hex_digits n cp s = Some (cp', r) \<longleftrightarrow>
     (\<exists>h. s = h @ r \<and> length h = n \<and> list_all (\<lambda>c. hex_value c \<noteq> None) h \<and> cp' = hex_number cp h)"
proof (induction n cp s rule: hex_digits.induct)
  case (1 cp s)
  then show ?case by (auto simp: hex_number_def)
next
  case (2 i cp)
  then show ?case by auto
next
  case (3 i cp c s)
  show ?case
  proof (cases "hex_value c")
    case None
    then show ?thesis by (auto simp: Cons_eq_append_conv)
  next
    case (Some v)
    have "(\<exists>h. c # s = h @ r \<and> length h = Suc i \<and> list_all (\<lambda>c. hex_value c \<noteq> None) h \<and> cp' = hex_number cp h)
        \<longleftrightarrow> (\<exists>h. s = h @ r \<and> length h = i \<and> list_all (\<lambda>c. hex_value c \<noteq> None) h \<and>
                 cp' = hex_number (cp * 16 + v) h)" (is "?L \<longleftrightarrow> ?R")
    proof
      assume ?L
      then obtain h where h: "c # s = h @ r" "length h = Suc i" "list_all (\<lambda>c. hex_value c \<noteq> None) h"
        "cp' = hex_number cp h" by blast
      then obtain h' where "h = c # h'" by (cases h) auto
      with h Some show ?R by (auto simp: hex_number_def)
    next
      assume ?R
      then obtain h where "s = h @ r" "length h = i" "list_all (\<lambda>c. hex_value c \<noteq> None) h"
        "cp' = hex_number (cp * 16 + v) h" by blast
      with Some show ?L by (intro exI [of _ "c # h"]) (auto simp: hex_number_def)
    qed
    with 3 [OF Some] Some show ?thesis by simp
  qed
qed

lemma codepoint_exact: "codepoint s = Some (cp, r) \<longleftrightarrow> (\<exists>h. s = h @ r \<and> hex_text h \<and> cp = hex_number 0 h)"
  by (auto simp: codepoint_def hex_digits_exact hex_text_def)

lemma codepoint_hex [simp]: "hex_text h \<Longrightarrow> codepoint (h @ r) = Some (hex_number 0 h, r)"
  by (auto simp: codepoint_exact)

lemma unicode_escape_plain:
  "hex_text h \<Longrightarrow> \<not> surrogate (hex_number 0 h) \<Longrightarrow> unicode_escape (h @ r) = Some (hex_number 0 h, r)"
  by (auto simp: unicode_escape_def surrogate_def)

lemma unicode_escape_pair:
  assumes "hex_text h" "hex_text l" "hex_number 0 h = 0xD800 + high" "hex_number 0 l = 0xDC00 + low"
    "high < 1024" "low < 1024"
  shows "unicode_escape (h @ backslash # CHR ''u'' # l @ r) = Some (0x10000 + 1024 * high + low, r)"
  using assms by (simp add: unicode_escape_def push_bit_eq_mult)

lemma unicode_escape_cases:
  assumes "unicode_escape s = Some (cp, r)"
  obtains (plain) h where "s = h @ r" "hex_text h" "cp = hex_number 0 h" "\<not> surrogate cp"
  | (pair) h l high low where "s = h @ backslash # CHR ''u'' # l @ r" "hex_text h" "hex_text l"
      "hex_number 0 h = 0xD800 + high" "hex_number 0 l = 0xDC00 + low" "high < 1024" "low < 1024"
      "cp = 0x10000 + 1024 * high + low"
proof -
  obtain x p where x: "codepoint s = Some (x, p)"
    using assms by (auto simp: unicode_escape_def split: option.splits)
  then obtain h where h: "s = h @ p" "hex_text h" "x = hex_number 0 h"
    by (auto simp: codepoint_exact)
  show thesis
  proof (cases "0xD800 \<le> x \<and> x \<le> 0xDBFF")
    case False
    with assms x have "cp = x" "r = p" "\<not> surrogate x"
      by (auto simp: unicode_escape_def surrogate_def split: if_splits)
    with h plain show thesis by blast
  next
    case True
    with assms x obtain y where p: "take 2 p = [backslash, CHR ''u'']" and y: "codepoint (drop 2 p) = Some (y, r)"
      and bounds: "0xDC00 \<le> y" "y \<le> 0xDFFF" and cp: "cp = 0x10000 + push_bit 10 (x - 0xD800) + y - 0xDC00"
      by (auto simp: unicode_escape_def split: if_splits option.splits)
    obtain l where l: "drop 2 p = l @ r" "hex_text l" "y = hex_number 0 l"
      using y by (auto simp: codepoint_exact)
    have "p = backslash # CHR ''u'' # l @ r"
      using p l(1) append_take_drop_id [of 2 p] by simp
    moreover have "cp = 0x10000 + 1024 * (x - 0xD800) + (y - 0xDC00)"
      using cp bounds by (simp add: push_bit_eq_mult)
    moreover have "x - 0xD800 < 1024" "y - 0xDC00 < 1024" "x = 0xD800 + (x - 0xD800)" "y = 0xDC00 + (y - 0xDC00)"
      using True bounds by linarith+
    ultimately show thesis
      using h(1,2) l(2) h(3) [symmetric] l(3) [symmetric]
      by (intro pair [of h l "x - 0xD800" "y - 0xDC00"]) simp_all
  qed
qed

lemma string_body_complete:
  "json_chars d t \<Longrightarrow> string_body out (t @ quote_char # r) = (out @ d, Some r)"
proof (induction arbitrary: out rule: json_chars.induct)
  case (escaped e c d t)
  moreover have "e \<noteq> CHR ''u''"
    using escaped.hyps(1) by (auto simp: simple_escape_def)
  ultimately show ?case by (simp add: byte_of_def)
next
  case (unicode h d t)
  then show ?case by (simp add: unicode_escape_plain append_utf8_bytes byte_of_def)
next
  case (pair h l high low d t)
  then show ?case by (simp add: unicode_escape_pair append_utf8_bytes byte_of_def)
qed simp_all

lemma string_body_sound:
  "string_body out s = (x, Some r) \<Longrightarrow> \<exists>d t. s = t @ quote_char # r \<and> json_chars d t \<and> x = out @ d"
proof (induction out s rule: string_body.induct)
  case (1 out)
  then show ?case by simp
next
  case (2 out c s)
  consider (close) "c = quote_char" | (control) "c \<noteq> quote_char" "byte_of c < 32"
    | (char) "c \<noteq> quote_char" "32 \<le> byte_of c" "c \<noteq> backslash" | (escape) "c = backslash"
    by fastforce
  then show ?case
  proof cases
    case close
    with "2.prems" show ?thesis by (auto intro: json_chars.empty)
  next
    case control
    with "2.prems" show ?thesis by simp
  next
    case char
    with "2.prems" "2.IH"(1) obtain d t where "s = t @ quote_char # r" "json_chars d t" "x = (out @ [c]) @ d"
      by auto
    with char show ?thesis by (intro exI [of _ "c # d"] exI [of _ "c # t"]) (simp add: json_chars.plain)
  next
    case escape
    then have b: "c \<noteq> quote_char" "\<not> byte_of c < 32" "\<not> c \<noteq> backslash" by (simp_all add: byte_of_def)
    with "2.prems" obtain e p where s: "s = e # p" by (cases s) auto
    show ?thesis
    proof (cases "e = CHR ''u''")
      case True
      with "2.prems" b s obtain cp q where u: "unicode_escape p = Some (cp, q)"
        by (auto split: option.splits)
      with "2.prems" b s True have "string_body (append_utf8 out cp) q = (x, Some r)" by simp
      from "2.IH"(2) [OF b s True u refl this] obtain d t where
        q: "q = t @ quote_char # r" and d: "json_chars d t" "x = out @ utf8_bytes cp @ d"
        by (auto simp: append_utf8_bytes)
      from u show ?thesis
      proof (cases rule: unicode_escape_cases)
        case (plain h)
        with d q s True escape show ?thesis
          using json_chars.unicode [of h d t]
          by (intro exI [of _ "utf8_bytes cp @ d"] exI [of _ "backslash # CHR ''u'' # h @ t"]) simp
      next
        case (pair h l high low)
        with d q s True escape show ?thesis
          using json_chars.pair [of h l high low d t]
          by (intro exI [of _ "utf8_bytes cp @ d"]
              exI [of _ "backslash # CHR ''u'' # h @ backslash # CHR ''u'' # l @ t"]) simp
      qed
    next
      case False
      with "2.prems" b s obtain y where y: "simple_escape e = Some y"
        by (auto split: option.splits)
      with "2.prems" b s False have "string_body (out @ [y]) p = (x, Some r)" by simp
      from "2.IH"(3) [OF b s False y this] obtain d t where
        "p = t @ quote_char # r" "json_chars d t" "x = (out @ [y]) @ d" by blast
      with s escape y show ?thesis
        by (intro exI [of _ "y # d"] exI [of _ "backslash # e # t"]) (simp add: json_chars.escaped)
    qed
  qed
qed

lemma string_token_complete: "string_text d k \<Longrightarrow> string_token (k @ r) = (d, Some r)"
  by (auto simp: string_text_def string_token_def string_body_complete)

lemma string_token_sound: "string_token s = (d, Some r) \<Longrightarrow> \<exists>k. s = k @ r \<and> string_text d k"
proof -
  assume a: "string_token s = (d, Some r)"
  then obtain p where s: "s = quote_char # p" "string_body [] p = (d, Some r)"
    by (auto simp: string_token_def split: list.splits if_splits)
  from string_body_sound [OF s(2)] obtain t where "p = t @ quote_char # r" "json_chars d t" by auto
  with s(1) show ?thesis
    by (intro exI [of _ "quote_char # t @ [quote_char]"]) (simp add: string_text_def)
qed

lemma json_string_text: "string_text d k \<Longrightarrow> json_string k = d"
  using string_token_complete [of d k "[]"] by (simp add: json_string_def)

lemma hex_lower: "n < 16 \<Longrightarrow> hex_value (lower_hex n) = Some n"
proof -
  assume "n < 16"
  then have "n \<in> {0, 1, 2, 3, 4, 5, 6, 7, 8, 9, 10, 11, 12, 13, 14, 15}"
    unfolding insert_iff empty_iff by presburger
  then show ?thesis
    by (auto simp: lower_hex_def hex_value_def byte_of_def less_eq_char_def)
qed

lemma hex_quoted:
  assumes "n < 32"
  shows "hex_text [CHR ''0'', CHR ''0'', lower_hex (drop_bit 4 n), lower_hex (n AND 15)] \<and>
    hex_number 0 [CHR ''0'', CHR ''0'', lower_hex (drop_bit 4 n), lower_hex (n AND 15)] = n"
proof -
  have "n AND 15 = n mod 16"
    using take_bit_eq_mask [of 4 n] by (simp add: take_bit_eq_mod mask_eq_exp_minus_1)
  moreover have "hex_value CHR ''0'' = Some 0"
    by (simp add: hex_value_def less_eq_char_def)
  moreover have "drop_bit 4 n < 16"
    using assms by (simp add: drop_bit_eq_div)
  ultimately show ?thesis
    by (simp add: hex_text_def hex_number_def hex_lower) (simp add: drop_bit_eq_div)
qed

lemma json_chars_quoted: "json_chars s (concat (map quoted_char s))"
proof (induction s)
  case (Cons c s)
  consider (special) "c = quote_char \<or> c = backslash" | (control) "\<not> (c = quote_char \<or> c = backslash)" "byte_of c < 32"
    | (char) "\<not> (c = quote_char \<or> c = backslash)" "32 \<le> byte_of c" by linarith
  then show ?case
  proof cases
    case special
    then have "simple_escape c = Some c" by (auto simp: simple_escape_def)
    with special Cons show ?thesis by (auto simp: quoted_char_def intro: json_chars.escaped)
  next
    case control
    have c: "c = char_of (byte_of c)" by (simp add: byte_of_def)
    have h: "hex_text [CHR ''0'', CHR ''0'', lower_hex (drop_bit 4 (byte_of c)), lower_hex (byte_of c AND 15)]"
      "hex_number 0 [CHR ''0'', CHR ''0'', lower_hex (drop_bit 4 (byte_of c)), lower_hex (byte_of c AND 15)] = byte_of c"
      using hex_quoted [OF control(2)] by simp_all
    have "utf8_bytes (byte_of c) = [c]"
      using control(2) c by (simp add: utf8_bytes_def append_utf8_def)
    with json_chars.unicode [OF h(1) _ Cons] h(2) control show ?thesis
      by (simp add: quoted_char_def surrogate_def)
  next
    case char
    with Cons show ?thesis by (simp add: quoted_char_def json_chars.plain)
  qed
qed (simp add: json_chars.empty)

section \<open>Texts\<close>

definition blank :: "string \<Rightarrow> bool" where
  "blank w \<longleftrightarrow> list_all json_space w"

text \<open>Integers of 32 bits in decimal, without leading zeros.\<close>

definition number_text :: "string \<Rightarrow> bool" where
  "number_text t \<longleftrightarrow>
     (\<exists>minus ds. t = (if minus then ''-'' else '''') @ ds \<and> ds \<noteq> [] \<and> list_all digit_char ds \<and>
        (hd ds = CHR ''0'' \<longrightarrow> ds = ''0'') \<and>
        digits_value ds \<le> (if minus then 2147483648 else 2147483647))"

definition scalar_text :: "string \<Rightarrow> bool" where
  "scalar_text t \<longleftrightarrow> (\<exists>d. string_text d t) \<or> number_text t \<or> t \<in> {''true'', ''false'', ''null''}"

definition opener :: "bool \<Rightarrow> char" where
  "opener object = (if object then CHR ''{'' else CHR ''['')"

text \<open>What precedes the value of an item: the key and the colon in an object, nothing in an array.\<close>

definition key_text :: "bool \<Rightarrow> string \<Rightarrow> string \<Rightarrow> bool" where
  "key_text object d p \<longleftrightarrow>
     (if object then \<exists>k w. string_text d k \<and> blank w \<and> p = k @ w @ '':'' else d = [] \<and> p = [])"

text \<open>One or more items separated by commas, as pairs of the decoded key and the text of the value.\<close>

inductive items_text :: "(string \<Rightarrow> bool) \<Rightarrow> bool \<Rightarrow> (string \<times> string) list \<Rightarrow> string \<Rightarrow> bool" for G object where
  one: "key_text object d p \<Longrightarrow> blank w \<Longrightarrow> G v \<Longrightarrow> blank w' \<Longrightarrow>
    items_text G object [(d, v)] (p @ w @ v @ w')"
| more: "key_text object d p \<Longrightarrow> blank w \<Longrightarrow> G v \<Longrightarrow> blank w' \<Longrightarrow> blank u \<Longrightarrow> items_text G object items t \<Longrightarrow>
    items_text G object ((d, v) # items) (p @ w @ v @ w' @ '','' @ u @ t)"

definition nested_text :: "(string \<Rightarrow> bool) \<Rightarrow> bool \<Rightarrow> (string \<times> string) list \<Rightarrow> string \<Rightarrow> bool" where
  "nested_text G object items t \<longleftrightarrow>
     (\<exists>w u. t = opener object # w @ u @ [closer object] \<and> blank w \<and>
        (if items = [] then u = [] else items_text G object items u) \<and> (object \<longrightarrow> distinct (map fst items)))"

text \<open>The texts with at most \<open>n\<close> levels of objects and arrays.\<close>

primrec json_text :: "nat \<Rightarrow> string \<Rightarrow> bool" where
  "json_text 0 = scalar_text"
| "json_text (Suc n) = (\<lambda>t. scalar_text t \<or> (\<exists>object items. nested_text (json_text n) object items t))"

section \<open>White space and characters\<close>

lemma blank_simps [simp]:
  "blank []" "blank (c # w) \<longleftrightarrow> json_space c \<and> blank w" "blank (v @ w) \<longleftrightarrow> blank v \<and> blank w"
  by (auto simp: blank_def)

lemma whitespace_blank: "\<exists>w. s = w @ whitespace s \<and> blank w"
  using takeWhile_dropWhile_id [of json_space s]
  by (intro exI [of _ "takeWhile json_space s"]) (auto simp: whitespace_def blank_def list_all_iff dest: set_takeWhileD)

lemma whitespace_skip: "blank w \<Longrightarrow> whitespace (w @ s) = whitespace s"
  by (induction w) (auto simp: whitespace_def)

lemma whitespace_stop [simp]: "\<not> json_space c \<Longrightarrow> whitespace (c # s) = c # s"
  by (simp add: whitespace_def)

lemma whitespace_Nil [simp]: "whitespace [] = []"
  by (simp add: whitespace_def)

lemma whitespace_head: "whitespace s = c # t \<Longrightarrow> \<not> json_space c"
  using hd_dropWhile [of json_space s] by (auto simp: whitespace_def)

lemma whitespace_suffix: "suffix (whitespace s) s"
  by (simp add: whitespace_def suffix_dropWhile)

lemma space_chars [simp]:
  "\<not> json_space quote_char" "\<not> json_space CHR '',''" "\<not> json_space CHR '':''"
  "\<not> json_space (opener object)" "\<not> json_space (closer object)"
  "\<not> json_space CHR ''{''" "\<not> json_space CHR ''}''" "\<not> json_space CHR ''[''" "\<not> json_space CHR '']''"
  by (simp_all add: json_space_def opener_def closer_def)

lemma digit_chars [simp]:
  "\<not> digit_char CHR '',''" "\<not> digit_char CHR ''-''" "\<not> digit_char (closer object)" "\<not> digit_char quote_char"
  by (simp_all add: digit_char_def closer_def less_eq_char_def)

lemma digit_not_space: "digit_char c \<Longrightarrow> \<not> json_space c"
  by (auto simp: digit_char_def json_space_def less_eq_char_def)

text \<open>A number ends where no digit follows.\<close>

definition ends :: "string \<Rightarrow> bool" where
  "ends r \<longleftrightarrow> r = [] \<or> \<not> digit_char (hd r)"

lemma ends_simps [simp]: "ends []" "ends (c # r) \<longleftrightarrow> \<not> digit_char c"
  by (simp_all add: ends_def)

lemma ends_blank: "blank w \<Longrightarrow> ends r \<Longrightarrow> ends (w @ r)"
  by (cases w) (auto dest: digit_not_space)

lemma text_between_append [simp]: "text_between (t @ r) r = t"
  by (simp add: text_between_def)

section \<open>Numbers\<close>

lemma digits_value_Nil [simp]: "digits_value [] = 0"
  by (simp add: digits_value_def)

lemma digits_value_snoc [simp]:
  "digits_value (ds @ [c]) = digits_value ds * 10 + (byte_of c - byte_of CHR ''0'')"
  by (simp add: digits_value_def)

lemma digits_value_large:
  assumes "ds \<noteq> []" "list_all digit_char ds" "hd ds \<noteq> CHR ''0''"
  shows "10 ^ (length ds - 1) \<le> digits_value ds"
  using assms
proof (induction ds rule: rev_induct)
  case (snoc c ds)
  show ?case
  proof (cases "ds = []")
    case True
    then have "byte_of CHR ''0'' \<le> byte_of c" "c \<noteq> CHR ''0''"
      using snoc.prems by (auto simp: digit_char_def less_eq_char_def byte_of_def)
    then have "byte_of CHR ''0'' < byte_of c"
      by (simp only: byte_of_def le_less of_char_eq_iff) auto
    with True show ?thesis using digits_value_snoc [of "[]" c] by simp
  next
    case False
    with snoc have "10 ^ (length ds - 1) \<le> digits_value ds" by auto
    moreover have "(10 :: nat) ^ length ds = 10 * 10 ^ (length ds - 1)"
      using False by (cases ds) auto
    ultimately show ?thesis by simp
  qed
qed simp

lemma digits_value_short:
  assumes "ds \<noteq> []" "list_all digit_char ds" "hd ds = CHR ''0'' \<longrightarrow> ds = ''0''" "digits_value ds \<le> 2147483648"
  shows "length ds \<le> 10"
proof (rule ccontr)
  assume long: "\<not> length ds \<le> 10"
  then have "hd ds \<noteq> CHR ''0''" using assms(3) by auto
  with assms have "10 ^ (length ds - 1) \<le> (2147483648 :: nat)"
    using digits_value_large [of ds] by simp
  moreover have "(10 :: nat) ^ 10 \<le> 10 ^ (length ds - 1)"
    using long by (intro power_increasing) auto
  ultimately show False by simp
qed

end
