(* ===== verification/Json_Accept.thy ===== *)
theory Json_Accept
  imports Json_Grammar
begin

text \<open>
  The validator of \<open>Json\<close> accepts exactly the texts of the grammar, and always returns. The loop over
  members and elements is proved once for any parser of the elements that returns and consumes input
  (\<open>consuming_parser\<close>) and reads the texts of some grammar (\<open>sound_parser\<close>, \<open>complete_parser\<close>); the
  validator itself is such a parser at every depth, by induction over the levels that are left.
\<close>

section \<open>Scalars\<close>

lemma takeWhile_digits: "list_all digit_char ds \<Longrightarrow> ends r \<Longrightarrow> takeWhile digit_char (ds @ r) = ds"
  by (cases r) (auto simp: list_all_iff takeWhile_append2)

lemma dropWhile_digits: "list_all digit_char ds \<Longrightarrow> ends r \<Longrightarrow> dropWhile digit_char (ds @ r) = r"
  by (cases r) (auto simp: list_all_iff dropWhile_append2)

lemma digits_all:
  "list_all digit_char ds \<Longrightarrow> takeWhile digit_char ds = ds" "list_all digit_char ds \<Longrightarrow> dropWhile digit_char ds = []"
  using takeWhile_digits [of ds "[]"] dropWhile_digits [of ds "[]"] by simp_all

lemma from_chars_digits:
  assumes "ds \<noteq> []" "list_all digit_char ds"
  shows "from_chars_i32 ((if neg then ''-'' else '''') @ ds) =
    (if digits_value ds \<le> (if neg then 2147483648 else 2147483647)
     then Some (if neg then - int (digits_value ds) else int (digits_value ds), []) else None)"
proof -
  have "hd ds \<noteq> CHR ''-''"
    using assms by (cases ds) auto
  with assms show ?thesis
    by (cases neg) (simp_all add: from_chars_i32_def Let_def digits_all not_le)
qed

lemma integer_token_number:
  assumes "t = (if neg then ''-'' else '''') @ ds" "ds \<noteq> []" "list_all digit_char ds"
    "hd ds = CHR ''0'' \<longrightarrow> ds = ''0''" "digits_value ds \<le> (if neg then 2147483648 else 2147483647)"
  shows "integer_token t n = (True, if neg then - int (digits_value ds) else int (digits_value ds))"
proof -
  have "length ds \<le> 10"
    using assms by (intro digits_value_short) (auto split: if_splits)
  then show ?thesis
    using assms(2,5) unfolding assms(1) integer_token_def from_chars_digits [OF assms(2,3)] by (cases neg) simp_all
qed

lemma number_end_number:
  assumes "number_text t" "ends r"
  shows "number_end (t @ r) = Some r"
proof -
  obtain neg ds where t: "t = (if neg then ''-'' else '''') @ ds" "ds \<noteq> []" "list_all digit_char ds"
    and zero: "hd ds = CHR ''0'' \<longrightarrow> ds = ''0''"
    using assms(1) by (auto simp: number_text_def)
  obtain d ds' where ds: "ds = d # ds'" using t(2) by (cases ds) auto
  then have "d \<noteq> CHR ''-''" using t(3) by auto
  with t ds zero show ?thesis
    using dropWhile_digits [OF t(3) assms(2)] by (auto simp: number_end_def)
qed

lemma number_not_literal:
  "number_text t \<Longrightarrow> find (starts_with (t @ r)) [''true'', ''false'', ''null''] = None"
proof -
  assume "number_text t"
  then obtain neg ds where t: "t = (if neg then ''-'' else '''') @ ds" "ds \<noteq> []" "list_all digit_char ds"
    by (auto simp: number_text_def)
  obtain d ds' where ds: "ds = d # ds'" using t(2) by (cases ds) auto
  then have "d \<notin> {CHR ''t'', CHR ''f'', CHR ''n''}"
    using t(3) by (auto simp: digit_char_def less_eq_char_def)
  with t(1) ds show ?thesis
    by (cases neg) (auto simp: starts_with_def)
qed

lemma scalar_number:
  assumes "number_text t" "ends r"
  shows "scalar (t @ r) = Accept r"
proof -
  have "fst (integer_token t 0)"
    using assms(1) by (auto simp: number_text_def integer_token_number)
  then show ?thesis
    by (simp add: scalar_def number_not_literal [OF assms(1)] number_end_number [OF assms] del: find.simps)
qed

lemma scalar_literal: "t \<in> {''true'', ''false'', ''null''} \<Longrightarrow> scalar (t @ r) = Accept r"
  by (auto simp: scalar_def starts_with_def)

lemma integer_token_digits:
  assumes "t = (if neg then ''-'' else '''') @ ds" "ds \<noteq> []" "list_all digit_char ds" "fst (integer_token t n)"
  shows "digits_value ds \<le> (if neg then 2147483648 else 2147483647)"
  using assms(2,4) unfolding assms(1) integer_token_def from_chars_digits [OF assms(2,3)] by (auto split: if_splits)

lemma number_sound:
  assumes "number_end s = Some r" "fst (integer_token (text_between s r) 0)"
  shows "\<exists>t. s = t @ r \<and> number_text t"
proof -
  define neg where "neg = (s \<noteq> [] \<and> hd s = CHR ''-'')"
  define p where "p = (if neg then tl s else s)"
  have s: "s = (if neg then ''-'' else '''') @ p"
    by (cases s) (auto simp: neg_def p_def)
  obtain d q where p: "p = d # q" "digit_char d" "r = (if d = CHR ''0'' then q else dropWhile digit_char p)"
    using assms(1) by (auto simp: number_end_def Let_def neg_def [symmetric] p_def [symmetric]
        split: list.splits if_splits)
  define ds where "ds = (if d = CHR ''0'' then ''0'' else takeWhile digit_char p)"
  have ds: "p = ds @ r" "ds \<noteq> []" "list_all digit_char ds" "hd ds = CHR ''0'' \<longrightarrow> ds = ''0''"
    using p by (auto simp: ds_def list_all_iff dest: set_takeWhileD)
  then have "s = ((if neg then ''-'' else '''') @ ds) @ r"
    using s by simp
  moreover from this have "number_text ((if neg then ''-'' else '''') @ ds)"
    using assms(2) ds integer_token_digits [OF refl ds(2,3), of neg 0]
    unfolding number_text_def by (metis text_between_append)
  ultimately show ?thesis by blast
qed

lemma scalar_sound: "scalar s = Accept r \<Longrightarrow> \<exists>t. s = t @ r \<and> scalar_text t"
proof (cases "find (starts_with s) [''true'', ''false'', ''null'']")
  case None
  assume "scalar s = Accept r"
  with None number_sound [of s r] show ?thesis
    by (auto simp: scalar_def scalar_text_def simp del: find.simps split: option.splits if_splits)
next
  case (Some literal)
  assume "scalar s = Accept r"
  with Some have "r = drop (length literal) s"
    by (simp add: scalar_def del: find.simps)
  moreover have "literal \<in> {''true'', ''false'', ''null''}" "take (length literal) s = literal"
    using Some nth_mem [where xs = "[''true'', ''false'', ''null'']"] unfolding find_Some_iff starts_with_def
    by force+
  ultimately show ?thesis
    using append_take_drop_id [of "length literal" s]
    by (intro exI [of _ literal]) (metis (no_types, lifting) scalar_text_def)
qed

lemma scalar_text_head:
  assumes "scalar_text t" obtains c u where "t = c # u" "\<not> json_space c" "c \<notin> {CHR '']'', CHR ''}'', CHR ''{'', CHR ''[''}"
proof -
  have "\<exists>c u. t = c # u \<and> \<not> json_space c \<and> c \<notin> {CHR '']'', CHR ''}'', CHR ''{'', CHR ''[''}"
    using assms digit_not_space
    by (fastforce simp: scalar_text_def string_text_def number_text_def neq_Nil_conv json_space_def digit_char_def
        less_eq_char_def split: if_splits)
  with that show thesis by blast
qed

lemma json_text_head:
  assumes "json_text n t" obtains c u where "t = c # u" "\<not> json_space c" "c \<noteq> CHR '']''" "c \<noteq> CHR ''}''"
proof -
  have "\<exists>c u. t = c # u \<and> \<not> json_space c \<and> c \<noteq> CHR '']'' \<and> c \<noteq> CHR ''}''"
  proof (cases "scalar_text t")
    case True
    then show ?thesis by (auto elim!: scalar_text_head)
  next
    case False
    with assms show ?thesis
      by (cases n) (auto simp: nested_text_def opener_def json_space_def)
  qed
  with that show thesis by blast
qed

section \<open>Repeated keys\<close>

lemma adjacent_equal_sorted: "sorted l \<Longrightarrow> adjacent_equal l \<longleftrightarrow> \<not> distinct l"
proof (induction l rule: adjacent_equal.induct)
  case (1 a b l)
  show ?case
  proof (cases "a = b")
    case False
    then have "a \<notin> set (b # l)"
      using "1.prems" by (auto simp: antisym)
    with 1 False show ?thesis by auto
  qed simp
qed auto

lemma repeated_key_iff: "repeated_key v \<longleftrightarrow> \<not> distinct (map json_string (kv_keys v))"
  by (simp add: repeated_key_def adjacent_equal_sorted distinct_map)

section \<open>The keys of an object\<close>

lemma string_token_suffix: "snd (string_token s) = Some r \<Longrightarrow> strict_suffix r s"
proof -
  assume "snd (string_token s) = Some r"
  then obtain k where "s = k @ r" "string_text (fst (string_token s)) k"
    using string_token_sound [of s "fst (string_token s)" r] by (metis prod.collapse)
  then show ?thesis by (auto simp: string_text_def strict_suffix_def suffix_def)
qed

lemma member_key_suffix: "member_key mem validate object v s = Some (v', r) \<Longrightarrow> suffix r s"
proof -
  assume m: "member_key mem validate object v s = Some (v', r)"
  show ?thesis
  proof (cases object)
    case True
    with m obtain p c where "snd (string_token s) = Some p" "whitespace p = c # r"
      by (auto simp: member_key_def split: option.splits list.splits if_splits)
    then have "strict_suffix p s" "suffix (c # r) p"
      using string_token_suffix whitespace_suffix [of p] by auto
    then show ?thesis by (meson strict_suffix_def suffix_ConsD suffix_order.trans)
  qed (use m in \<open>simp add: member_key_def\<close>)
qed

lemma member_key_sound:
  assumes "member_key mem True object v s = Some (v', r)"
  shows "\<exists>d p. s = p @ r \<and> key_text object d p \<and>
    (object \<longrightarrow> map json_string (kv_keys v') = map json_string (kv_keys v) @ [d])"
proof (cases object)
  case True
  with assms obtain q where q: "snd (string_token s) = Some q" "admit_key mem (length q) (text_between s q) v = Some v'"
    and colon: "whitespace q = CHR '':'' # r"
    by (auto simp: member_key_def split: option.splits list.splits if_splits)
  obtain k where k: "s = k @ q" "string_text (fst (string_token s)) k"
    using q(1) string_token_sound [of s "fst (string_token s)" q] by (metis prod.collapse)
  obtain w where w: "q = w @ CHR '':'' # r" "blank w"
    using whitespace_blank [of q] colon by auto
  have "kv_keys v' = kv_keys v @ [k]"
    using q(2) k(1) by (auto simp: admit_key_def Let_def split: if_splits)
  with True k w show ?thesis
    by (intro exI [of _ "fst (string_token s)"] exI [of _ "k @ w @ '':''"])
      (auto simp: key_text_def json_string_text)
next
  case False
  with assms show ?thesis
    by (intro exI [of _ "[]"]) (auto simp: member_key_def key_text_def)
qed

lemma member_key_complete:
  assumes "key_text object d p" "\<And>left bytes. validate \<Longrightarrow> mem left bytes"
  shows "\<exists>v'. member_key mem validate object v (p @ r) = Some (v', r) \<and>
    (object \<and> validate \<longrightarrow> map json_string (kv_keys v') = map json_string (kv_keys v) @ [d])"
proof (cases object)
  case True
  then obtain k w where k: "string_text d k" "blank w" "p = k @ w @ '':''"
    using assms(1) by (auto simp: key_text_def)
  then have token: "string_token (p @ r) = (d, Some (w @ CHR '':'' # r))"
    using string_token_complete [OF k(1), of "w @ '':'' @ r"] by simp
  obtain v' where "(if validate then admit_key mem (length (w @ CHR '':'' # r)) k v else Some v) = Some v'"
    and "validate \<Longrightarrow> kv_keys v' = kv_keys v @ [k]"
    using assms(2) by (cases validate) (auto simp: admit_key_def Let_def)
  moreover have "text_between (p @ r) (w @ CHR '':'' # r) = k"
    using k(3) text_between_append [of k "w @ '':'' @ r"] by simp
  ultimately show ?thesis
    using True token k by (auto simp: member_key_def whitespace_skip json_string_text simp del: append_assoc)
next
  case False
  with assms(1) show ?thesis by (auto simp: member_key_def key_text_def)
qed

section \<open>The loop over the items\<close>

locale consuming_parser =
  fixes element :: "string \<Rightarrow> outcome option"
  assumes returns: "\<exists>result. element s = Some result"
    and consumes: "element s = Some (Accept r) \<Longrightarrow> strict_suffix r s"
begin

lemma loop_consumes:
  "\<exists>result. members_loop mem validate object element v s = Some result \<and>
     (\<forall>r. result = Accept r \<longrightarrow> strict_suffix r s)"
proof (induction s arbitrary: v rule: length_induct)
  case (1 s)
  show ?case
  proof (cases "s = [] \<or> member_key mem validate object v s = None")
    case True
    then show ?thesis by (auto simp: members_loop.simps [of _ _ _ _ _ s])
  next
    case False
    then obtain v' p where m: "s \<noteq> []" "member_key mem validate object v s = Some (v', p)" by auto
    obtain result where e: "element p = Some result" using returns by blast
    show ?thesis
    proof (cases result)
      case Reject
      with m e show ?thesis by (auto simp: members_loop.simps [of _ _ _ _ _ s])
    next
      case (Accept q)
      have q: "strict_suffix q s"
        using consumes [of p q] e Accept member_key_suffix [OF m(2)] by (auto intro: suffix_order.less_le_trans)
      show ?thesis
      proof (cases "whitespace q")
        case Nil
        with m e Accept show ?thesis by (auto simp: members_loop.simps [of _ _ _ _ _ s])
      next
        case (Cons c t)
        then have "suffix t q"
          using whitespace_suffix [of q] by (metis suffix_ConsD)
        with q have t: "strict_suffix t s" "strict_suffix (whitespace t) s"
          using whitespace_suffix [of t] by (meson suffix_order.le_less_trans)+
        from t(2) have "length (whitespace t) < length s" by (rule suffix_length_less)
        with 1 obtain result' where "members_loop mem validate object element v' (whitespace t) = Some result'"
          "\<forall>r. result' = Accept r \<longrightarrow> strict_suffix r (whitespace t)" by blast
        with t m e Accept Cons show ?thesis
          by (auto simp: members_loop.simps [of _ _ _ _ _ s] intro: suffix_order.less_trans)
      qed
    qed
  qed
qed

end

locale sound_parser = consuming_parser +
  fixes G :: "string \<Rightarrow> bool"
  assumes sound: "element s = Some (Accept r) \<Longrightarrow> \<exists>w t. s = w @ t @ r \<and> blank w \<and> G t"
begin

lemma loop_sound:
  assumes "members_loop mem True object element v s = Some (Accept r)"
  shows "\<exists>items t. s = t @ closer object # r \<and> items \<noteq> [] \<and> items_text G object items t \<and>
    (object \<longrightarrow> distinct (map json_string (kv_keys v) @ map fst items))"
  using assms
proof (induction s arbitrary: v rule: length_induct)
  case (1 s)
  obtain v' p where m: "member_key mem True object v s = Some (v', p)"
    using "1.prems"
    by (cases "member_key mem True object v s") (auto simp: members_loop.simps [of _ _ _ _ _ s] split: if_splits)
  obtain result where "element p = Some result" using returns by blast
  then obtain q where e: "element p = Some (Accept q)"
    using "1.prems" m by (cases result) (auto simp: members_loop.simps [of _ _ _ _ _ s] split: if_splits)
  obtain d k where k: "s = k @ p" "key_text object d k"
    and keys: "object \<longrightarrow> map json_string (kv_keys v') = map json_string (kv_keys v) @ [d]"
    using member_key_sound [OF m] by blast
  obtain w x where x: "p = w @ x @ q" "blank w" "G x"
    using sound [OF e] by blast
  obtain c t where q: "whitespace q = c # t" and "c = closer object \<or> c = CHR '',''"
    using "1.prems" m e by (auto simp: members_loop.simps [of _ _ _ _ _ s] split: if_splits list.splits)
  obtain u where u: "q = u @ c # t" "blank u"
    using whitespace_blank [of q] q by auto
  show ?case
  proof (cases "c = closer object")
    case True
    have "r = t" "object \<longrightarrow> \<not> repeated_key v'"
      using "1.prems" m e q True by (auto simp: members_loop.simps [of _ _ _ _ _ s] split: if_splits)
    moreover have "items_text G object [(d, x)] (k @ w @ x @ u)"
      using k(2) x(2,3) u(2) by (rule items_text.one)
    ultimately show ?thesis
      using k(1) x(1) u(1) True keys
      by (intro exI [of _ "[(d, x)]"] exI [of _ "k @ w @ x @ u"]) (auto simp: repeated_key_iff)
  next
    case False
    with \<open>c = closer object \<or> c = CHR '',''\<close> have comma: "c = CHR '',''" by simp
    have rest: "members_loop mem True object element v' (whitespace t) = Some (Accept r)"
      using "1.prems" m e q False comma by (simp add: members_loop.simps [of _ _ _ _ _ s] split: if_splits)
    have "length (whitespace t) \<le> length t"
      using whitespace_suffix by (rule suffix_length_le)
    then have "length (whitespace t) < length s"
      using k(1) x(1) u(1) by simp
    with 1 rest obtain items b where b: "whitespace t = b @ closer object # r" "items_text G object items b"
      "object \<longrightarrow> distinct (map json_string (kv_keys v') @ map fst items)" by blast
    obtain z where z: "t = z @ whitespace t" "blank z"
      using whitespace_blank by blast
    have "items_text G object ((d, x) # items) (k @ w @ x @ u @ '','' @ z @ b)"
      using k(2) x(2,3) u(2) z(2) b(2) by (rule items_text.more)
    moreover have "s = (k @ w @ x @ u @ '','' @ z @ b) @ closer object # r"
      using k(1) x(1) u(1) z(1) b(1) comma by simp
    ultimately show ?thesis
      using b(3) keys by (intro exI [of _ "(d, x) # items"]) auto
  qed
qed

end

locale complete_parser = consuming_parser +
  fixes G :: "string \<Rightarrow> bool"
  assumes complete: "blank w \<Longrightarrow> G t \<Longrightarrow> ends r \<Longrightarrow> element (w @ t @ r) = Some (Accept r)"
    and head: "G t \<Longrightarrow> \<exists>c u. t = c # u \<and> \<not> json_space c \<and> c \<noteq> CHR '']'' \<and> c \<noteq> CHR ''}''"
begin

lemma item_start:
  assumes "key_text object d p" "blank w" "G x"
  obtains w' c u where "blank w'" "whitespace (p @ w @ x @ s) = p @ w' @ x @ s" "p @ w' @ x = c # u"
    "c \<noteq> closer object" "\<not> json_space c"
proof (cases object)
  case True
  with assms(1) obtain p' where "p = quote_char # p'"
    by (auto simp: key_text_def string_text_def)
  with that [of w quote_char "p' @ w @ x"] assms(2) True show thesis by (simp add: closer_def)
next
  case False
  obtain c u where "x = c # u" "\<not> json_space c" "c \<noteq> CHR '']''" using head [OF assms(3)] by blast
  with that [of "[]" c u] assms(1,2) False show thesis
    by (simp add: key_text_def whitespace_skip closer_def)
qed

lemma item_complete:
  assumes "key_text object d p" "blank w" "G x" "blank w'" "c = closer object \<or> c = CHR '',''"
    "\<And>left bytes. validate \<Longrightarrow> mem left bytes"
  shows "\<exists>v'. (object \<and> validate \<longrightarrow> map json_string (kv_keys v') = map json_string (kv_keys v) @ [d]) \<and>
    members_loop mem validate object element v (p @ w @ x @ w' @ c # r) =
      (if c = closer object then Some (if validate \<and> object \<and> repeated_key v' then Reject else Accept r)
       else members_loop mem validate object element v' (whitespace r))"
proof -
  let ?r = "w' @ c # r"
  have "ends ?r"
    using assms(4,5) by (intro ends_blank) auto
  with assms(2,3) have e: "element (w @ x @ ?r) = Some (Accept ?r)"
    by (intro complete)
  have "\<exists>v'. member_key mem validate object v (p @ w @ x @ ?r) = Some (v', w @ x @ ?r) \<and>
      (object \<and> validate \<longrightarrow> map json_string (kv_keys v') = map json_string (kv_keys v) @ [d])"
    by (rule member_key_complete [OF assms(1)]) (rule assms(6))
  then obtain v' where "member_key mem validate object v (p @ w @ x @ ?r) = Some (v', w @ x @ ?r)"
    and "object \<and> validate \<longrightarrow> map json_string (kv_keys v') = map json_string (kv_keys v) @ [d]"
    by (elim exE conjE)
  moreover have "whitespace ?r = c # r"
    using assms(4,5) by (auto simp: whitespace_skip)
  moreover have "p @ w @ x @ ?r \<noteq> []" by simp
  ultimately show ?thesis
    using e assms(5) by (intro exI [of _ v']) (auto simp: members_loop.simps [of _ _ _ _ _ "p @ w @ x @ ?r"])
qed

lemma items_head:
  assumes "items_text G object items t"
  shows "\<exists>c u. whitespace (t @ r) = c # u \<and> c \<noteq> closer object"
  using assms
proof cases
  case (one d p w x w')
  then show ?thesis using item_start [OF one(3-5), of "w' @ r"] by (metis append_Cons append_assoc)
next
  case (more d p w x w' u items t)
  then show ?thesis using item_start [OF more(3-5), of "w' @ '','' @ u @ t @ r"] by (metis append_Cons append_assoc)
qed

lemma loop_complete:
  assumes "items_text G object items t" "\<And>left bytes. validate \<Longrightarrow> mem left bytes"
    "object \<and> validate \<Longrightarrow> distinct (map json_string (kv_keys v) @ map fst items)"
  shows "members_loop mem validate object element v (whitespace (t @ closer object # r)) = Some (Accept r)"
  using assms
proof (induction arbitrary: v rule: items_text.induct)
  case (one d p w x w')
  obtain z where z: "blank z" "whitespace (p @ w @ x @ w' @ closer object # r) = p @ z @ x @ w' @ closer object # r"
    using item_start [OF one(1-3)] by metis
  obtain v' where v': "object \<and> validate \<longrightarrow> map json_string (kv_keys v') = map json_string (kv_keys v) @ [d]"
    and l: "members_loop mem validate object element v (p @ z @ x @ w' @ closer object # r) =
      Some (if validate \<and> object \<and> repeated_key v' then Reject else Accept r)"
    using item_complete [OF one(1) z(1) one(3,4), of "closer object" validate mem v r] one.prems(1) by auto
  with z one.prems(2) show ?case
    by (cases "object \<and> validate") (auto simp: repeated_key_iff)
next
  case (more d p w x w' u items t)
  let ?r = "u @ t @ closer object # r"
  obtain z where z: "blank z" "whitespace (p @ w @ x @ w' @ CHR '','' # ?r) = p @ z @ x @ w' @ CHR '','' # ?r"
    using item_start [OF more(1-3)] by metis
  obtain v' where v': "object \<and> validate \<longrightarrow> map json_string (kv_keys v') = map json_string (kv_keys v) @ [d]"
    and l: "members_loop mem validate object element v (p @ z @ x @ w' @ CHR '','' # ?r) =
      members_loop mem validate object element v' (whitespace ?r)"
    using item_complete [OF more(1) z(1) more(3,4), of "CHR '',''" validate mem v ?r] more.prems(1)
    by (auto simp: closer_def split: if_splits)
  have "members_loop mem validate object element v' (whitespace (t @ closer object # r)) = Some (Accept r)"
    using more.prems v' by (intro more.IH) auto
  with z l more(5) show ?case by (simp add: whitespace_skip)
qed

end

section \<open>The validator\<close>

lemma scalar_suffix: "scalar s = Accept r \<Longrightarrow> strict_suffix r s"
proof -
  assume "scalar s = Accept r"
  then obtain t where "s = t @ r" "scalar_text t" using scalar_sound by blast
  then show ?thesis by (auto simp: strict_suffix_def suffix_def elim: scalar_text_head)
qed

lemma json_value_blank: "whitespace s = [] \<Longrightarrow> json_value mem validate maximum_depth depth s = Some Reject"
  by (simp add: json_value.simps [of _ _ _ _ s])

lemma json_value_string:
  "whitespace s = quote_char # r \<Longrightarrow>
   json_value mem validate maximum_depth depth s = Some (outcome_of (snd (string_token (quote_char # r))))"
  by (simp add: json_value.simps [of _ _ _ _ s])

lemma json_value_scalar:
  "whitespace s = c # r \<Longrightarrow> c \<notin> {quote_char, CHR ''{'', CHR ''[''} \<Longrightarrow>
   json_value mem validate maximum_depth depth s = Some (scalar (c # r))"
  by (simp add: json_value.simps [of _ _ _ _ s])

lemma json_value_nested:
  "whitespace s = opener object # r \<Longrightarrow>
   json_value mem validate maximum_depth depth s =
     (if depth > maximum_depth then Some Reject
      else if whitespace r \<noteq> [] \<and> hd (whitespace r) = closer object then Some (Accept (tl (whitespace r)))
      else members_loop mem validate object (json_value mem validate maximum_depth (Suc depth)) no_keys
             (whitespace r))"
  by (cases object) (simp_all add: json_value.simps [of _ _ _ _ s] Let_def opener_def)

lemma json_value_cases:
  obtains (blank) "whitespace s = []" | (string) r where "whitespace s = quote_char # r"
  | (nested) object r where "whitespace s = opener object # r"
  | (scalar) c r where "whitespace s = c # r" "c \<notin> {quote_char, CHR ''{'', CHR ''[''}"
proof (cases "whitespace s")
  case (Cons c r)
  show thesis
  proof (cases "c \<in> {CHR ''{'', CHR ''[''}")
    case True
    with Cons show thesis by (intro nested [of "c = CHR ''{''" r]) (auto simp: opener_def)
  qed (use Cons string scalar in blast)
qed (use blank in blast)

theorem json_value_consuming: "consuming_parser (json_value mem validate maximum_depth depth)"
proof (induction "Suc maximum_depth - depth" arbitrary: depth)
  case 0
  show ?case
  proof
    fix s r
    have "whitespace s = opener object # p \<Longrightarrow> json_value mem validate maximum_depth depth s = Some Reject"
      for object p using 0 by (simp add: json_value_nested)
    then have "(\<exists>result. json_value mem validate maximum_depth depth s = Some result \<and>
        (\<forall>r. result = Accept r \<longrightarrow> strict_suffix r (whitespace s)))"
      by (cases s rule: json_value_cases)
        (auto simp: json_value_blank json_value_string json_value_scalar outcome_of_def
          intro: string_token_suffix scalar_suffix split: option.splits)
    then show "\<exists>result. json_value mem validate maximum_depth depth s = Some result"
      "json_value mem validate maximum_depth depth s = Some (Accept r) \<Longrightarrow> strict_suffix r s"
      using whitespace_suffix [of s] by (auto intro: suffix_order.less_le_trans)
  qed
next
  case (Suc n)
  then have "consuming_parser (json_value mem validate maximum_depth (Suc depth))" by auto
  note loop = consuming_parser.loop_consumes [OF this]
  show ?case
  proof
    fix s r
    have "\<exists>result. json_value mem validate maximum_depth depth s = Some result \<and>
        (\<forall>r. result = Accept r \<longrightarrow> strict_suffix r (whitespace s))"
    proof (cases s rule: json_value_cases)
      case (nested object p)
      have p: "strict_suffix (whitespace p) (whitespace s)"
        using nested whitespace_suffix [of p] by (auto simp: strict_suffix_def suffix_Cons dest: suffix_length_le)
      have tail: "strict_suffix (tl q) (whitespace s)" if "suffix q (whitespace p)" for q
        using p that by (meson suffix_order.le_less_trans suffix_order.trans suffix_tl)
      show ?thesis
        using loop [of mem validate object no_keys "whitespace p"] p tail [of "whitespace p"]
        by (auto simp: json_value_nested [OF nested] intro: suffix_order.less_trans)
    qed (auto simp: json_value_blank json_value_string json_value_scalar outcome_of_def
        intro: string_token_suffix scalar_suffix split: option.splits)
    then show "\<exists>result. json_value mem validate maximum_depth depth s = Some result"
      "json_value mem validate maximum_depth depth s = Some (Accept r) \<Longrightarrow> strict_suffix r s"
      using whitespace_suffix [of s] by (auto intro: suffix_order.less_le_trans)
  qed
qed

interpretation jv: consuming_parser "json_value mem validate maximum_depth depth" for mem validate maximum_depth depth
  by (rule json_value_consuming)

lemma json_text_scalar: "scalar_text t \<Longrightarrow> json_text n t"
  by (cases n) auto

lemma json_text_nested: "nested_text (json_text n) object items t \<Longrightarrow> json_text (Suc n) t"
  by auto

theorem json_value_sound: "sound_parser (json_value mem True maximum_depth depth) (json_text (Suc maximum_depth - depth))"
proof (induction "Suc maximum_depth - depth" arbitrary: depth)
  case 0
  show ?case
  proof
    fix s r assume v: "json_value mem True maximum_depth depth s = Some (Accept r)"
    obtain w where w: "s = w @ whitespace s" "blank w" using whitespace_blank by blast
    have "\<exists>t. whitespace s = t @ r \<and> scalar_text t"
    proof (cases s rule: json_value_cases)
      case (string p)
      with v have "string_token (quote_char # p) = (fst (string_token (quote_char # p)), Some r)"
        by (auto simp: json_value_string outcome_of_def prod_eq_iff split: option.splits)
      then show ?thesis using string_token_sound string by (fastforce simp: scalar_text_def)
    qed (use v 0 scalar_sound in \<open>auto simp: json_value_blank json_value_scalar json_value_nested\<close>)
    with w show "\<exists>w t. s = w @ t @ r \<and> blank w \<and> json_text (Suc maximum_depth - depth) t"
      using json_text_scalar by metis
  qed
next
  case (Suc n)
  have n: "n = Suc maximum_depth - Suc depth" using Suc(2) by simp
  have "sound_parser (json_value mem True maximum_depth (Suc depth)) (json_text n)"
    using Suc(1) [OF n] unfolding n .
  note loop = sound_parser.loop_sound [OF this]
  show ?case
  proof
    fix s r assume v: "json_value mem True maximum_depth depth s = Some (Accept r)"
    obtain w where w: "s = w @ whitespace s" "blank w" using whitespace_blank by blast
    have "\<exists>t. whitespace s = t @ r \<and> json_text (Suc n) t"
    proof (cases s rule: json_value_cases)
      case (string p)
      with v have "string_token (quote_char # p) = (fst (string_token (quote_char # p)), Some r)"
        by (auto simp: json_value_string outcome_of_def prod_eq_iff split: option.splits)
      then show ?thesis using string_token_sound string by (fastforce simp: scalar_text_def)
    next
      case (nested object p)
      obtain u where u: "p = u @ whitespace p" "blank u" using whitespace_blank by blast
      show ?thesis
      proof (cases "whitespace p \<noteq> [] \<and> hd (whitespace p) = closer object")
        case True
        then have "whitespace p = closer object # r"
          using v by (auto simp: json_value_nested [OF nested] neq_Nil_conv split: if_splits)
        with u nested have "whitespace s = (opener object # u @ [closer object]) @ r" by simp
        moreover have "nested_text (json_text n) object [] (opener object # u @ [closer object])"
          using u(2) by (auto simp: nested_text_def)
        ultimately show ?thesis using json_text_nested by blast
      next
        case False
        then have "members_loop mem True object (json_value mem True maximum_depth (Suc depth)) no_keys (whitespace p)
            = Some (Accept r)"
          using v by (auto simp: json_value_nested [OF nested] split: if_splits)
        from loop [OF this] obtain items t where t: "whitespace p = t @ closer object # r" "items \<noteq> []"
          "items_text (json_text n) object items t" "object \<longrightarrow> distinct (map fst items)"
          by (auto simp: no_keys_def)
        then have "nested_text (json_text n) object items (opener object # u @ t @ [closer object])"
          using u(2) by (auto simp: nested_text_def)
        moreover have "whitespace s = (opener object # u @ t @ [closer object]) @ r"
          using nested u(1) t(1) by simp
        ultimately show ?thesis using json_text_nested by blast
      qed
    next
      case (scalar c p)
      with v have "scalar (whitespace s) = Accept r" by (simp add: json_value_scalar)
      then show ?thesis using scalar_sound json_text_scalar by blast
    qed (use v in \<open>auto simp: json_value_blank\<close>)
    with w Suc(2) [symmetric] show "\<exists>w t. s = w @ t @ r \<and> blank w \<and> json_text (Suc maximum_depth - depth) t"
      by metis
  qed
qed

lemma json_value_scalar_complete:
  assumes "scalar_text t" "blank w" "ends r"
  shows "json_value mem validate maximum_depth depth (w @ t @ r) = Some (Accept r)"
proof -
  obtain c u where t: "t = c # u" "\<not> json_space c" "c \<notin> {CHR '']'', CHR ''}'', CHR ''{'', CHR ''[''}"
    using scalar_text_head [OF assms(1)] by blast
  then have ws: "whitespace (w @ t @ r) = c # u @ r"
    using assms(2) by (simp add: whitespace_skip)
  consider d where "string_text d t" | "number_text t" | "t \<in> {''true'', ''false'', ''null''}"
    using assms(1) by (auto simp: scalar_text_def)
  then show ?thesis
  proof cases
    case 1
    then have "c = quote_char" using t(1) by (auto simp: string_text_def)
    with 1 t ws string_token_complete [of d t r] show ?thesis
      by (simp add: json_value_string outcome_of_def)
  next
    case 2
    then have "c \<noteq> quote_char" using t(1) by (auto simp: number_text_def neq_Nil_conv split: if_splits)
    with t ws scalar_number [OF 2 assms(3)] show ?thesis by (simp add: json_value_scalar)
  next
    case 3
    then have "c \<noteq> quote_char" using t(1) by auto
    with t ws scalar_literal [OF 3, of r] show ?thesis by (simp add: json_value_scalar)
  qed
qed

theorem json_value_complete:
  assumes "\<And>left bytes. validate \<Longrightarrow> mem left bytes"
  shows "complete_parser (json_value mem validate maximum_depth depth) (json_text (Suc maximum_depth - depth))"
proof (induction "Suc maximum_depth - depth" arbitrary: depth)
  case 0
  show ?case
  proof
    fix t assume "json_text (Suc maximum_depth - depth) t"
    then show "\<exists>c u. t = c # u \<and> \<not> json_space c \<and> c \<noteq> CHR '']'' \<and> c \<noteq> CHR ''}''"
      by (metis json_text_head)
  qed (use 0 [symmetric] in \<open>simp add: json_value_scalar_complete\<close>)
next
  case (Suc n)
  have n: "n = Suc maximum_depth - Suc depth" using Suc(2) by simp
  have inner: "complete_parser (json_value mem validate maximum_depth (Suc depth)) (json_text n)"
    using Suc(1) [OF n] unfolding n .
  show ?case
  proof
    fix t assume "json_text (Suc maximum_depth - depth) t"
    then show "\<exists>c u. t = c # u \<and> \<not> json_space c \<and> c \<noteq> CHR '']'' \<and> c \<noteq> CHR ''}''"
      by (metis json_text_head)
  next
    fix w t r assume w: "blank w" "ends r" and "json_text (Suc maximum_depth - depth) t"
    then consider "scalar_text t" | object items where "nested_text (json_text n) object items t"
      using Suc(2) [symmetric] by auto
    then show "json_value mem validate maximum_depth depth (w @ t @ r) = Some (Accept r)"
    proof cases
      case 1
      with w show ?thesis by (intro json_value_scalar_complete)
    next
      case 2
      obtain z u where t: "t = opener object # z @ u @ [closer object]" "blank z"
        and u: "if items = [] then u = [] else items_text (json_text n) object items u"
        and keys: "object \<longrightarrow> distinct (map fst items)"
        using 2 by (auto simp: nested_text_def)
      have ws: "whitespace (w @ t @ r) = opener object # z @ u @ closer object # r"
        using w t by (simp add: whitespace_skip)
      show ?thesis
      proof (cases "items = []")
        case True
        with Suc(2) u t(2) show ?thesis by (simp add: json_value_nested [OF ws] whitespace_skip)
      next
        case False
        then have items: "items_text (json_text n) object items u" using u by simp
        have "members_loop mem validate object (json_value mem validate maximum_depth (Suc depth)) no_keys
            (whitespace (u @ closer object # r)) = Some (Accept r)"
          using items assms keys
          by (intro complete_parser.loop_complete [OF inner]) (auto simp: no_keys_def)
        moreover have "hd (whitespace (u @ closer object # r)) \<noteq> closer object"
          using complete_parser.items_head [OF inner items, of "closer object # r"] by auto
        ultimately show ?thesis
          using Suc(2) t(2) by (simp add: json_value_nested [OF ws] whitespace_skip)
      qed
    qed
  qed
qed

end
