(* ===== verification/Json_Views.thy ===== *)
theory Json_Views
  imports Json_Accept
begin

text \<open>
  The properties of the JSON reader: parsing returns, accepts exactly the objects of the grammar, and the
  views (\<open>get\<close>, \<open>fields\<close>, \<open>elements\<close>, \<open>next_element\<close>) read the members and elements of the grammar. A quoted
  string is read back.
\<close>

interpretation validator: sound_parser "json_value mem True maximum_depth depth" "json_text (Suc maximum_depth - depth)"
  for mem maximum_depth depth
  by (rule json_value_sound)

interpretation admitted: complete_parser "json_value (\<lambda>_ _. True) validate maximum_depth depth"
  "json_text (Suc maximum_depth - depth)" for validate maximum_depth depth
  by (rule json_value_complete) simp

lemma skip_value_eq: "skip_value = json_value (\<lambda>_ _. True) False 16 1"
  by (rule ext) (simp add: skip_value_def)

interpretation skip: complete_parser skip_value "json_text 16"
  using json_value_complete [of False "\<lambda>_ _. True" 16 1] by (simp add: skip_value_eq)

section \<open>Parsing\<close>

text \<open>The limits of \<open>parse\<close>, before it looks at the text.\<close>

definition parse_admits :: "string \<Rightarrow> nat \<Rightarrow> bool" where
  "parse_admits payload maximum_depth \<longleftrightarrow>
     maximum_depth \<noteq> 0 \<and> maximum_depth \<le> 16 \<and> length payload \<le> 65536 \<and> utf8 payload"

text \<open>C18: parsing always returns, on every payload, under every limit on the nesting, and whatever the memory
  admits: the loops over members consume input and the recursion is bounded.\<close>

theorem parse_returns: "\<exists>result. json_parse mem payload maximum_depth = Some result"
proof -
  obtain x where "json_value mem True maximum_depth 1 (whitespace payload) = Some x"
    using jv.returns by blast
  then show ?thesis by (cases x) (simp_all add: json_parse_def Let_def)
qed

lemma scalar_not_object: "\<not> scalar_text (CHR ''{'' # t)"
  by (auto elim: scalar_text_head)

lemma object_text:
  "json_text (Suc n) (CHR ''{'' # t) \<longleftrightarrow> (\<exists>items. nested_text (json_text n) True items (CHR ''{'' # t))"
proof -
  have "nested_text (json_text n) object items (CHR ''{'' # t) \<Longrightarrow> object" for object items
    by (cases object) (auto simp: nested_text_def opener_def)
  then show ?thesis using scalar_not_object by simp (metis (full_types))
qed

lemma nested_object_head: "nested_text G True items t \<Longrightarrow> \<exists>u. t = CHR ''{'' # u"
  by (auto simp: nested_text_def opener_def)

lemma parse_sound:
  assumes "json_parse mem payload maximum_depth = Some (Some raw)"
  shows "parse_admits payload maximum_depth \<and> (\<exists>w w' items. payload = w @ raw @ w' \<and> blank w \<and> blank w' \<and>
    nested_text (json_text (maximum_depth - 1)) True items raw)"
proof -
  let ?s = "whitespace payload"
  have admits: "parse_admits payload maximum_depth" and head: "?s \<noteq> []" "hd ?s = CHR ''{''"
    using assms by (auto simp: json_parse_def parse_admits_def Let_def split: if_splits)
  obtain result where "json_value mem True maximum_depth 1 ?s = Some result" using jv.returns by blast
  then obtain r where v: "json_value mem True maximum_depth 1 ?s = Some (Accept r)" and r: "whitespace r = []"
    "raw = text_between ?s r"
    using assms by (cases result) (auto simp: json_parse_def Let_def split: if_splits)
  obtain w t where t: "?s = w @ t @ r" "blank w" "json_text (Suc maximum_depth - 1) t"
    using validator.sound [OF v] by blast
  have "w = []"
    using t(1,2) head by (cases w) (auto simp: json_space_def)
  with t head obtain u where u: "t = CHR ''{'' # u" by (cases t) (auto elim: json_text_head)
  obtain items where "nested_text (json_text (maximum_depth - 1)) True items t"
    using t(3) admits unfolding u parse_admits_def
    by (cases maximum_depth) (auto simp: object_text simp del: json_text.simps)
  moreover obtain z where "payload = z @ ?s" "blank z" using whitespace_blank by blast
  moreover have "blank r" using whitespace_blank [of r] r(1) by auto
  moreover have "raw = t" using r(2) t(1) \<open>w = []\<close> by simp
  ultimately show ?thesis
    using admits t(1) \<open>w = []\<close> by (intro conjI exI [of _ z] exI [of _ r] exI [of _ items]) simp_all
qed

text \<open>C17: the reader accepts exactly JSON. With memory for the keys, parsing yields \<open>raw\<close> if and only if the
  payload is valid UTF-8 within the limits and is, but for surrounding white space, the object \<open>raw\<close> of the
  grammar: strings with all escapes, 32-bit integers, literals, at most \<open>maximum_depth\<close> levels, and no
  object anywhere with two members of the same decoded key.\<close>

theorem parse_exact:
  "json_parse (\<lambda>_ _. True) payload maximum_depth = Some (Some raw) \<longleftrightarrow>
     parse_admits payload maximum_depth \<and>
     (\<exists>w w' items. payload = w @ raw @ w' \<and> blank w \<and> blank w' \<and>
        nested_text (json_text (maximum_depth - 1)) True items raw)"
proof
  assume "json_parse (\<lambda>_ _. True) payload maximum_depth = Some (Some raw)"
  then show "parse_admits payload maximum_depth \<and> (\<exists>w w' items. payload = w @ raw @ w' \<and> blank w \<and> blank w' \<and>
        nested_text (json_text (maximum_depth - 1)) True items raw)"
    by (rule parse_sound)
next
  assume "parse_admits payload maximum_depth \<and> (\<exists>w w' items. payload = w @ raw @ w' \<and> blank w \<and> blank w' \<and>
        nested_text (json_text (maximum_depth - 1)) True items raw)"
  then obtain w w' items where admits: "parse_admits payload maximum_depth"
    and w: "payload = w @ raw @ w'" "blank w" "blank w'"
    and raw: "nested_text (json_text (maximum_depth - 1)) True items raw" by blast
  obtain u where u: "raw = CHR ''{'' # u" using nested_object_head [OF raw] by blast
  have ws: "whitespace payload = raw @ w'"
    using w(1,2) u by (simp add: whitespace_skip json_space_def)
  obtain n where n: "maximum_depth = Suc n" using admits by (cases maximum_depth) (auto simp: parse_admits_def)
  have "json_text (Suc maximum_depth - 1) raw"
    using raw n by auto
  then have "json_value (\<lambda>_ _. True) True maximum_depth 1 ([] @ raw @ w') = Some (Accept w')"
    using ends_blank [OF w(3), of "[]"] by (intro admitted.complete) auto
  moreover have "whitespace w' = []"
    using whitespace_skip [OF w(3), of "[]"] by simp
  moreover have "payload \<noteq> []" using w(1) u by simp
  ultimately show "json_parse (\<lambda>_ _. True) payload maximum_depth = Some (Some raw)"
    using ws u admits by (simp add: json_parse_def parse_admits_def del: append_Cons)
qed

text \<open>C20: a string written by \<open>quote\<close>, whatever its bytes, is read back exactly, at any place of a text.\<close>

theorem quote_roundtrip: "string_token (json_quote s @ rest) = (s, Some rest)"
proof -
  have "string_text s (json_quote s)"
    using json_chars_quoted [of s] by (auto simp: string_text_def json_quote_def)
  then show ?thesis by (rule string_token_complete)
qed

section \<open>Deeper texts\<close>

lemma items_text_mono: "items_text G object items t \<Longrightarrow> (\<And>v. G v \<Longrightarrow> H v) \<Longrightarrow> items_text H object items t"
proof (induction rule: items_text.induct)
  case (one d p w v w')
  then show ?case by (intro items_text.one)
next
  case (more d p w v w' u items t)
  from more.hyps(1,2) more.prems [OF more.hyps(3)] more.hyps(4,5) more.IH [OF more.prems] show ?case
    by (rule items_text.more)
qed

lemma json_text_Suc: "json_text n t \<Longrightarrow> json_text (Suc n) t"
proof (induction n arbitrary: t)
  case (Suc n)
  then consider "scalar_text t" | object items where "nested_text (json_text n) object items t" by auto
  then show ?case
  proof cases
    case 2
    then have "nested_text (json_text (Suc n)) object items t"
      using Suc.IH unfolding nested_text_def by (metis items_text_mono)
    then show ?thesis by (rule json_text_nested)
  qed simp
qed simp

lemma json_text_mono: "n \<le> m \<Longrightarrow> json_text n t \<Longrightarrow> json_text m t"
  by (induction m rule: dec_induct) (auto intro: json_text_Suc simp del: json_text.simps)

lemma text_start: "blank w \<Longrightarrow> json_text n x \<Longrightarrow> whitespace (w @ x @ s) = x @ s"
  by (auto simp: whitespace_skip elim: json_text_head)

lemma ends_close: "blank w \<Longrightarrow> c = closer object \<or> c = CHR '','' \<Longrightarrow> ends (w @ c # r)"
  by (intro ends_blank) auto

section \<open>Objects\<close>

lemma member_token:
  assumes "key_text True d p"
  obtains q where "string_token (p @ s) = (d, Some q)" "whitespace q = CHR '':'' # s" "p @ s \<noteq> []"
    "hd (p @ s) \<noteq> CHR ''}''"
proof -
  obtain k w where k: "string_text d k" "blank w" "p = k @ w @ '':''"
    using assms by (auto simp: key_text_def)
  then have "string_token (p @ s) = (d, Some (w @ CHR '':'' # s))"
    using string_token_complete [OF k(1), of "w @ CHR '':'' # s"] by simp
  then show thesis
    by (rule that) (use k in \<open>auto simp: whitespace_skip string_text_def\<close>)
qed

lemma get_item:
  assumes "key_text True d p" "blank w" "json_text 16 x" "blank w'" "c = closer True \<or> c = CHR '',''"
  shows "get_loop key (p @ w @ x @ w' @ c # r) =
    (if d = key then Some (Some x) else if c = CHR ''}'' then Some None else get_loop key (whitespace r))"
proof -
  let ?r = "w' @ c # r"
  obtain q where q: "string_token (p @ w @ x @ ?r) = (d, Some q)" "whitespace q = CHR '':'' # w @ x @ ?r"
    "p @ w @ x @ ?r \<noteq> []" "hd (p @ w @ x @ ?r) \<noteq> CHR ''}''"
    using member_token [OF assms(1)] by metis
  have "skip_value ([] @ x @ ?r) = Some (Accept ?r)"
    using assms by (intro skip.complete ends_close) simp_all
  moreover have "whitespace ?r = c # r"
    using assms(4,5) by (auto simp: whitespace_skip)
  ultimately show ?thesis
    using q text_start [OF assms(2,3)]
    by (subst get_loop.simps) (simp del: append_assoc)
qed

lemma fields_item:
  assumes "key_text True d p" "blank w" "json_text 16 x" "blank w'" "c = closer True \<or> c = CHR '',''"
  shows "fields_loop allowed (p @ w @ x @ w' @ c # r) =
    (if d \<notin> set allowed then Some False else if c = CHR ''}'' then Some True else fields_loop allowed (whitespace r))"
proof -
  let ?r = "w' @ c # r"
  obtain q where q: "string_token (p @ w @ x @ ?r) = (d, Some q)" "whitespace q = CHR '':'' # w @ x @ ?r"
    "p @ w @ x @ ?r \<noteq> []" "hd (p @ w @ x @ ?r) \<noteq> CHR ''}''"
    using member_token [OF assms(1)] by metis
  have "skip_value (w @ x @ ?r) = Some (Accept ?r)"
    using assms by (intro skip.complete ends_close) simp_all
  moreover have "whitespace ?r = c # r"
    using assms(4,5) by (auto simp: whitespace_skip)
  ultimately show ?thesis
    using q by (subst fields_loop.simps) simp
qed

lemma object_start: "items_text (json_text 16) True items t \<Longrightarrow> whitespace (t @ r) = t @ r"
  by (induction rule: items_text.induct) (auto simp: key_text_def string_text_def)

lemma get_items: "items_text (json_text 16) True items t \<Longrightarrow> get_loop key (t @ CHR ''}'' # r) = Some (map_of items key)"
proof (induction rule: items_text.induct)
  case (one d p w x w')
  then show ?case using get_item [OF one(1-4), of "CHR ''}''"] by (simp add: closer_def)
next
  case (more d p w x w' u items t)
  then show ?case
    using get_item [OF more(1-4), of "CHR '',''"] object_start [OF more(6)] by (simp add: whitespace_skip)
qed

lemma fields_items:
  "items_text (json_text 16) True items t \<Longrightarrow>
   fields_loop allowed (t @ CHR ''}'' # r) = Some (fst ` set items \<subseteq> set allowed)"
proof (induction rule: items_text.induct)
  case (one d p w x w')
  then show ?case using fields_item [OF one(1-4), of "CHR ''}''"] by (simp add: closer_def)
next
  case (more d p w x w' u items t)
  then show ?case
    using fields_item [OF more(1-4), of "CHR '',''"] object_start [OF more(6)] by (simp add: whitespace_skip)
qed

lemma object_parts:
  assumes "nested_text (json_text n) True items raw" "n \<le> 16"
  obtains w u where "raw = CHR ''{'' # w @ u @ ''}''" "blank w" "distinct (map fst items)"
    "items = [] \<and> u = [] \<or> items_text (json_text 16) True items u"
  using assms json_text_mono [OF assms(2)] items_text_mono [of "json_text n" True items]
  unfolding nested_text_def opener_def closer_def by (metis (full_types))

lemma json_get_object:
  assumes "nested_text (json_text n) True items raw" "n \<le> 16"
  shows "json_get raw key = Some (map_of items key)"
proof -
  obtain w u where raw: "raw = CHR ''{'' # w @ u @ ''}''" "blank w"
    and u: "items = [] \<and> u = [] \<or> items_text (json_text 16) True items u"
    using object_parts [OF assms] by metis
  have "get_loop key (whitespace (u @ ''}'')) = Some (map_of items key)"
    using u
  proof (elim disjE conjE)
    assume "items_text (json_text 16) True items u"
    then show ?thesis using get_items [of items u key "[]"] object_start [of items u "''}''"] by simp
  qed (simp add: get_loop.simps json_space_def)
  with raw show ?thesis by (simp add: json_get_def json_type_def whitespace_skip)
qed

lemma all_present_object:
  assumes "nested_text (json_text n) True items raw" "n \<le> 16"
  shows "all_present raw keys = Some (set keys \<subseteq> fst ` set items)"
proof (induction keys)
  case (Cons key keys)
  have "map_of items key = None \<longleftrightarrow> key \<notin> fst ` set items" by (rule map_of_eq_None_iff)
  with Cons show ?case by (simp add: json_get_object [OF assms])
qed simp

text \<open>C19: the views of an object are its finite map. For every object with at most 16 levels, at any depth of
  an accepted payload, \<open>get\<close> finds exactly the text of the member with the given decoded key, and
  \<open>fields\<close> accepts exactly when all required keys are there and no key is outside the required and
  optional ones; neither reads outside the text.\<close>

theorem object_views:
  assumes "nested_text (json_text n) True items raw" "n \<le> 15"
  shows "json_get raw key = Some (map_of items key) \<and>
    json_fields raw required optional =
      Some (set required \<subseteq> fst ` set items \<and> fst ` set items \<subseteq> set required \<union> set optional)"
proof -
  have n: "n \<le> 16" using assms(2) by simp
  obtain w u where raw: "raw = CHR ''{'' # w @ u @ ''}''" "blank w"
    and u: "items = [] \<and> u = [] \<or> items_text (json_text 16) True items u"
    using object_parts [OF assms(1) n] by metis
  have "fields_loop (required @ optional) (whitespace (u @ ''}'')) =
      Some (fst ` set items \<subseteq> set required \<union> set optional)"
    using u
  proof (elim disjE conjE)
    assume "items_text (json_text 16) True items u"
    then show ?thesis
      using fields_items [of items u "required @ optional" "[]"] object_start [of items u "''}''"] by simp
  qed (simp add: fields_loop.simps json_space_def)
  then have "json_fields raw required optional = Some (set required \<subseteq> fst ` set items \<and>
      fst ` set items \<subseteq> set required \<union> set optional)"
    unfolding json_fields_def all_present_object [OF assms(1) n]
    using raw by (simp add: json_type_def whitespace_skip)
  then show ?thesis by (simp add: json_get_object [OF assms(1) n])
qed

definition sample_object :: string where
  "sample_object = CHR ''{'' # [quote_char] @ ''a'' @ [quote_char] @ '': 1}''"

lemma sample_object_text: "nested_text (json_text 0) True [(''a'', ''1'')] sample_object"
proof -
  have "json_chars ''a'' ''a''"
    by (intro json_chars.plain json_chars.empty) (simp_all add: byte_of_def)
  then have "string_text ''a'' ([quote_char] @ ''a'' @ [quote_char])"
    by (simp add: string_text_def)
  then have "key_text True ''a'' ([quote_char] @ ''a'' @ [quote_char] @ '':'')"
    by (simp add: key_text_def)
      (intro exI [of _ "[quote_char, CHR ''a'', quote_char]"] conjI exI [of _ "[]"]; simp)
  moreover have "number_text ''1''"
    unfolding number_text_def
    by (rule exI [of _ False], rule exI [of _ "''1''"])
      (simp add: digit_char_def less_eq_char_def digits_value_def byte_of_def)
  then have "json_text 0 ''1''" by (simp add: scalar_text_def)
  ultimately have "items_text (json_text 0) True [(''a'', ''1'')]
      (([quote_char] @ ''a'' @ [quote_char] @ '':'') @ '' '' @ ''1'' @ '''')"
    by (intro items_text.one) (simp_all add: json_space_def)
  then show ?thesis
    unfolding nested_text_def sample_object_def
    by (intro exI [of _ "[]"] exI [of _ "([quote_char] @ ''a'' @ [quote_char] @ '':'') @ '' '' @ ''1'' @ ''''"])
      (simp add: opener_def closer_def)
qed

theorem object_views_witness:
  "json_get sample_object ''a'' = Some (Some ''1'') \<and> json_get sample_object ''b'' = Some None \<and>
   json_fields sample_object [''b''] [''a''] = Some False"
  using object_views [OF sample_object_text, of "''a''" "[''b'']" "[''a'']"]
    object_views [OF sample_object_text, of "''b''" "[]" "[]"] by simp

section \<open>Arrays\<close>

lemma array_key: "key_text False d p \<Longrightarrow> d = [] \<and> p = []"
  by (simp add: key_text_def)

lemma elements_item:
  assumes "json_text 16 x" "blank w'" "c = closer False \<or> c = CHR '',''"
  shows "elements_loop limit out (x @ w' @ c # r) =
    (if length (out @ [x]) > limit \<or> c = CHR '']'' then Some (out @ [x])
     else elements_loop limit (out @ [x]) (whitespace r))"
proof -
  let ?r = "w' @ c # r"
  have "x @ ?r \<noteq> []" "hd (x @ ?r) \<noteq> CHR '']''"
    using assms(1) by (auto elim!: json_text_head)
  moreover have "skip_value (x @ ?r) = Some (Accept ?r)"
    using skip.complete [of "[]" x ?r] assms ends_close [of w' c False r] by simp
  moreover have "whitespace ?r = c # r" "text_between (x @ ?r) ?r = x"
    using assms(2,3) by (auto simp: whitespace_skip)
  ultimately show ?thesis
    by (cases "c = CHR '']''"; subst elements_loop.simps; simp del: append_is_Nil_conv)
qed

lemma elements_items:
  assumes "items_text (json_text 16) False items t" "length out \<le> limit"
  shows "elements_loop limit out (whitespace (t @ CHR '']'' # r)) = Some (take (Suc limit) (out @ map snd items))"
  using assms
proof (induction arbitrary: out rule: items_text.induct)
  case (one d p w x w')
  then show ?case
    using elements_item [OF one(3,4), of "CHR '']''"] array_key [OF one(1)] text_start [OF one(2,3)]
    by (simp add: closer_def)
next
  case (more d p w x w' u items t)
  then show ?case
    using elements_item [OF more(3,4), of "CHR '',''"] array_key [OF more(1)] text_start [OF more(2,3)]
    by (cases "length out < limit") (simp_all add: whitespace_skip Suc_diff_le Suc_diff_Suc)
qed

lemma array_parts:
  assumes "nested_text (json_text n) False items raw" "n \<le> 16"
  obtains w u where "raw = CHR ''['' # w @ u @ '']''" "blank w"
    "items = [] \<and> u = [] \<or> items_text (json_text 16) False items u"
  using assms json_text_mono [OF assms(2)] items_text_mono [of "json_text n" False items]
  unfolding nested_text_def opener_def closer_def by (metis (full_types))

text \<open>The traversal of an array with \<open>next_element\<close>, as its callers write it.\<close>

partial_function (option) traverse :: "string \<Rightarrow> nat \<Rightarrow> string list option" where
  "traverse raw cursor = Option.bind (next_element raw cursor) (\<lambda>found.
     case found of
       None \<Rightarrow> Some []
     | Some (x, cursor') \<Rightarrow> Option.bind (traverse raw cursor') (\<lambda>rest. Some (x # rest)))"

lemma next_element_item:
  assumes "json_text 16 x" "blank w'" "c = closer False \<or> c = CHR '',''" "json_type raw = CHR ''[''"
    "raw = q @ s" "q \<noteq> []" "whitespace s = x @ w' @ c # r"
  shows "next_element raw (length q) =
    Some (Some (x, length raw - length (if c = CHR '','' then r else c # r)))"
proof -
  let ?r = "w' @ c # r"
  have "x @ ?r \<noteq> []" "hd (x @ ?r) \<noteq> CHR '']''"
    using assms(1) by (auto elim!: json_text_head)
  moreover have "skip_value (x @ ?r) = Some (Accept ?r)"
    using skip.complete [of "[]" x ?r] assms ends_close [of w' c False r] by simp
  moreover have "whitespace ?r = c # r" "text_between (x @ ?r) ?r = x" "c = CHR '']'' \<or> c = CHR '',''"
    using assms(2,3) by (auto simp: whitespace_skip closer_def)
  moreover have "whitespace (drop (length q) raw) = x @ ?r"
    using assms(5,7) by simp
  ultimately show ?thesis
    using assms(4,6) by (cases "c = CHR '']''"; simp add: next_element_def Let_def del: append_is_Nil_conv)
qed

lemma next_element_end:
  assumes "json_type raw = CHR ''[''" "raw = q @ s" "q \<noteq> []" "whitespace s = CHR '']'' # r"
  shows "next_element raw (length q) = Some None"
  using assms by (simp add: next_element_def)

lemma traverse_items:
  assumes "items_text (json_text 16) False items t" "json_type raw = CHR ''[''" "raw = q @ s" "q \<noteq> []"
    "whitespace s = whitespace (t @ CHR '']'' # r)"
  shows "traverse raw (length q) = Some (map snd items)"
  using assms
proof (induction arbitrary: q s rule: items_text.induct)
  case (one d p w x w')
  have s: "whitespace s = x @ w' @ CHR '']'' # r"
    using one.prems(4) array_key [OF one(1)] text_start [OF one(2,3)] by simp
  obtain z where "s = z @ whitespace s" using whitespace_blank by blast
  with s one.prems(2) have raw: "raw = (q @ z @ x @ w') @ CHR '']'' # r" by simp
  have "next_element raw (length q) =
      Some (Some (x, length raw - length (if CHR '']'' = CHR '','' then r else CHR '']'' # r)))"
    by (rule next_element_item [OF one(3,4) _ one.prems(1-3) s]) (simp add: closer_def)
  also have "\<dots> = Some (Some (x, length (q @ z @ x @ w')))" by (simp add: raw)
  finally have "next_element raw (length q) = Some (Some (x, length (q @ z @ x @ w')))" .
  moreover have "next_element raw (length (q @ z @ x @ w')) = Some None"
    using one.prems(1,3) raw by (intro next_element_end [OF _ raw]) (simp_all add: json_space_def)
  then have "traverse raw (length (q @ z @ x @ w')) = Some []"
    by (simp add: traverse.simps [of raw "length (q @ z @ x @ w')"] del: length_append)
  ultimately show ?case
    by (simp add: traverse.simps [of raw "length q"])
next
  case (more d p w x w' u items t)
  let ?s = "u @ t @ CHR '']'' # r"
  have s: "whitespace s = x @ w' @ CHR '','' # ?s"
    using more.prems(4) array_key [OF more(1)] text_start [OF more(2,3)] by simp
  obtain z where "s = z @ whitespace s" using whitespace_blank by blast
  with s more.prems(2) have raw: "raw = (q @ z @ x @ w' @ '','') @ ?s" by simp
  have "next_element raw (length q) =
      Some (Some (x, length raw - length (if CHR '','' = CHR '','' then ?s else CHR '','' # ?s)))"
    by (rule next_element_item [OF more(3,4) _ more.prems(1-3) s]) simp
  also have "\<dots> = Some (Some (x, length (q @ z @ x @ w' @ '','')))" by (simp add: raw)
  finally have "next_element raw (length q) = Some (Some (x, length (q @ z @ x @ w' @ '','')))" .
  moreover have "traverse raw (length (q @ z @ x @ w' @ '','')) = Some (map snd items)"
    by (rule more.IH [OF more.prems(1) raw]) (use more(5) in \<open>simp_all add: whitespace_skip\<close>)
  ultimately show ?case
    by (simp add: traverse.simps [of raw "length q"])
qed

text \<open>The views of an array are its list of elements. For every array with at most 16 levels, \<open>elements\<close>
  returns its elements in order, cut one past the limit so that the caller sees the excess, and the traversal
  with \<open>next_element\<close> visits all of them.\<close>

theorem array_views:
  assumes "nested_text (json_text n) False items raw" "n \<le> 15"
  shows "elements limit raw = Some (take (Suc limit) (map snd items)) \<and> traverse raw 0 = Some (map snd items)"
proof -
  have n: "n \<le> 16" using assms(2) by simp
  obtain w u where raw: "raw = CHR ''['' # w @ u @ '']''" "blank w"
    and u: "items = [] \<and> u = [] \<or> items_text (json_text 16) False items u"
    using array_parts [OF assms(1) n] by metis
  have "elements_loop limit [] (whitespace (u @ '']'')) = Some (take (Suc limit) (map snd items))"
    using u
  proof (elim disjE conjE)
    assume "items_text (json_text 16) False items u"
    then show ?thesis using elements_items [of items u "[]" limit "[]"] by simp
  qed (simp add: elements_loop.simps json_space_def)
  with raw have "elements limit raw = Some (take (Suc limit) (map snd items))"
    by (simp add: elements_def json_type_def whitespace_skip)
  moreover have "traverse raw 0 = traverse raw (length ''['')"
    by (simp add: traverse.simps [of raw 0] traverse.simps [of raw "Suc 0"] next_element_def)
  moreover have "traverse raw (length ''['') = Some (map snd items)"
    using u
  proof (elim disjE conjE)
    assume "items_text (json_text 16) False items u"
    then show ?thesis
      using raw by (intro traverse_items [of items u raw _ "w @ u @ '']''" "[]"])
        (simp_all add: json_type_def whitespace_skip)
  next
    assume "items = []" "u = []"
    then have "next_element raw (length ''['') = Some None"
      using raw by (intro next_element_end [of raw _ "w @ '']''" "[]"])
        (simp_all add: json_type_def whitespace_skip json_space_def)
    with \<open>items = []\<close> show ?thesis by (simp add: traverse.simps [of raw "Suc 0"])
  qed
  ultimately show ?thesis by simp
qed

definition sample_array :: string where
  "sample_array = ''[true,null ]''"

lemma sample_array_text: "nested_text (json_text 0) False [([], ''true''), ([], ''null'')] sample_array"
proof -
  have "items_text (json_text 0) False [([], ''null'')] ('''' @ '''' @ ''null'' @ '' '')"
    by (intro items_text.one) (simp_all add: key_text_def scalar_text_def json_space_def)
  then have "items_text (json_text 0) False [([], ''true''), ([], ''null'')]
      ('''' @ '''' @ ''true'' @ '''' @ '','' @ '''' @ ('''' @ '''' @ ''null'' @ '' ''))"
    by (intro items_text.more) (simp_all add: key_text_def scalar_text_def)
  then show ?thesis
    unfolding nested_text_def sample_array_def by (intro exI [of _ "''true,null ''"] exI [of _ "[]"]) (auto simp: opener_def closer_def)
qed

theorem array_views_witness:
  "elements 0 sample_array = Some [''true''] \<and> elements 512 sample_array = Some [''true'', ''null''] \<and>
   traverse sample_array 0 = Some [''true'', ''null'']"
  using array_views [OF sample_array_text, of 0] array_views [OF sample_array_text, of 512] by simp

end
