(* ===== verification/Codec_Facts.thy ===== *)
theory Codec_Facts
  imports Wtp_Codec Json_Views
begin

text \<open>
  What decoding of requests guarantees: what a decoded LOAD contains, and that recognising a retried LOAD by
  its digest, without storing its events, makes no difference to the answer of the job service.
\<close>

section \<open>Traversals return\<close>

lemma next_element_defined: "\<exists>found. next_element raw cursor = Some found"
proof -
  obtain result where "skip_value (whitespace (drop (if cursor = 0 then 1 else cursor) raw)) = Some result"
    using skip.returns by blast
  then show ?thesis by (cases result) (simp_all add: next_element_def Let_def)
qed

lemma next_element_advances:
  assumes "next_element raw cursor = Some (Some (x, cursor'))"
  shows "cursor < cursor' \<and> cursor' \<le> length raw"
proof -
  define from_here where "from_here = (if cursor = 0 then 1 else cursor)"
  let ?s = "whitespace (drop from_here raw)"
  obtain result where result: "skip_value ?s = Some result" using skip.returns by blast
  then obtain r where r: "skip_value ?s = Some (Accept r)" "?s \<noteq> []"
    and c: "cursor' = length raw - length (if hd (whitespace r) = CHR '','' then tl (whitespace r) else whitespace r)"
    using assms by (cases result) (auto simp: next_element_def Let_def from_here_def split: if_splits)
  have "length (whitespace r) \<le> length r" "length ?s \<le> length (drop from_here raw)"
    by (rule suffix_length_le [OF whitespace_suffix])+
  moreover have "length r < length ?s"
    using skip.consumes [OF r(1)] by (rule suffix_length_less)
  ultimately have "length (if hd (whitespace r) = CHR '','' then tl (whitespace r) else whitespace r) <
      length raw - from_here"
    by auto
  with c show ?thesis by (auto simp: from_here_def split: if_splits)
qed

text \<open>The elements visited from a cursor on.\<close>

function elements_from :: "string \<Rightarrow> nat \<Rightarrow> string list" where
  "elements_from raw cursor =
     (case next_element raw cursor of
        Some (Some (x, cursor')) \<Rightarrow> x # elements_from raw cursor'
      | _ \<Rightarrow> [])"
  by pat_completeness auto
termination
  by (relation "measure (\<lambda>(raw, cursor). length raw - cursor)") (auto dest: next_element_advances)

declare elements_from.simps [simp del]

lemma elements_from_cases:
  obtains (stop) "next_element raw cursor = Some None" "elements_from raw cursor = []"
  | (step) x cursor' where "next_element raw cursor = Some (Some (x, cursor'))"
      "elements_from raw cursor = x # elements_from raw cursor'"
proof -
  obtain found where found: "next_element raw cursor = Some found" using next_element_defined by blast
  show thesis
  proof (cases found)
    case None
    with found stop show thesis by (simp add: elements_from.simps [of raw cursor])
  next
    case (Some p)
    with found step show thesis by (cases p) (simp add: elements_from.simps [of raw cursor])
  qed
qed

lemma traverse_elements: "traverse raw cursor = Some (elements_from raw cursor)"
proof (induction raw cursor rule: elements_from.induct)
  case (1 raw cursor)
  show ?case
    by (cases raw cursor rule: elements_from_cases) (simp_all add: traverse.simps [of raw cursor] 1)
qed

lemma count_events_eq:
  "n \<le> 512 \<Longrightarrow> count_events raw cursor n =
     Some (if n + length (elements_from raw cursor) > 512 then None else Some (n + length (elements_from raw cursor)))"
proof (induction raw cursor arbitrary: n rule: elements_from.induct)
  case (1 raw cursor)
  show ?case
  proof (cases raw cursor rule: elements_from_cases)
    case stop
    with 1(2) show ?thesis by (simp add: count_events.simps [of raw cursor])
  next
    case (step x cursor')
    with 1(2) show ?thesis
      by (cases "n = 512") (simp_all add: count_events.simps [of raw cursor] 1(1) [OF step(1) refl refl])
  qed
qed

section \<open>Events\<close>

definition decode_events :: "string list \<Rightarrow> rf_event list option" where
  "decode_events es =
     (if list_all (\<lambda>e. decode_event e \<noteq> None) es then Some (map (\<lambda>e. the (decode_event e)) es) else None)"

lemma decode_events_simps [simp]:
  "decode_events [] = Some []"
  "decode_events (e # es) =
     (case decode_event e of None \<Rightarrow> None | Some event \<Rightarrow> map_option ((#) event) (decode_events es))"
  by (auto simp: decode_events_def split: option.split)

lemma load_events_digest:
  "load_events grant True raw cursor l d =
     Some (case decode_events (elements_from raw cursor) of
             None \<Rightarrow> BadEvent | Some es \<Rightarrow> Digested (fold digest_event es d))"
proof (induction raw cursor arbitrary: d rule: elements_from.induct)
  case (1 raw cursor)
  show ?case
  proof (cases raw cursor rule: elements_from_cases)
    case stop
    then show ?thesis by (simp add: load_events.simps [of _ _ raw cursor])
  next
    case (step x cursor')
    then show ?thesis
      by (cases "decode_event x")
        (simp_all add: load_events.simps [of _ _ raw cursor] 1 [OF step(1) refl refl] split: option.split)
  qed
qed

lemma reserve_pages_granted: "fst (reserve_pages (\<lambda>_. True) ps l)"
  by (induction "\<lambda>_ :: nat. True" ps l rule: reserve_pages.induct) auto

lemma reserve_granted: "n \<le> 512 \<Longrightarrow> fst (reserve_events (\<lambda>_. True) n l)"
  by (simp add: reserve_events_def maximum_events_def reserve_pages_granted)

text \<open>Once the pages are held, storing asks for no more memory.\<close>

lemma reserve_pages_held: "\<forall>p \<in> set ps. pages l ! p \<noteq> None \<Longrightarrow> reserve_pages grant ps l = (True, l)"
  by (induction grant ps l rule: reserve_pages.induct) auto

lemma reserve_held:
  assumes "holds_room l n" "n \<le> 512"
  shows "reserve_events grant n l = (True, l)"
proof -
  have "pages l ! p \<noteq> None" if "p < (n + 63) div 64" for p
    using assms that by (simp add: holds_room_def)
  then show ?thesis
    using assms(2) by (simp add: reserve_events_def maximum_events_def page_events_def reserve_pages_held)
qed

lemma push_held:
  assumes "holds_room l n" "event_count l < n" "n \<le> 512"
  shows "push_back grant e l = (True, construct_at_end e l)"
proof -
  have "holds_room l (event_count l + 1)" using assms(1,2) by (simp add: holds_room_def)
  then show ?thesis
    using assms(2,3) reserve_held [of l "event_count l + 1" grant] by (simp add: push_back_def maximum_events_def)
qed

lemma load_events_store:
  assumes "events_ok l" "holds_room l n" "n = event_count l + length (elements_from raw cursor)" "n \<le> 512"
  shows "\<exists>r. load_events grant False raw cursor l d = Some r \<and>
    (case decode_events (elements_from raw cursor) of
       None \<Rightarrow> r = BadEvent
     | Some es \<Rightarrow> \<exists>l'. r = Stored l' \<and> events_ok l' \<and> items l' = items l @ es \<and> list_failure l' = list_failure l)"
  using assms
proof (induction raw cursor arbitrary: l rule: elements_from.induct)
  case (1 raw cursor)
  show ?case
  proof (cases raw cursor rule: elements_from_cases)
    case stop
    with 1(2) show ?thesis by (simp add: load_events.simps [of _ _ raw cursor])
  next
    case (step x cursor')
    show ?thesis
    proof (cases "decode_event x")
      case None
      with step show ?thesis by (simp add: load_events.simps [of _ _ raw cursor])
    next
      case (Some e)
      have room: "event_count l < n" using 1(4) step by simp
      note k = construct_keeps [OF 1(2) room 1(5,3), of e]
      have "n = event_count (construct_at_end e l) + length (elements_from raw cursor')" using 1(4) step k(5) by simp
      from 1(1) [OF step(1) refl refl k(1,3) this 1(5)] step Some push_held [OF 1(3) room 1(5), of grant e] k(2,4)
      show ?thesis
        by (cases "decode_events (elements_from raw cursor')") (auto simp: load_events.simps [of _ _ raw cursor])
    qed
  qed
qed

section \<open>LOAD\<close>

text \<open>What decoding a LOAD means: the events are the decoded elements, between 1 and 512 of them.\<close>

definition load_means :: "string \<Rightarrow> (job \<times> rf_event list) option" where
  "load_means b =
     (case decode_load_header b of
        None \<Rightarrow> None
      | Some j \<Rightarrow>
          (let es = elements_from (value_of b ''events'') 0 in
           if es = [] \<or> length es > 512 then None
           else map_option (\<lambda>events. (j, events)) (decode_events es)))"

lemma header_events: "decode_load_header b = Some j \<Longrightarrow> events j = no_events"
  by (auto simp: decode_load_header_def Let_def split: if_splits option.splits)

lemma decode_events_length: "decode_events xs = Some es \<Longrightarrow> length es = length xs"
  by (auto simp: decode_events_def split: if_splits)

lemma decode_load_count:
  assumes "decode_load_header b = Some j"
  shows "count_events (value_of b ''events'') 0 0 =
    Some (if length (elements_from (value_of b ''events'') 0) > 512 then None
          else Some (length (elements_from (value_of b ''events'') 0)))"
  by (simp add: count_events_eq)

lemma decode_load_plain:
  assumes "\<And>j. decode_load_header b = Some j \<Longrightarrow> ident = [] \<or> job_id j \<noteq> ident"
  shows "case load_means b of
      None \<Rightarrow> decode_load (\<lambda>_. True) b ident = (False, NoBody)
    | Some (j, es) \<Rightarrow> \<exists>l. events_ok l \<and> items l = es \<and> decode_load (\<lambda>_. True) b ident = (True, JobBody (j\<lparr>events := l\<rparr>))"
proof (cases "decode_load_header b")
  case None
  then show ?thesis by (simp add: load_means_def decode_load_def)
next
  case (Some j)
  let ?raw = "value_of b ''events''"
  let ?n = "length (elements_from ?raw 0)"
  have plain: "\<not> (ident \<noteq> [] \<and> job_id j = ident)" using assms [OF Some] by blast
  consider "?n = 0" | "?n > 512" | "0 < ?n" "?n \<le> 512" by linarith
  then show ?thesis
  proof cases
    case 3
    obtain l where l: "reserve_events (\<lambda>_. True) ?n (events j) = (True, l)"
      using reserve_granted [OF 3(2), of "events j"] by (metis prod.collapse)
    have e: "events_ok (events j)" "items (events j) = []" using header_events [OF Some] by simp_all
    have k: "events_ok l" "items l = []" "holds_room l ?n"
      using reserve_keeps(1,2,4) [OF l e(1)] e(2) by simp_all
    then have "event_count l = 0"
      using length_items [of l] by simp
    obtain r where r: "load_events (\<lambda>_. True) False ?raw 0 l (digest_header j ?n) = Some r"
      "case decode_events (elements_from ?raw 0) of
         None \<Rightarrow> r = BadEvent | Some es \<Rightarrow> \<exists>l'. r = Stored l' \<and> events_ok l' \<and> items l' = items l @ es"
      using load_events_store [OF k(1,3), of ?raw 0 "\<lambda>_. True" "digest_header j ?n"] \<open>event_count l = 0\<close> 3(2)
      by (fastforce split: option.splits)
    then show ?thesis
      using 3 Some plain l k(2) decode_load_count [OF Some]
      by (cases "decode_events (elements_from ?raw 0)") (auto simp: decode_load_def load_means_def Let_def)
  qed (use Some decode_load_count [OF Some] in \<open>auto simp: decode_load_def load_means_def Let_def\<close>)
qed

lemma decode_load_replayed:
  assumes "decode_load_header b = Some j" "job_id j \<noteq> []"
  shows "decode_load grant b (job_id j) =
    (case load_means b of
       None \<Rightarrow> (False, NoBody)
     | Some (j, es) \<Rightarrow>
         (True, LoadReplayBody (job_id j) (sha_finish (fold digest_event es (digest_header j (length es))))))"
proof -
  let ?raw = "value_of b ''events''"
  let ?n = "length (elements_from ?raw 0)"
  consider "?n = 0" | "?n > 512" | "0 < ?n" "?n \<le> 512" by linarith
  then show ?thesis
  proof cases
    case 3
    then show ?thesis
      using assms decode_load_count [OF assms(1)]
      by (cases "decode_events (elements_from ?raw 0)")
        (auto simp: decode_load_def load_means_def load_events_digest dest: decode_events_length)
  qed (use assms decode_load_count [OF assms(1)] in \<open>auto simp: decode_load_def load_means_def Let_def\<close>)
qed

text \<open>C22: a retried LOAD is recognised without decoding it again. Decoding with the identifier of the active
  job gives the same verdict as decoding in full, and for a job of that identifier the digest of exactly
  the job that full decoding would have built; any other request is decoded as before.\<close>

theorem replay_recognised:
  "decode_load (\<lambda>_. True) b ident =
     (case decode_load (\<lambda>_. True) b [] of
        (True, JobBody j) \<Rightarrow>
          (True, if ident \<noteq> [] \<and> job_id j = ident then LoadReplayBody ident (job_digest j) else JobBody j)
      | refused \<Rightarrow> refused)"
proof (cases "\<exists>j. decode_load_header b = Some j \<and> ident \<noteq> [] \<and> job_id j = ident")
  case True
  then obtain j where j: "decode_load_header b = Some j" "ident \<noteq> []" "job_id j = ident" by blast
  have full: "case load_means b of
      None \<Rightarrow> decode_load (\<lambda>_. True) b [] = (False, NoBody)
    | Some (j, es) \<Rightarrow> \<exists>l. events_ok l \<and> items l = es \<and> decode_load (\<lambda>_. True) b [] = (True, JobBody (j\<lparr>events := l\<rparr>))"
    by (rule decode_load_plain) simp
  show ?thesis
  proof (cases "load_means b")
    case None
    with full j decode_load_replayed [OF j(1)] show ?thesis by simp
  next
    case (Some p)
    then obtain es where p: "load_means b = Some (j, es)"
      using j(1) by (auto simp: load_means_def Let_def split: if_splits)
    then obtain l where l: "items l = es" "decode_load (\<lambda>_. True) b [] = (True, JobBody (j\<lparr>events := l\<rparr>))"
      using full by auto
    have "event_count l = length es" using l(1) length_items by metis
    then have "job_digest (j\<lparr>events := l\<rparr>) = sha_finish (fold digest_event es (digest_header j (length es)))"
      using l(1) by (simp add: job_digest_def digest_header_def)
    with l(2) p j decode_load_replayed [OF j(1)] show ?thesis by simp
  qed
next
  case False
  have same: "decode_load (\<lambda>_. True) b ident = decode_load (\<lambda>_. True) b []"
  proof (cases "decode_load_header b")
    case (Some j)
    with False have "\<not> (ident \<noteq> [] \<and> job_id j = ident)" by blast
    then have no: "(ident \<noteq> [] \<and> job_id j = ident) = False" "(([] :: string) \<noteq> [] \<and> job_id j = []) = False"
      by simp_all
    show ?thesis
      unfolding decode_load_def Some option.case no ..
  qed (simp add: decode_load_def)
  have "case load_means b of
      None \<Rightarrow> decode_load (\<lambda>_. True) b [] = (False, NoBody)
    | Some (j, es) \<Rightarrow> \<exists>l. events_ok l \<and> items l = es \<and> decode_load (\<lambda>_. True) b [] = (True, JobBody (j\<lparr>events := l\<rparr>))"
    by (rule decode_load_plain) simp
  moreover have "\<not> (ident \<noteq> [] \<and> job_id j = ident)" if "load_means b = Some (j, es)" for j es
    using that False by (auto simp: load_means_def Let_def split: option.splits if_splits)
  ultimately show ?thesis
    unfolding same by (cases "load_means b") auto
qed

text \<open>What an accepted event satisfies.\<close>

definition event_legal :: "rf_event \<Rightarrow> bool" where
  "event_legal e \<longleftrightarrow> duration_ns e \<noteq> 0 \<and> rf_on e = (frequency_nhz e \<noteq> None) \<and> frequency_nhz e \<noteq> Some 0"

definition job_named :: "job \<Rightarrow> bool" where
  "job_named j \<longleftrightarrow> valid_id (job_id j) \<and> profile j = ''rf-events/1'' \<and> mode j \<in> set known_modes \<and>
     total_duration_ns j \<noteq> 0"

definition job_legal :: "job \<Rightarrow> bool" where
  "job_legal j \<longleftrightarrow> job_named j \<and> 1 \<le> event_count (events j) \<and> event_count (events j) \<le> 512 \<and>
     list_all event_legal (items (events j))"

text \<open>A job without events, for want of memory; its list says so, and admission refuses it.\<close>

definition job_unstored :: "(nat \<Rightarrow> bool) \<Rightarrow> job \<Rightarrow> bool" where
  "job_unstored grant j \<longleftrightarrow> job_named j \<and> items (events j) = [] \<and> list_failure (events j) = AllocationFailed \<and>
     (\<exists>page < 8. \<not> grant page)"

lemma decimal_nonzero:
  assumes "json_decimal v True = Some n"
  shows "n \<noteq> 0"
proof -
  let ?s = "json_string v"
  have s: "?s \<noteq> []" "\<not> (length ?s > 1 \<and> hd ?s = CHR ''0'')" "?s \<noteq> ''0''" "list_all digit_char ?s"
    "digits_value ?s < 2 ^ 64" "n = of_nat (digits_value ?s)"
    using assms by (auto simp: json_decimal_def Let_def split: if_splits)
  have "hd ?s \<noteq> CHR ''0''"
  proof
    assume zero: "hd ?s = CHR ''0''"
    with s(1,2) have "?s = [CHR ''0'']"
      by (cases ?s) auto
    with s(3) show False by simp
  qed
  with s have "10 ^ (length ?s - 1) \<le> digits_value ?s" by (intro digits_value_large)
  then have "0 < digits_value ?s" by (rule less_le_trans [rotated]) simp
  with s(5,6) show ?thesis by (auto simp: word_of_nat_eq_0_iff dest: nat_dvd_not_less)
qed

lemma decode_event_legal: "decode_event x = Some e \<Longrightarrow> event_legal e"
  using decimal_nonzero
  by (auto simp: decode_event_def event_legal_def Let_def split: if_splits option.splits)

lemma identifier_valid: "json_identifier v \<Longrightarrow> valid_id (json_string v)"
  by (simp add: json_identifier_def valid_id_def Let_def char_between_def digit_char_def less_eq_char_def split: if_splits)

lemma header_legal:
  assumes "decode_load_header b = Some j"
  shows "job_named j"
  using assms identifier_valid decimal_nonzero
  by (auto simp: job_named_def decode_load_header_def Let_def split: if_splits option.splits)

lemma reserve_pages_refused:
  "\<not> fst (reserve_pages grant ps l) \<Longrightarrow>
     list_failure (snd (reserve_pages grant ps l)) = AllocationFailed \<and> (\<exists>page \<in> set ps. \<not> grant page)"
  by (induction grant ps l rule: reserve_pages.induct) (auto split: if_splits)

lemma reserve_refused:
  assumes "reserve_events grant n l = (False, l')" "n \<le> 512"
  shows "list_failure l' = AllocationFailed \<and> (\<exists>page < 8. \<not> grant page)"
proof -
  have "(n + 63) div 64 \<le> 8" using assms(2) by simp
  moreover have "reserve_pages grant [0..<(n + 63) div 64] l = (False, l')"
    using assms by (simp add: reserve_events_def maximum_events_def page_events_def add.commute)
  ultimately show ?thesis
    using reserve_pages_refused [of grant "[0..<(n + 63) div 64]" l]
    by (metis atLeastLessThan_iff fst_conv less_le_trans set_upt snd_conv)
qed

lemma stored_load_legal:
  assumes "decode_load_header b = Some j" "\<not> (ident \<noteq> [] \<and> job_id j = ident)"
  shows "case decode_load grant b ident of
      (valid, JobBody j) \<Rightarrow> valid \<and> (if valid_events (events j) then job_legal j else job_unstored grant j)
    | (valid, body) \<Rightarrow> \<not> valid \<and> body = NoBody"
proof -
  let ?raw = "value_of b ''events''"
  let ?n = "length (elements_from ?raw 0)"
  note count = decode_load_count [OF assms(1)] and named = header_legal [OF assms(1)]
  have e: "events j = no_events" using header_events [OF assms(1)] .
  consider "?n = 0" | "?n > 512" | "0 < ?n" "?n \<le> 512" by linarith
  then show ?thesis
  proof cases
    case 3
    obtain ok l where l: "reserve_events grant ?n no_events = (ok, l)" by fastforce
    note k = reserve_keeps [OF l events_ok_empty(2)]
    have fresh: "list_failure no_events = NoFailure" "event_count no_events = 0" by (simp_all add: no_events_def)
    show ?thesis
    proof (cases ok)
      case False
      then have "job_unstored grant (j\<lparr>events := l\<rparr>)"
        using reserve_refused [of grant ?n no_events l] l k(2) 3(2) named
        by (simp add: job_unstored_def job_named_def)
      then show ?thesis
        using False assms count 3 l e
        by (auto simp: decode_load_def Let_def valid_events_def job_unstored_def)
    next
      case True
      then have "holds_room l ?n" "event_count l = 0" "items l = []" "list_failure l = NoFailure"
        using k fresh by simp_all
      then obtain r where r: "load_events grant False ?raw 0 l (digest_header j ?n) = Some r"
        "case decode_events (elements_from ?raw 0) of
           None \<Rightarrow> r = BadEvent
         | Some es \<Rightarrow> \<exists>l'. r = Stored l' \<and> events_ok l' \<and> items l' = es \<and> list_failure l' = NoFailure"
        using load_events_store [OF k(1), of ?n ?raw 0 grant "digest_header j ?n"] 3(2)
        by (fastforce split: option.splits)
      show ?thesis
      proof (cases "decode_events (elements_from ?raw 0)")
        case None
        then show ?thesis using r True assms count 3 l e by (auto simp: decode_load_def Let_def)
      next
        case (Some es)
        then obtain l' where l': "r = Stored l'" "items l' = es" "list_failure l' = NoFailure" using r(2) by auto
        have "list_all event_legal es"
          using Some decode_event_legal by (fastforce simp: decode_events_def list_all_iff split: if_splits)
        moreover have "event_count l' = ?n" using l'(2) decode_events_length [OF Some] length_items by metis
        ultimately have "job_legal (j\<lparr>events := l'\<rparr>)"
          using l' named 3 by (simp add: job_legal_def job_named_def Suc_le_eq)
        then show ?thesis
          using r(1) l' True assms count 3 l e by (auto simp: decode_load_def Let_def valid_events_def)
      qed
    qed
  qed (use assms count in \<open>auto simp: decode_load_def Let_def\<close>)
qed

text \<open>C21: a LOAD that decodes is a legal job. Whatever bytes arrive and whatever memory there is, the job
  handed to the service has a valid identifier, a known mode, a positive duration and between 1 and 512
  events, each with a positive duration and a positive frequency exactly when it transmits; or a page of
  the event list was refused, and then the list is empty and marked as failed. A replay body names the
  active job; anything else is refused.\<close>

theorem load_legal:
  "case decode_load grant b ident of
     (valid, JobBody j) \<Rightarrow> valid \<and> (if valid_events (events j) then job_legal j else job_unstored grant j)
   | (valid, LoadReplayBody i digest) \<Rightarrow> valid \<and> i = ident \<and> ident \<noteq> []
   | (valid, body) \<Rightarrow> \<not> valid \<and> body = NoBody"
proof (cases "\<exists>j. decode_load_header b = Some j \<and> ident \<noteq> [] \<and> job_id j = ident")
  case True
  then obtain j where j: "decode_load_header b = Some j" "ident \<noteq> []" "job_id j = ident" by blast
  then show ?thesis using decode_load_replayed [OF j(1), of grant]
    by (auto simp: load_means_def Let_def split: option.split if_splits)
next
  case False
  then show ?thesis
  proof (cases "decode_load_header b")
    case (Some j)
    have "\<not> (ident \<noteq> [] \<and> job_id j = ident)" using False Some by blast
    from stored_load_legal [OF Some this, of grant] show ?thesis
      by (auto split: prod.splits request_body.splits)
  qed (simp add: decode_load_def)
qed

section \<open>The retried LOAD and the job service\<close>

lemma replay_answer:
  assumes "current_job s = Some cur" "job_id cur = job_id j"
  shows "run_state (dispatch_load_replay E (job_id j) (job_digest j)) s = run_state (dispatch_load E j) s"
proof -
  obtain active d where a: "env_output_active E (sv_env s) = (active, d)" by fastforce
  show ?thesis
    using assms
    by (auto simp: dispatch_load_replay_def dispatch_load_def output_active_def act_def a split: option.split)
qed

lemma active_replay:
  assumes "active_load_replay_id s = ident" "ident \<noteq> []"
  shows "\<exists>cur. current_job s = Some cur \<and> job_id cur = ident"
  using assms by (auto simp: active_load_replay_id_def split: option.splits if_splits)

lemma owns_body: "owns t (r\<lparr>req_operation := op, req_body := body, req_body_valid := valid\<rparr>) = owns t r"
  by (cases "current_owner t") (simp_all add: owns_def)

lemma dispatch_load_body:
  "run_state (dispatch E (r\<lparr>req_operation := ''LOAD'', req_body := body, req_body_valid := True\<rparr>)) s =
     (case env_snapshot E (sv_env s) of (now, d) \<Rightarrow>
      let t = s\<lparr>sv_env := d\<rparr> in
      if \<not> owner_body_matches ''LOAD'' body then run_state (reject E InvalidMessage) t
      else if current_owner t = None then run_state (reject E LeaseExpired) t
      else if \<not> owns t r then run_state (reject E NotOwner) t
      else case body of
        LoadReplayBody ident digest \<Rightarrow> run_state (dispatch_load_replay E ident digest) t
      | JobBody j \<Rightarrow> run_state (dispatch_load E j) t
      | _ \<Rightarrow> run_state (reject E InvalidMessage) t)"
proof -
  obtain now d where now: "env_snapshot E (sv_env s) = (now, d)" by fastforce
  show ?thesis
    by (cases body) (simp_all add: dispatch_def snapshot_def act_def now operations_def query_operations_def
        dispatch_owned_def Let_def owns_body)
qed

text \<open>C23: recognising a retried LOAD makes no difference to its answer. In every state of the job service, the
  request decoded with the identifier of the active job is answered exactly as the request decoded in
  full, and leaves the same state behind.\<close>

theorem retried_load_same:
  "run_state (dispatch E (r\<lparr>req_operation := ''LOAD'',
       req_body := snd (decode_load (\<lambda>_. True) b (active_load_replay_id s)),
       req_body_valid := fst (decode_load (\<lambda>_. True) b (active_load_replay_id s))\<rparr>)) s =
   run_state (dispatch E (r\<lparr>req_operation := ''LOAD'', req_body := snd (decode_load (\<lambda>_. True) b []),
       req_body_valid := fst (decode_load (\<lambda>_. True) b [])\<rparr>)) s"
proof (cases "\<exists>j. decode_load (\<lambda>_. True) b [] = (True, JobBody j) \<and> active_load_replay_id s \<noteq> [] \<and>
    job_id j = active_load_replay_id s")
  case True
  then obtain j where j: "decode_load (\<lambda>_. True) b [] = (True, JobBody j)" "job_id j \<noteq> []"
    "active_load_replay_id s = job_id j" by metis
  then have body: "decode_load (\<lambda>_. True) b (job_id j) = (True, LoadReplayBody (job_id j) (job_digest j))"
    using replay_recognised [of b "job_id j"] by simp
  obtain cur where cur: "current_job s = Some cur" "job_id cur = job_id j"
    using active_replay [OF j(3,2)] by blast
  then have "run_state (dispatch_load_replay E (job_id j) (job_digest j)) (s\<lparr>sv_env := d\<rparr>) =
      run_state (dispatch_load E j) (s\<lparr>sv_env := d\<rparr>)" for d
    by (intro replay_answer [of _ cur]) simp_all
  then show ?thesis
    unfolding j(3) body j(1) fst_conv snd_conv dispatch_load_body
    by (cases "current_owner s") (simp_all add: owner_body_matches_def Let_def split: prod.split)
next
  case False
  obtain ok body where full: "decode_load (\<lambda>_. True) b [] = (ok, body)" by fastforce
  have "decode_load (\<lambda>_. True) b (active_load_replay_id s) = (ok, body)"
    using False unfolding full replay_recognised [of b "active_load_replay_id s"]
    by (cases ok; cases body) auto
  then show ?thesis using full by simp
qed

end
