(* ===== verification/Response_Source.thy ===== *)
theory Response_Source
  imports Json
begin

text \<open>
  Response documents that are produced on demand, \<open>src/src/wtp/response_source.hpp\<close>. A source is its virtual
  functions \<open>size\<close>, \<open>copy\<close>, \<open>replayable\<close> and \<open>json_document\<close>: a record of their results, where
  \<open>copy offset n\<close> is what is written into an output of \<open>n\<close> bytes. The window that \<open>at\<close> keeps is a separate
  record. A byte is a \<open>char\<close>.

  The contract of a source is that it stands for one document: \<open>copy\<close> returns any part of it that is
  asked for (\<open>response_document\<close>). Every combinator of the file keeps it.
\<close>

record response_source =
  rs_size :: nat
  rs_copy :: "nat \<Rightarrow> nat \<Rightarrow> string"
  rs_replayable :: bool
  rs_json_document :: bool

section \<open>The output window\<close>

definition window_bytes :: nat where
  "window_bytes = 1024"

record output_window =
  win_capacity :: nat
  win_start :: nat
  win_bytes :: string

definition no_window :: output_window where
  "no_window = \<lparr>win_capacity = 0, win_start = 0, win_bytes = []\<rparr>"

text \<open>\<open>granted\<close>: whether the allocator returns memory.\<close>

definition prepare_output :: "bool \<Rightarrow> output_window \<Rightarrow> bool \<times> output_window" where
  "prepare_output granted w =
     (if window_bytes \<le> win_capacity w then (True, w)
      else if granted then (True, w\<lparr>win_capacity := window_bytes\<rparr>) else (False, w))"

definition release_output :: "output_window \<Rightarrow> output_window" where
  "release_output w = w\<lparr>win_capacity := 0, win_bytes := []\<rparr>"

definition source_at :: "response_source \<Rightarrow> nat \<Rightarrow> output_window \<Rightarrow> string \<times> output_window" where
  "source_at src offset w =
     (if offset \<ge> rs_size src then ([], w)
      else if win_bytes w = [] \<or> offset < win_start w \<or> offset \<ge> win_start w + length (win_bytes w) then
        if win_capacity w < window_bytes then ([], w)
        else (let bytes = rs_copy src offset window_bytes in
              (bytes, w\<lparr>win_bytes := bytes, win_start := offset\<rparr>))
      else (drop (offset - win_start w) (win_bytes w), w))"

section \<open>Sources\<close>

definition copy_text :: "string \<Rightarrow> nat \<Rightarrow> nat \<Rightarrow> string" where
  "copy_text text_bytes offset n =
     (if offset \<ge> length text_bytes then []
      else take (min n (length text_bytes - offset)) (drop offset text_bytes))"

definition text_source :: "string \<Rightarrow> response_source" where
  "text_source t = \<lparr>rs_size = length t, rs_copy = copy_text t, rs_replayable = True, rs_json_document = False\<rparr>"

definition joined_copy :: "string \<Rightarrow> response_source \<Rightarrow> string \<Rightarrow> nat \<Rightarrow> nat \<Rightarrow> string" where
  "joined_copy prefix_text body suffix_text start n =
     (let first = (if start < length prefix_text then copy_text prefix_text start n else []);
          offset = start + length first;
          second = (if length first < n \<and> offset \<ge> length prefix_text \<and>
                       offset - length prefix_text < rs_size body
                    then rs_copy body (offset - length prefix_text) (n - length first) else []);
          offset = offset + length second;
          found = first @ second
      in if length found < n \<and> offset \<ge> length prefix_text + rs_size body
         then found @ copy_text suffix_text (offset - length prefix_text - rs_size body) (n - length found)
         else found)"

definition joined_source :: "string \<Rightarrow> response_source \<Rightarrow> string \<Rightarrow> bool \<Rightarrow> response_source" where
  "joined_source prefix_text body suffix_text json =
     \<lparr>rs_size = length prefix_text + rs_size body + length suffix_text,
      rs_copy = joined_copy prefix_text body suffix_text,
      rs_replayable = rs_replayable body, rs_json_document = json\<rparr>"

definition sliced_source :: "response_source \<Rightarrow> nat \<Rightarrow> response_source" where
  "sliced_source src start =
     \<lparr>rs_size = (if start \<le> rs_size src then rs_size src - start else 0),
      rs_copy = (\<lambda>offset. rs_copy src (offset + start)),
      rs_replayable = rs_replayable src, rs_json_document = False\<rparr>"

section \<open>Escaping\<close>

definition response_escape :: "char \<Rightarrow> string" where
  "response_escape c =
     (if c = quote_char then [backslash, quote_char]
      else if c = backslash then [backslash, backslash]
      else if byte_of c < 32 then
        backslash # ''u00'' @ [lower_hex (drop_bit 4 (byte_of c)), lower_hex (byte_of c AND 15)]
      else [c])"

record escaped_source =
  esc_checkpoints :: "(nat \<times> nat) list"
  esc_counted :: nat
  esc_size :: nat
  esc_valid :: bool

definition escape_ready :: "response_source \<Rightarrow> escaped_source \<Rightarrow> bool" where
  "escape_ready body e \<longleftrightarrow> esc_counted e = rs_size body"

definition count_step :: "response_source \<Rightarrow> escaped_source \<Rightarrow> bool \<times> escaped_source" where
  "count_step body e =
     (if \<not> esc_valid e \<or> escape_ready body e then (esc_valid e, e)
      else if length (esc_checkpoints e) = 64 then (False, e\<lparr>esc_valid := False\<rparr>)
      else
        let point = (esc_counted e, esc_size e);
            bytes = rs_copy body (esc_counted e) window_bytes;
            e = e\<lparr>esc_checkpoints := esc_checkpoints e @ [point]\<rparr>
        in if bytes = [] then (False, e\<lparr>esc_valid := False\<rparr>)
           else (True, e\<lparr>esc_size := esc_size e + length (concat (map response_escape bytes)),
                         esc_counted := esc_counted e + length bytes\<rparr>))"

definition fresh_escape :: escaped_source where
  "fresh_escape = \<lparr>esc_checkpoints = [], esc_counted = 0, esc_size = 0, esc_valid = True\<rparr>"

text \<open>The loop of the constructor. The array of checkpoints has 64 entries, so at most 64 windows are counted.\<close>

function count_all :: "response_source \<Rightarrow> escaped_source \<Rightarrow> escaped_source" where
  "count_all body e =
     (if esc_valid e \<and> \<not> escape_ready body e \<and> length (esc_checkpoints e) \<le> 64
      then count_all body (snd (count_step body e)) else e)"
  by pat_completeness auto
termination
  by (relation "measure (\<lambda>(body, e). (64 - length (esc_checkpoints e)) + of_bool (esc_valid e))")
    (auto simp: count_step_def Let_def)

definition escape_source :: "response_source \<Rightarrow> bool \<Rightarrow> escaped_source" where
  "escape_source body incremental =
     (if \<not> rs_replayable body then fresh_escape\<lparr>esc_valid := False\<rparr>
      else if incremental then fresh_escape else count_all body fresh_escape)"

text \<open>One byte of output, if it is at or after the offset and there is room.\<close>

definition emit_byte :: "nat \<Rightarrow> nat \<Rightarrow> char \<Rightarrow> nat \<times> string \<Rightarrow> nat \<times> string" where
  "emit_byte offset n b st =
     (case st of (escaped, out) \<Rightarrow>
       (escaped + 1, if escaped \<ge> offset \<and> length out < n then out @ [b] else out))"

fun emit_chars :: "nat \<Rightarrow> nat \<Rightarrow> string \<Rightarrow> nat \<times> string \<Rightarrow> nat \<times> string" where
  "emit_chars offset n [] st = st"
| "emit_chars offset n (c # cs) st =
     (let st = fold (emit_byte offset n) (response_escape c) st in
      if length (snd st) = n then st else emit_chars offset n cs st)"

function escaped_loop :: "response_source \<Rightarrow> nat \<Rightarrow> nat \<Rightarrow> nat \<Rightarrow> nat \<times> string \<Rightarrow> string" where
  "escaped_loop body offset n position st =
     (if position < rs_size body \<and> length (snd st) < n then
        let bytes = rs_copy body position window_bytes in
        if bytes = [] then snd st
        else escaped_loop body offset n (position + length bytes) (emit_chars offset n bytes st)
      else snd st)"
  by pat_completeness auto
termination
  by (relation "measure (\<lambda>(body, offset, n, position, st). rs_size body - position)") (auto intro: diff_less_mono2)

declare count_all.simps [simp del] escaped_loop.simps [simp del]

fun checkpoint_before :: "nat \<Rightarrow> nat \<times> nat \<Rightarrow> (nat \<times> nat) list \<Rightarrow> nat \<times> nat" where
  "checkpoint_before offset point [] = point"
| "checkpoint_before offset point (p # ps) =
     (if snd p > offset then point else checkpoint_before offset p ps)"

definition escaped_copy :: "response_source \<Rightarrow> escaped_source \<Rightarrow> nat \<Rightarrow> nat \<Rightarrow> string" where
  "escaped_copy body e offset n =
     (if \<not> escape_ready body e \<or> offset \<ge> esc_size e then []
      else
        let front = (case esc_checkpoints e of [] \<Rightarrow> (0, 0) | p # _ \<Rightarrow> p);
            point = checkpoint_before offset front (esc_checkpoints e)
        in escaped_loop body offset n (fst point) (snd point, []))"

definition escaped_view :: "response_source \<Rightarrow> escaped_source \<Rightarrow> response_source" where
  "escaped_view body e = \<lparr>rs_size = esc_size e, rs_copy = escaped_copy body e, rs_replayable = True,
     rs_json_document = False\<rparr>"

section \<open>The contract\<close>

lemma take_own_length: "ys = take n xs \<Longrightarrow> ys = take (length ys) xs"
  by (simp add: min_def)

text \<open>The window holds what was copied last.\<close>

definition window_ok :: "string \<Rightarrow> output_window \<Rightarrow> bool" where
  "window_ok doc w \<longleftrightarrow> win_bytes w = [] \<or> win_bytes w = take window_bytes (drop (win_start w) doc)"

text \<open>A transport that writes at each call some first part of what \<open>at\<close> offers, possibly nothing, and goes on
  from there.\<close>

fun send :: "response_source \<Rightarrow> nat list \<Rightarrow> nat \<Rightarrow> output_window \<Rightarrow> string" where
  "send src [] offset w = []"
| "send src (k # ks) offset w =
     (let (bytes, w) = source_at src offset w; part = take k bytes in
      part @ send src ks (offset + length part) w)"

locale response_document =
  fixes src :: response_source and doc :: string
  assumes size_exact: "rs_size src = length doc"
    and copy_exact: "rs_copy src offset n = take n (drop offset doc)"
begin

lemma at_exact:
  assumes "window_ok doc w" "window_bytes \<le> win_capacity w" "offset < length doc"
  shows "window_ok doc (snd (source_at src offset w)) \<and> win_capacity (snd (source_at src offset w)) = win_capacity w \<and>
    fst (source_at src offset w) \<noteq> [] \<and>
    fst (source_at src offset w) = take (length (fst (source_at src offset w))) (drop offset doc)"
proof (cases "win_bytes w = [] \<or> offset < win_start w \<or> offset \<ge> win_start w + length (win_bytes w)")
  case True
  have "take window_bytes (drop offset doc) \<noteq> []"
    using assms(3) by (simp add: window_bytes_def)
  with True assms show ?thesis
    using take_own_length [OF refl, of window_bytes "drop offset doc"]
    by (simp add: source_at_def size_exact copy_exact window_ok_def Let_def del: length_take)
next
  case False
  then have w: "win_bytes w = take window_bytes (drop (win_start w) doc)" and
    bounds: "win_start w \<le> offset" "offset < win_start w + length (win_bytes w)"
    using assms(1) by (auto simp: window_ok_def)
  define k where "k = offset - win_start w"
  have k: "offset = win_start w + k" "k < length (win_bytes w)" using bounds by (auto simp: k_def)
  have "drop k (win_bytes w) = take (window_bytes - k) (drop offset doc)"
    using w k(1) by (simp add: drop_take add.commute)
  from take_own_length [OF this] show ?thesis
    using False assms k by (simp add: source_at_def size_exact k_def [symmetric] del: length_drop)
qed

lemma send_in_order:
  assumes "window_ok doc w" "window_bytes \<le> win_capacity w"
  shows "send src ks offset w = take (length (send src ks offset w)) (drop offset doc)"
  using assms
proof (induction ks arbitrary: offset w)
  case (Cons k ks)
  obtain bytes w' where a: "source_at src offset w = (bytes, w')" by fastforce
  have w: "window_ok doc w'" "window_bytes \<le> win_capacity w'" and
    b: "bytes = take (length bytes) (drop offset doc)"
    using at_exact [OF Cons.prems, of offset] Cons.prems a
    by (cases "offset < length doc"; auto simp: source_at_def size_exact)+
  let ?part = "take k bytes"
  have "?part = take (min k (length bytes)) (drop offset doc)"
    by (subst b) simp
  then have p: "?part = take (length ?part) (drop offset doc)" by (rule take_own_length)
  have "send src ks (offset + length ?part) w' =
      take (length (send src ks (offset + length ?part) w')) (drop (offset + length ?part) doc)"
    using w by (rule Cons.IH)
  with p have "?part @ send src ks (offset + length ?part) w' =
      take (length ?part + length (send src ks (offset + length ?part) w')) (drop offset doc)"
    by (simp add: take_add add.commute del: length_take)
  from take_own_length [OF this] show ?case
    by (simp only: send.simps a Let_def prod.case)
qed simp

text \<open>Every write that is not empty moves on, until the document is out.\<close>

lemma send_progress:
  assumes "window_ok doc w" "window_bytes \<le> win_capacity w"
  shows "min (length doc - offset) (length (filter (\<lambda>k. 0 < k) ks)) \<le> length (send src ks offset w)"
  using assms
proof (induction ks arbitrary: offset w)
  case (Cons k ks)
  obtain bytes w' where a: "source_at src offset w = (bytes, w')" by fastforce
  show ?case
  proof (cases "offset < length doc")
    case True
    have w: "window_ok doc w'" "window_bytes \<le> win_capacity w'" "bytes \<noteq> []"
      using at_exact [OF Cons.prems True] Cons.prems(2) a by simp_all
    let ?n = "length (take k bytes)"
    have "of_bool (0 < k) \<le> ?n" using w(3) by (cases bytes) (simp_all add: Suc_le_eq)
    moreover have "min (length doc - (offset + ?n)) (length (filter (\<lambda>k. 0 < k) ks)) \<le>
        length (send src ks (offset + ?n) w')"
      by (rule Cons.IH [OF w(1,2)])
    ultimately show ?thesis by (cases "0 < k") (auto simp: a Let_def)
  qed simp
qed simp

lemma send_whole:
  assumes "window_ok doc w" "window_bytes \<le> win_capacity w" "length doc \<le> length (filter (\<lambda>k. 0 < k) ks)"
  shows "send src ks 0 w = doc"
  using send_progress [OF assms(1,2), of 0 ks] send_in_order [OF assms(1,2), of ks 0] assms(3) by simp

end

section \<open>The combinators keep the contract\<close>

lemma copy_text_eq: "copy_text t offset n = take n (drop offset t)"
  by (simp add: copy_text_def min_def)

lemma text_document: "response_document (text_source t) t"
  by unfold_locales (simp_all add: text_source_def copy_text_eq)

lemma joined_copy_exact:
  assumes "rs_size body = length doc" "\<And>offset n. rs_copy body offset n = take n (drop offset doc)"
  shows "joined_copy p body s start n = take n (drop start (p @ doc @ s))"
proof (cases "n \<le> length p - start")
  case True
  then show ?thesis
    by (cases "start < length p") (simp_all add: joined_copy_def copy_text_eq Let_def)
next
  case False
  define first where "first = drop start p"
  define q where "q = start - length p"
  define m where "m = n - length first"
  define second where "second = take m (drop q doc)"
  have f: "(if start < length p then copy_text p start n else []) = first" "length first < n"
    "start + length first - length p = q" "length p \<le> start + length first"
    using False by (auto simp: copy_text_eq first_def q_def)
  have s: "(if length first < n \<and> start + length first \<ge> length p \<and> start + length first - length p < rs_size body
      then rs_copy body (start + length first - length p) (n - length first) else []) = second"
    using f(2-4) by (simp add: second_def m_def assms)
  have "joined_copy p body s start n =
    (if length (first @ second) < n \<and> start + length first + length second \<ge> length p + length doc
     then (first @ second) @ take (n - length (first @ second))
            (drop (start + length first + length second - length p - length doc) s)
     else first @ second)"
    by (unfold joined_copy_def Let_def f(1), unfold s, unfold assms(1) copy_text_eq) (rule refl)
  also have "\<dots> = first @ take m (drop q (doc @ s))"
  proof (cases "m \<le> length doc - q")
    case True
    then have "length second = m" by (simp add: second_def)
    then have "length (first @ second) = n" using f(2) by (simp add: m_def)
    with True show ?thesis by (simp add: second_def)
  next
    case False
    then have "second = drop q doc" "length second = length doc - q" by (simp_all add: second_def)
    moreover from this False have "length (first @ second) < n" "n - length (first @ second) = m - (length doc - q)"
      by (simp_all add: m_def)
    moreover have "start + length first + length second \<ge> length p + length doc"
      "start + length first + length second - length p - length doc = q - length doc"
      using \<open>length second = length doc - q\<close> by (simp_all add: q_def first_def)
    ultimately show ?thesis using False by simp
  qed
  also have "\<dots> = take n (drop start (p @ doc @ s))"
    using f(2) by (simp add: first_def q_def m_def)
  finally show ?thesis .
qed

lemma joined_document:
  assumes "response_document body doc"
  shows "response_document (joined_source p body s json) (p @ doc @ s)"
  using response_document.size_exact [OF assms] response_document.copy_exact [OF assms]
  by unfold_locales (simp_all add: joined_source_def joined_copy_exact)

lemma sliced_document:
  assumes "response_document src doc"
  shows "response_document (sliced_source src start) (drop start doc)"
  using response_document.size_exact [OF assms] response_document.copy_exact [OF assms]
  by unfold_locales (auto simp: sliced_source_def add.commute)

section \<open>The escaped source\<close>

definition escape_text :: "string \<Rightarrow> string" where
  "escape_text doc = concat (map response_escape doc)"

lemma escape_text_simps [simp]:
  "escape_text [] = []" "escape_text (c # s) = response_escape c @ escape_text s"
  "escape_text (a @ b) = escape_text a @ escape_text b"
  by (simp_all add: escape_text_def)

lemma emit_bytes:
  "fold (emit_byte offset n) bs (length u, take n (drop offset u)) =
     (length (u @ bs), take n (drop offset (u @ bs)))"
proof (induction bs arbitrary: u)
  case (Cons b bs)
  have "emit_byte offset n b (length u, take n (drop offset u)) = (length (u @ [b]), take n (drop offset (u @ [b])))"
    by (auto simp: emit_byte_def)
  with Cons.IH [of "u @ [b]"] show ?case by simp
qed simp

lemma take_full: "length (take n (drop k u)) = n \<Longrightarrow> take n (drop k (u @ v)) = take n (drop k u)"
  by (cases "n = 0") auto

lemma emit_chars_exact:
  "snd (emit_chars offset n cs (length u, take n (drop offset u))) = take n (drop offset (u @ escape_text cs)) \<and>
   (length (snd (emit_chars offset n cs (length u, take n (drop offset u)))) < n \<longrightarrow>
    fst (emit_chars offset n cs (length u, take n (drop offset u))) = length (u @ escape_text cs))"
proof (induction cs arbitrary: u)
  case (Cons c cs)
  let ?u = "u @ response_escape c"
  have e: "fold (emit_byte offset n) (response_escape c) (length u, take n (drop offset u)) =
      (length ?u, take n (drop offset ?u))"
    by (rule emit_bytes)
  show ?case
  proof (cases "length (take n (drop offset ?u)) = n")
    case True
    from take_full [OF this, of "escape_text cs"] True show ?thesis
      by (simp add: e Let_def del: length_take length_drop append_assoc drop_append take_append)
        (simp add: append_assoc [symmetric] del: append_assoc length_take length_drop drop_append take_append)
  next
    case False
    with Cons.IH [of ?u] show ?thesis
      by (simp add: e Let_def del: length_take length_drop drop_append take_append length_append)
  qed
qed simp

text \<open>The checkpoints pair positions of the document with those of its escaped text, from the start on.\<close>

definition counted_ok :: "string \<Rightarrow> escaped_source \<Rightarrow> bool" where
  "counted_ok doc e \<longleftrightarrow> esc_counted e \<le> length doc \<and> esc_size e = length (escape_text (take (esc_counted e) doc)) \<and>
     (\<forall>(a, b) \<in> set (esc_checkpoints e). a \<le> length doc \<and> b = length (escape_text (take a doc))) \<and>
     (esc_checkpoints e = [] \<and> esc_counted e = 0 \<or> (\<exists>ps. esc_checkpoints e = (0, 0) # ps))"

text \<open>Documents of at most 64 windows are counted to the end.\<close>

definition counting :: "string \<Rightarrow> escaped_source \<Rightarrow> bool" where
  "counting doc e \<longleftrightarrow> esc_valid e \<and> esc_counted e = min (length doc) (window_bytes * length (esc_checkpoints e))"

context response_document
begin

lemma escaped_loop_exact:
  "position \<le> length doc \<Longrightarrow> u = escape_text (take position doc) \<Longrightarrow>
   escaped_loop src offset n position (length u, take n (drop offset u)) = take n (drop offset (escape_text doc))"
proof (induction "length doc - position" arbitrary: position u rule: less_induct)
  case less
  let ?st = "(length u, take n (drop offset u))"
  consider (full) "length (take n (drop offset u)) = n"
    | (ended) "length (take n (drop offset u)) < n" "position = length doc"
    | (more) "length (take n (drop offset u)) < n" "position < length doc"
    using less.prems(1) by fastforce
  then show ?case
  proof cases
    case full
    have "escape_text doc = u @ escape_text (drop position doc)"
      using less.prems(2) by (metis append_take_drop_id escape_text_simps(3))
    with take_full [OF full] full show ?thesis
      by (simp add: escaped_loop.simps [of _ _ _ position] del: length_take length_drop)
  next
    case ended
    with less.prems show ?thesis by (simp add: escaped_loop.simps [of _ _ _ "length doc"] size_exact)
  next
    case more
    define bytes where "bytes = take window_bytes (drop position doc)"
    have b: "bytes \<noteq> []" "length bytes \<le> length doc - position"
      using more(2) by (auto simp: bytes_def window_bytes_def)
    have taken: "take (position + length bytes) doc = take position doc @ bytes"
      by (simp add: bytes_def take_add min_def)
    let ?u = "u @ escape_text bytes"
    have loop: "escaped_loop src offset n position ?st =
        escaped_loop src offset n (position + length bytes) (emit_chars offset n bytes ?st)"
      using more b by (simp add: escaped_loop.simps [of _ _ _ position] size_exact copy_exact bytes_def [symmetric]
          Let_def del: length_take length_drop)
    have e: "snd (emit_chars offset n bytes ?st) = take n (drop offset ?u)"
      using emit_chars_exact by blast
    show ?thesis
    proof (cases "length (take n (drop offset ?u)) < n")
      case True
      then have "emit_chars offset n bytes ?st = (length ?u, take n (drop offset ?u))"
        using emit_chars_exact [of offset n bytes u] e by (metis prod.collapse)
      moreover have "escaped_loop src offset n (position + length bytes) (length ?u, take n (drop offset ?u)) =
          take n (drop offset (escape_text doc))"
        using b more(2) less.prems taken by (intro less.hyps diff_less_mono2) simp_all
      ultimately show ?thesis using loop by simp
    next
      case False
      then have "length (take n (drop offset ?u)) = n"
        by (simp add: min_def del: drop_append take_append length_append split: if_splits)
      moreover have "escape_text doc = ?u @ escape_text (drop (position + length bytes) doc)"
        using less.prems(2) taken by (metis append_take_drop_id escape_text_simps(3))
      ultimately have "take n (drop offset (escape_text doc)) = take n (drop offset ?u)"
        using take_full by metis
      then show ?thesis
        using loop e False
        by (simp add: escaped_loop.simps [of _ _ _ "position + length bytes"] del: length_take drop_append take_append)
    qed
  qed
qed

lemma count_step_keeps:
  assumes "counted_ok doc e" "esc_valid (snd (count_step src e))"
  shows "counted_ok doc (snd (count_step src e))"
proof -
  define bytes where "bytes = take window_bytes (drop (esc_counted e) doc)"
  have taken: "take (esc_counted e + length bytes) doc = take (esc_counted e) doc @ bytes"
    by (simp add: bytes_def take_add min_def)
  have "esc_counted e + length bytes \<le> length doc"
    using assms(1) by (auto simp: bytes_def counted_ok_def)
  with assms taken show ?thesis
    by (auto simp: counted_ok_def count_step_def Let_def copy_exact bytes_def [symmetric] escape_text_def [symmetric]
        split: if_splits)
qed

lemma count_all_keeps:
  assumes "counted_ok doc e" "esc_valid (count_all src e)" "length (esc_checkpoints e) \<le> 64"
  shows "counted_ok doc (count_all src e) \<and> escape_ready src (count_all src e)"
  using assms
proof (induction "(64 - length (esc_checkpoints e)) + of_bool (esc_valid e)" arbitrary: e rule: less_induct)
  case less
  show ?case
  proof (cases "esc_valid e \<and> \<not> escape_ready src e")
    case True
    let ?e = "snd (count_step src e)"
    have all: "count_all src e = count_all src ?e"
      using True less.prems(3) by (simp add: count_all.simps [of src e])
    have valid: "esc_valid ?e"
      using less.prems(2) unfolding all by (cases "esc_valid ?e") (simp_all add: count_all.simps [of src ?e])
    then have "length (esc_checkpoints ?e) = Suc (length (esc_checkpoints e))" "length (esc_checkpoints ?e) \<le> 64"
      using True less.prems(3) by (auto simp: count_step_def Let_def split: if_splits)
    with True valid less.prems show ?thesis
      unfolding all by (intro less.hyps count_step_keeps) simp_all
  next
    case False
    with less.prems(1,2) show ?thesis by (auto simp: count_all.simps [of src e])
  qed
qed

lemma checkpoint_found:
  assumes "\<forall>(a, b) \<in> set ps. a \<le> length doc \<and> b = length (escape_text (take a doc))"
    "fst p \<le> length doc" "snd p = length (escape_text (take (fst p) doc))" "snd p \<le> offset"
  shows "fst (checkpoint_before offset p ps) \<le> length doc \<and> snd (checkpoint_before offset p ps) \<le> offset \<and>
    snd (checkpoint_before offset p ps) = length (escape_text (take (fst (checkpoint_before offset p ps)) doc))"
  using assms by (induction offset p ps rule: checkpoint_before.induct) auto

lemma escaped_copy_exact:
  assumes "counted_ok doc e" "escape_ready src e"
  shows "esc_size e = length (escape_text doc) \<and>
    escaped_copy src e offset n = take n (drop offset (escape_text doc))"
proof -
  have size: "esc_size e = length (escape_text doc)"
    using assms by (simp add: counted_ok_def escape_ready_def size_exact)
  show ?thesis
  proof (cases "offset \<ge> esc_size e")
    case True
    with size show ?thesis by (simp add: escaped_copy_def)
  next
    case False
    let ?front = "case esc_checkpoints e of [] \<Rightarrow> (0, 0) | p # _ \<Rightarrow> p"
    let ?point = "checkpoint_before offset ?front (esc_checkpoints e)"
    have "?front = (0, 0)" using assms(1) by (auto simp: counted_ok_def split: list.splits)
    then have p: "fst ?point \<le> length doc" "snd ?point \<le> offset"
      "snd ?point = length (escape_text (take (fst ?point) doc))"
      using checkpoint_found [of "esc_checkpoints e" ?front offset] assms(1) by (simp_all add: counted_ok_def)
    then have "escaped_loop src offset n (fst ?point) (snd ?point, []) = take n (drop offset (escape_text doc))"
      using escaped_loop_exact [OF p(1) refl, of offset n] by simp
    with False size assms(2) show ?thesis by (simp add: escaped_copy_def Let_def)
  qed
qed

lemma escaped_document:
  assumes "esc_valid (escape_source src False)"
  shows "response_document (escaped_view src (escape_source src False)) (escape_text doc)"
proof -
  have all: "escape_source src False = count_all src fresh_escape"
    using assms by (simp add: escape_source_def split: if_splits)
  have "counted_ok doc (escape_source src False) \<and> escape_ready src (escape_source src False)"
    using assms unfolding all
    by (intro count_all_keeps) (simp_all add: counted_ok_def fresh_escape_def)
  then show ?thesis
    using escaped_copy_exact by unfold_locales (simp_all add: escaped_view_def)
qed

lemma count_step_counts:
  assumes "counting doc e" "length doc \<le> 64 * window_bytes" "\<not> escape_ready src e"
  shows "counting doc (snd (count_step src e)) \<and>
    length (esc_checkpoints (snd (count_step src e))) = Suc (length (esc_checkpoints e))"
proof -
  have few: "esc_counted e < length doc"
    using assms(1,3) by (auto simp: counting_def escape_ready_def size_exact min_def split: if_splits)
  then have c: "esc_counted e = window_bytes * length (esc_checkpoints e)"
    using assms(1) by (auto simp: counting_def min_def split: if_splits)
  then have "window_bytes * length (esc_checkpoints e) < window_bytes * 64"
    using few assms(2) unfolding c by (metis less_le_trans mult.commute)
  then have n: "length (esc_checkpoints e) < 64" by (simp only: mult_less_cancel1)
  let ?bytes = "take window_bytes (drop (esc_counted e) doc)"
  have "?bytes \<noteq> []" using few by (simp add: window_bytes_def)
  moreover have "esc_counted e + length ?bytes = min (length doc) (window_bytes * Suc (length (esc_checkpoints e)))"
    using c few by (auto simp: min_def)
  ultimately show ?thesis
    using assms n by (simp add: count_step_def counting_def copy_exact Let_def del: length_take take_eq_Nil)
qed

lemma count_all_counts:
  "counting doc e \<Longrightarrow> length doc \<le> 64 * window_bytes \<Longrightarrow> esc_valid (count_all src e)"
proof (induction "65 - length (esc_checkpoints e)" arbitrary: e rule: less_induct)
  case less
  show ?case
  proof (cases "escape_ready src e \<or> \<not> length (esc_checkpoints e) \<le> 64")
    case True
    with less.prems(1) show ?thesis by (auto simp: count_all.simps [of src e] counting_def)
  next
    case False
    then have "count_all src e = count_all src (snd (count_step src e))"
      using less.prems(1) by (simp add: count_all.simps [of src e] counting_def)
    moreover have "esc_valid (count_all src (snd (count_step src e)))"
      using False count_step_counts [OF less.prems] less.prems(2) by (intro less.hyps) auto
    ultimately show ?thesis by simp
  qed
qed

lemma escape_source_valid:
  assumes "rs_replayable src" "length doc \<le> 64 * window_bytes"
  shows "esc_valid (escape_source src False)"
  using assms by (simp add: escape_source_def fresh_escape_def counting_def count_all_counts)

end

interpretation text_doc: response_document "text_source t" t for t
  by (rule text_document)

section \<open>Sending an escaped document\<close>

lemma escape_text_quote: "[quote_char] @ escape_text doc @ [quote_char] = json_quote doc"
proof -
  have "response_escape = quoted_char"
    by (rule ext) (simp add: response_escape_def quoted_char_def)
  then show ?thesis by (simp add: escape_text_def json_quote_def)
qed

definition quoted_response :: "string \<Rightarrow> string \<Rightarrow> string \<Rightarrow> response_source" where
  "quoted_response p doc s =
     joined_source p (escaped_view (text_source doc) (escape_source (text_source doc) False)) s False"

text \<open>C27: a document that is escaped on the fly between a prefix and a suffix is sent exactly. However the
  transport cuts its writes, and however often it asks for the same bytes again, what it sends is an
  initial part of the prefix, the document as it stands inside a quoted JSON string, and the suffix; every
  write that is not empty sends something, until all of it is sent, so that as many such writes as there are
  bytes send the whole; and the size announced before is exactly the size of the whole.\<close>

theorem escaped_response_sent:
  assumes "length doc \<le> 65536" "window_bytes \<le> win_capacity w" "win_bytes w = []"
  shows "let whole = p @ json_quote doc @ s;
             response = quoted_response (p @ [quote_char]) doc (quote_char # s);
             sent = send response ks 0 w; writes = length (filter (\<lambda>k. 0 < k) ks) in
    sent = take (length sent) whole \<and> min (length whole) writes \<le> length sent \<and>
    (length whole \<le> writes \<longrightarrow> sent = whole) \<and> rs_size response = length whole"
proof -
  let ?whole = "p @ json_quote doc @ s"
  have "esc_valid (escape_source (text_source doc) False)"
    using assms(1) by (intro text_doc.escape_source_valid) (simp_all add: text_source_def window_bytes_def)
  from joined_document [OF text_doc.escaped_document [OF this], of "p @ [quote_char]" "quote_char # s" False]
  have doc: "response_document (quoted_response (p @ [quote_char]) doc (quote_char # s)) ?whole"
    by (simp add: quoted_response_def escape_text_quote [symmetric])
  have w: "window_ok ?whole w" using assms(3) by (simp add: window_ok_def)
  show ?thesis
    unfolding Let_def
    using response_document.send_in_order [OF doc w assms(2), of ks 0] response_document.size_exact [OF doc]
      response_document.send_progress [OF doc w assms(2), of 0 ks] response_document.send_whole [OF doc w assms(2), of ks]
    by simp
qed

definition sample_window :: output_window where
  "sample_window = snd (prepare_output True no_window)"

text \<open>A quote, a backslash and a line feed, sent in writes of three bytes.\<close>

definition awkward_text :: string where
  "awkward_text = [CHR ''a'', quote_char, backslash, CHR 0x0A, CHR ''z'']"

lemma awkward_quoted:
  "json_quote awkward_text = [quote_char, CHR ''a'', backslash, quote_char, backslash, backslash, backslash] @
     ''u000az'' @ [quote_char]"
  by code_simp

lemma sample_window_fresh: "window_bytes \<le> win_capacity sample_window" "win_bytes sample_window = []"
  by code_simp+

lemma awkward_size: "length awkward_text \<le> 65536"
  by (simp add: awkward_text_def)

theorem escaped_response_sent_witness:
  "send (quoted_response (''{'' @ [quote_char]) awkward_text (quote_char # ''}'')) (replicate 20 3) 0 sample_window =
     ''{'' @ [quote_char, CHR ''a'', backslash, quote_char, backslash, backslash, backslash] @ ''u000az'' @ [quote_char] @ ''}''"
  using escaped_response_sent [OF awkward_size sample_window_fresh, of "''{''" "''}''" "replicate 20 3"]
  unfolding Let_def awkward_quoted by simp

end
