(* ===== verification/Wtp_Responses.thy ===== *)
theory Wtp_Responses
  imports Wtp_Codec Response_Source Frame_Codec Calibration
begin

text \<open>
  Encoding of responses, \<open>src/src/wtp/codec.cpp\<close>: the text of every reply, and the three ways a LOAD reply with
  hundreds of adjustments reaches the wire without a second copy of it: a buffer sized before it is filled, a
  document generated part by part for a browser, and a stream that owns one page. \<open>std::to_string\<close> is
  \<open>decimal\<close>. In the literals a back quote stands for a quotation mark.
\<close>

definition lit :: "string \<Rightarrow> string" where
  "lit s = map (\<lambda>c. if c = CHR ''`'' then quote_char else c) s"

section \<open>Scalars\<close>

function decimal_width_from :: "nat \<Rightarrow> nat \<Rightarrow> nat" where
  "decimal_width_from n width = (if n \<ge> 10 then decimal_width_from (n div 10) (width + 1) else width)"
  by pat_completeness auto
termination
  by (relation "measure fst") auto

definition decimal_width :: "nat \<Rightarrow> nat" where
  "decimal_width n = decimal_width_from n 1"

definition ns_text :: "u64 \<Rightarrow> string" where
  "ns_text n = json_quote (decimal (unat n))"

definition nullable_text :: "string option \<Rightarrow> string" where
  "nullable_text s = (case s of Some t \<Rightarrow> json_quote t | None \<Rightarrow> ''null'')"

definition bool_text :: "bool \<Rightarrow> string" where
  "bool_text b = (if b then ''true'' else ''false'')"

definition state_name :: "job_state \<Rightarrow> string" where
  "state_name s = (case s of Empty \<Rightarrow> ''empty'' | Loaded \<Rightarrow> ''loaded'' | Armed \<Rightarrow> ''armed''
     | Running \<Rightarrow> ''running'' | Complete \<Rightarrow> ''complete'' | Aborted \<Rightarrow> ''aborted'' | Missed \<Rightarrow> ''missed''
     | Failed \<Rightarrow> ''failed'')"

definition error_name :: "error_code \<Rightarrow> string" where
  "error_name code = (case code of
     NoError \<Rightarrow> ''INTERNAL_ERROR'' | error_code.InvalidFrame \<Rightarrow> ''INVALID_FRAME'' | InvalidMessage \<Rightarrow> ''INVALID_MESSAGE''
   | UnsupportedVersion \<Rightarrow> ''UNSUPPORTED_VERSION'' | HelloRequired \<Rightarrow> ''HELLO_REQUIRED''
   | UnknownOperation \<Rightarrow> ''UNKNOWN_OPERATION'' | AuthenticationRequired \<Rightarrow> ''AUTHENTICATION_REQUIRED''
   | SessionReplaced \<Rightarrow> ''SESSION_REPLACED'' | Busy \<Rightarrow> ''BUSY'' | NotOwner \<Rightarrow> ''NOT_OWNER''
   | LeaseExpired \<Rightarrow> ''LEASE_EXPIRED'' | RequestIdReuse \<Rightarrow> ''REQUEST_ID_REUSE''
   | InvalidState \<Rightarrow> ''INVALID_STATE'' | JobNotFound \<Rightarrow> ''JOB_NOT_FOUND'' | JobIdConflict \<Rightarrow> ''JOB_ID_CONFLICT''
   | JobLimitExceeded \<Rightarrow> ''JOB_LIMIT_EXCEEDED'' | UnsupportedProfile \<Rightarrow> ''UNSUPPORTED_PROFILE''
   | UnsupportedMode \<Rightarrow> ''UNSUPPORTED_MODE'' | FrequencyRejected \<Rightarrow> ''FREQUENCY_REJECTED''
   | ArmConflict \<Rightarrow> ''ARM_CONFLICT'' | ClockUnsynchronized \<Rightarrow> ''CLOCK_UNSYNCHRONIZED''
   | ClockUncertain \<Rightarrow> ''CLOCK_UNCERTAIN'' | LeapUnsafe \<Rightarrow> ''LEAP_UNSAFE'' | ArmTooLate \<Rightarrow> ''ARM_TOO_LATE''
   | ArmTooFar \<Rightarrow> ''ARM_TOO_FAR'' | MissedStart \<Rightarrow> ''MISSED_START''
   | OutputStateUnknown \<Rightarrow> ''OUTPUT_STATE_UNKNOWN'' | DeviceFault \<Rightarrow> ''DEVICE_FAULT''
   | InternalError \<Rightarrow> ''INTERNAL_ERROR'')"

definition error_json :: "error_code \<Rightarrow> string" where
  "error_json code =
     lit ''{`code`:'' @ json_quote (error_name code) @ lit '',`message`:'' @ json_quote (error_name code) @
     lit '',`retryable`:'' @ bool_text (code = Busy \<or> code = ClockUnsynchronized \<or> code = ClockUncertain) @ ''}''"

definition clock_state_name :: "clock_state \<Rightarrow> string" where
  "clock_state_name s = (case s of Unsynchronized \<Rightarrow> ''unsynchronized'' | Synchronized \<Rightarrow> ''synchronized''
     | Holdover \<Rightarrow> ''holdover'')"

definition leap_name :: "leap_state \<Rightarrow> string" where
  "leap_name l = (case l of LeapNormal \<Rightarrow> ''normal'' | InsertPending \<Rightarrow> ''insert_pending''
     | DeletePending \<Rightarrow> ''delete_pending'' | LeapUnknown \<Rightarrow> ''unknown'')"

definition clock_json :: "clock_snapshot \<Rightarrow> string" where
  "clock_json c =
     lit ''{`state`:'' @ json_quote (clock_state_name (clock_state c)) @
     lit '',`utc_now_ns`:'' @ ns_text (utc_now_ns c) @ lit '',`monotonic_now_ns`:'' @ ns_text (monotonic_now_ns c) @
     lit '',`uncertainty_ns`:'' @ ns_text (uncertainty_ns c) @ lit '',`sync_age_ns`:'' @ ns_text (sync_age_ns c) @
     lit '',`leap`:'' @ json_quote (leap_name (leap c)) @
     (case leap_transition_utc_ns c of None \<Rightarrow> []
      | Some t \<Rightarrow> lit '',`leap_transition_utc_ns`:'' @ ns_text t) @ ''}''"

section \<open>Status and capabilities\<close>

definition terminal_json :: "terminal_record \<Rightarrow> string" where
  "terminal_json t =
     lit ''{`job_id`:'' @ json_quote (tr_job_id t) @ lit '',`state`:'' @ json_quote (state_name (tr_state t)) @
     lit '',`ended_monotonic_ns`:'' @ ns_text (tr_ended_monotonic_ns t) @
     lit '',`output_active`:'' @ bool_text (tr_output_active t) @
     (if tr_error t \<noteq> NoError then lit '',`error`:'' @ error_json (tr_error t) else []) @ ''}''"

text \<open>Elements of a list with a comma before each but the first.\<close>

fun separated :: "bool \<Rightarrow> string list \<Rightarrow> string" where
  "separated first [] = []"
| "separated first (x # xs) = (if first then [] else '','') @ x @ separated False xs"

definition status_json :: "service_status \<Rightarrow> string" where
  "status_json s =
     lit ''{`boot_id`:'' @ json_quote (st_boot_id s) @ lit '',`state`:'' @ json_quote (state_name (st_state s)) @
     lit '',`output_active`:'' @ bool_text (st_output_active s) @
     lit '',`owner_id`:'' @ nullable_text (st_owner_id s) @ lit '',`job_id`:'' @ nullable_text (st_job_id s) @
     lit '',`terminal_records`:['' @ separated True (map terminal_json (st_terminal_records s)) @ '']}''"

fun modes_text :: "string \<Rightarrow> string list \<Rightarrow> string" where
  "modes_text out [] = out"
| "modes_text out (m # ms) =
     modes_text (out @ (if out \<noteq> [] then '','' else []) @ [quote_char] @ m @ [quote_char]) ms"

definition caps_json :: "service_config \<Rightarrow> string" where
  "caps_json c =
     lit ''{`profiles`:[`rf-events/1`],`modes`:['' @ modes_text [] (supported_modes c) @
     lit ''],`engine`:`'' @ capability_engine c @
     lit ''`,`frequency_ranges`:[{`minimum_nhz`:'' @ ns_text (minimum_frequency_nhz c) @
     lit '',`maximum_nhz`:'' @ ns_text (maximum_frequency_nhz c) @
     lit ''}],`max_payload_bytes`:65536,`max_events`:'' @ decimal (max_events c) @
     lit '',`max_job_duration_ns`:'' @ ns_text (max_job_duration_ns c) @
     lit '',`minimum_arm_lead_ns`:'' @ ns_text (minimum_arm_lead_ns c) @
     lit '',`maximum_arm_ahead_ns`:'' @ ns_text (maximum_arm_ahead_ns c) @
     lit '',`maximum_arm_uncertainty_ns`:'' @ ns_text (maximum_arm_uncertainty_ns c) @
     lit '',`maximum_holdover_age_ns`:'' @ ns_text (maximum_holdover_age_ns c) @
     lit '',`output_disable_timeout_ns`:'' @ ns_text (output_disable_timeout_ns c) @
     lit '',`minimum_lease_ms`:5000,`maximum_lease_ms`:60000,`response_cache_entries`:'' @
     decimal (response_cache_entries c) @ lit '',`response_cache_ttl_seconds`:'' @
     decimal (unat (response_cache_ttl_ns c div 1000000000)) @ lit '',`terminal_record_entries`:'' @
     decimal (terminal_record_entries c) @ lit '',`terminal_record_ttl_seconds`:'' @
     decimal (unat (terminal_record_ttl_ns c div 1000000000)) @ ''}''"

section \<open>LOAD replies\<close>

definition response_prefix :: "request \<Rightarrow> response \<Rightarrow> string" where
  "response_prefix r s =
     lit ''{`type`:`response`,`protocol`:`WTP/1`,`session_id`:'' @ json_quote (req_session_id r) @
     lit '',`request_id`:'' @ json_quote (req_request_id r) @ lit '',`op`:'' @ json_quote (req_operation r) @
     lit '',`ok`:'' @ bool_text (rsp_ok s)"

definition load_fields :: "response \<Rightarrow> string" where
  "load_fields s =
     lit ''{`job_id`:'' @ json_quote (rsp_job_id s) @ lit '',`state`:`loaded`,`adjustments`:[''"

definition load_body_prefix :: "response \<Rightarrow> string" where
  "load_body_prefix s = lit '',`body`:'' @ load_fields s"

definition adjustment_punctuation :: string where
  "adjustment_punctuation = lit ''{`event_index`:,`requested_frequency_nhz`:``,`realized_frequency_nhz`:``}''"

fun add_widths :: "bool \<Rightarrow> frequency_adjustment list \<Rightarrow> nat \<Rightarrow> nat" where
  "add_widths first [] bytes = bytes"
| "add_widths first (a # as) bytes =
     add_widths False as (bytes + ((if first then 0 else 1) + length adjustment_punctuation +
       decimal_width (event_index a) + decimal_width (unat (requested_frequency_nhz a)) +
       decimal_width (unat (realized_frequency_nhz a))))"

definition load_response_bytes :: "nat \<Rightarrow> response \<Rightarrow> nat" where
  "load_response_bytes prefix_bytes s = add_widths True (adjustment_items (rsp_adjustments s)) (prefix_bytes + 3)"

definition adjustment_json :: "frequency_adjustment \<Rightarrow> string" where
  "adjustment_json a =
     lit ''{`event_index`:'' @ decimal (event_index a) @
     lit '',`requested_frequency_nhz`:'' @ ns_text (requested_frequency_nhz a) @
     lit '',`realized_frequency_nhz`:'' @ ns_text (realized_frequency_nhz a) @ ''}''"

text \<open>The parts that \<open>append_load_adjustments\<close> hands to its callback, in order.\<close>

fun adjustment_parts :: "bool \<Rightarrow> frequency_adjustment list \<Rightarrow> string list" where
  "adjustment_parts first [] = [lit '']}}'']"
| "adjustment_parts first (a # as) =
     (if first then [] else ['','']) @ [adjustment_json a] @ adjustment_parts False as"

definition load_parts :: "response \<Rightarrow> string list" where
  "load_parts s = adjustment_parts True (adjustment_items (rsp_adjustments s))"

section \<open>Whole replies\<close>

definition body_json :: "request \<Rightarrow> response \<Rightarrow> service_config \<Rightarrow> string \<Rightarrow> string \<Rightarrow> string" where
  "body_json r s cfg device firmware =
     (if req_operation r = ''HELLO'' then
        lit ''{`selected_version`:`WTP/1`,`device_id`:'' @ json_quote device @
        lit '',`boot_id`:'' @ json_quote (rsp_boot_id s) @
        lit '',`product`:`WsprryPico`,`firmware_version`:'' @ json_quote firmware @ ''}''
      else if req_operation r = ''CAPS'' then caps_json cfg
      else if req_operation r = ''STATUS'' \<and> rsp_status_snapshot s \<noteq> None then
        status_json (the (rsp_status_snapshot s))
      else if req_operation r = ''GET_CLOCK'' \<and> rsp_clock_snapshot s \<noteq> None then
        clock_json (the (rsp_clock_snapshot s))
      else if req_operation r = ''PING'' \<and> rsp_ping_token s \<noteq> None then
        lit ''{`token`:'' @ json_quote (the (rsp_ping_token s)) @ ''}''
      else if req_operation r = ''CLAIM'' \<or> req_operation r = ''RENEW'' then
        lit ''{`owner_id`:'' @ json_quote (rsp_owner_id s) @
        lit '',`granted_lease_ms`:'' @ decimal (unat (rsp_granted_lease_ms s)) @
        lit '',`expires_monotonic_ns`:'' @ ns_text (rsp_expires_monotonic_ns s) @ ''}''
      else if req_operation r = ''ARM'' \<and> rsp_clock_snapshot s \<noteq> None then
        lit ''{`job_id`:'' @ json_quote (rsp_job_id s) @
        lit '',`state`:`armed`,`start_utc_ns`:'' @ ns_text (rsp_start_utc_ns s) @
        lit '',`start_monotonic_ns`:'' @ ns_text (rsp_start_monotonic_ns s) @
        lit '',`clock`:'' @ clock_json (the (rsp_clock_snapshot s)) @ ''}''
      else if req_operation r = ''ABORT'' then
        lit ''{`job_id`:'' @ json_quote (rsp_job_id s) @ lit '',`state`:`aborted`,`output_active`:false}''
      else ''{}'')"

definition encode_response :: "request \<Rightarrow> response \<Rightarrow> service_config \<Rightarrow> string \<Rightarrow> string \<Rightarrow> string" where
  "encode_response r s cfg device firmware =
     (if \<not> rsp_ok s then response_prefix r s @ lit '',`error`:'' @ error_json (rsp_error s) @ ''}''
      else if req_operation r = ''LOAD'' then
        response_prefix r s @ load_body_prefix s @ concat (load_parts s)
      else response_prefix r s @ lit '',`body`:'' @ body_json r s cfg device firmware @ ''}'')"

section \<open>The sized buffer\<close>

record output_buffer =
  ob_bytes :: string
  ob_capacity :: nat

text \<open>\<open>OutputBuffer::reserve\<close>; \<open>granted\<close> is whether all pages were allocated.\<close>

definition reserve_output :: "bool \<Rightarrow> nat \<Rightarrow> output_buffer \<Rightarrow> bool \<times> output_buffer" where
  "reserve_output granted bytes b =
     (if bytes \<le> ob_capacity b then (True, b)
      else if bytes = 0 \<or> bytes > 65536 then (False, b)
      else if granted then (True, b\<lparr>ob_capacity := bytes\<rparr>)
      else (False, \<lparr>ob_bytes = [], ob_capacity = 0\<rparr>))"

definition append_output :: "string \<Rightarrow> output_buffer \<Rightarrow> bool \<times> output_buffer" where
  "append_output part b =
     (if length part > ob_capacity b - length (ob_bytes b) then (False, b)
      else (True, b\<lparr>ob_bytes := ob_bytes b @ part\<rparr>))"

fun append_parts :: "string list \<Rightarrow> bool \<times> output_buffer \<Rightarrow> bool \<times> output_buffer" where
  "append_parts [] st = st"
| "append_parts (p # ps) (complete, b) =
     append_parts ps (if complete then append_output p b else (False, b))"

definition load_reply_prefix :: "request \<Rightarrow> response \<Rightarrow> bool \<Rightarrow> string" where
  "load_reply_prefix r s browser =
     (if browser then
        lit ''{`ok`:true,`request_id`:'' @ json_quote (req_request_id r) @ lit '',`result`:'' @ load_fields s
      else response_prefix r s @ lit '',`body`:'' @ load_fields s)"

text \<open>The empty buffer, when there is no reply of this kind or no room for it, is \<open>None\<close>.\<close>

definition encode_load_response_buffer ::
  "(nat \<Rightarrow> bool) \<Rightarrow> bool \<Rightarrow> request \<Rightarrow> response \<Rightarrow> bool \<Rightarrow> string option" where
  "encode_load_response_buffer admitted granted r s browser =
     (if \<not> rsp_ok s \<or> req_operation r \<noteq> ''LOAD'' \<or> adjustment_count (rsp_adjustments s) > 512 then None
      else
        let prefix_text = load_reply_prefix r s browser;
            bytes = load_response_bytes (length prefix_text) s;
            reserved = reserve_output granted bytes \<lparr>ob_bytes = [], ob_capacity = 0\<rparr>
        in if bytes > 65536 \<or> \<not> admitted (bytes + 1024) \<or> \<not> fst reserved then None
           else
             let result = append_parts (prefix_text # load_parts s) (True, snd reserved) in
             if \<not> fst result \<or> length (ob_bytes (snd result)) \<noteq> bytes then None
             else Some (ob_bytes (snd result)))"

section \<open>The document for a browser\<close>

record browser_source =
  bs_prefix :: string
  bs_adjustments :: adjustment_list
  bs_offsets :: "nat list"
  bs_size :: nat

fun browser_offsets :: "nat \<Rightarrow> frequency_adjustment list \<Rightarrow> nat \<Rightarrow> nat list \<times> nat" where
  "browser_offsets i [] size_now = ([size_now], size_now + 3)"
| "browser_offsets i (a # as) size_now =
     (let rest = browser_offsets (i + 1) as (size_now + ((if i \<noteq> 0 then 1 else 0) + length adjustment_punctuation +
            decimal_width (event_index a) + decimal_width (unat (requested_frequency_nhz a)) +
            decimal_width (unat (realized_frequency_nhz a))))
      in (size_now # fst rest, snd rest))"

definition new_browser_source :: "request \<Rightarrow> response \<Rightarrow> browser_source" where
  "new_browser_source r s =
     (let p = lit ''{`ok`:true,`request_id`:'' @ json_quote (req_request_id r) @ lit '',`result`:'' @ load_fields s;
          found = browser_offsets 0 (adjustment_items (rsp_adjustments s)) (length p)
      in \<lparr>bs_prefix = p, bs_adjustments = rsp_adjustments s, bs_offsets = fst found, bs_size = snd found\<rparr>)"

text \<open>The formatter writes into 192 bytes and yields nothing when they do not suffice.\<close>

definition format_adjustment :: "browser_source \<Rightarrow> nat \<Rightarrow> string" where
  "format_adjustment b i =
     (let a = adjustment_at (bs_adjustments b) i;
          text_bytes = (if i \<noteq> 0 then '','' else []) @ lit ''{`event_index`:'' @ decimal (event_index a) @
            lit '',`requested_frequency_nhz`:`'' @ decimal (unat (requested_frequency_nhz a)) @
            lit ''`,`realized_frequency_nhz`:`'' @ decimal (unat (realized_frequency_nhz a)) @ lit ''`}''
      in if length text_bytes > 192 then [] else text_bytes)"

function browser_loop :: "browser_source \<Rightarrow> nat \<Rightarrow> nat \<Rightarrow> nat \<times> string \<Rightarrow> nat \<times> string" where
  "browser_loop b n i st =
     (case st of (offset, out) \<Rightarrow>
        if length out < n \<and> i < adjustment_count (bs_adjustments b) then
          (let piece = copy_text (format_adjustment b i) (offset - bs_offsets b ! i) (n - length out);
               offset' = offset + length piece
           in if offset' \<noteq> bs_offsets b ! (i + 1) then (offset', out @ piece)
              else browser_loop b n (i + 1) (offset', out @ piece))
        else (offset, out))"
  by pat_completeness auto
termination
  by (relation "measure (\<lambda>(b, n, i, st). adjustment_count (bs_adjustments b) - i)") auto

declare browser_loop.simps [simp del]

definition browser_copy :: "browser_source \<Rightarrow> nat \<Rightarrow> nat \<Rightarrow> string" where
  "browser_copy b start n =
     (let first = (if start < length (bs_prefix b) then copy_text (bs_prefix b) start n else []);
          offset = start + length first;
          ending = bs_offsets b ! (length (bs_offsets b) - 1);
          (offset, out) =
            (if offset < ending then
               browser_loop b n (length (takeWhile (\<lambda>o'. o' \<le> offset) (bs_offsets b)) - 1) (offset, first)
             else (offset, first))
      in if length out < n \<and> offset \<ge> ending
         then out @ copy_text (lit '']}}'') (offset - ending) (n - length out) else out)"

definition browser_response :: "browser_source \<Rightarrow> response_source" where
  "browser_response b = \<lparr>rs_size = bs_size b, rs_copy = browser_copy b, rs_replayable = True, rs_json_document = True\<rparr>"

definition load_response_source :: "(nat \<Rightarrow> bool) \<Rightarrow> bool \<Rightarrow> request \<Rightarrow> response \<Rightarrow> response_source option" where
  "load_response_source admitted granted r s =
     (if \<not> rsp_ok s \<or> req_operation r \<noteq> ''LOAD'' \<or> adjustment_count (rsp_adjustments s) > 512 \<or> \<not> admitted 8192
      then None
      else if \<not> granted \<or> bs_size (new_browser_source r s) > 65536 then None
      else Some (browser_response (new_browser_source r s)))"

section \<open>The stream of one page\<close>

record load_stream =
  ls_adjustments :: adjustment_list
  ls_page :: string
  ls_piece :: string
  ls_page_start :: nat
  ls_piece_offset :: nat
  ls_next_adjustment :: nat
  ls_closing :: bool
  ls_size :: nat
  ls_checksum :: u32

definition empty_stream :: load_stream where
  "empty_stream = \<lparr>ls_adjustments = no_adjustments, ls_page = [], ls_piece = [], ls_page_start = 0,
     ls_piece_offset = 0, ls_next_adjustment = 0, ls_closing = False, ls_size = 0, ls_checksum = 0\<rparr>"

definition text_crc :: "string \<Rightarrow> u32 \<Rightarrow> u32" where
  "text_crc part crc = crc32c (map of_char part) crc"

definition new_load_stream :: "(nat \<Rightarrow> bool) \<Rightarrow> bool \<Rightarrow> request \<Rightarrow> response \<Rightarrow> load_stream" where
  "new_load_stream admitted granted r s =
     (if \<not> rsp_ok s \<or> req_operation r \<noteq> ''LOAD'' \<or> adjustment_count (rsp_adjustments s) > 512 \<or> \<not> admitted 6144
      then empty_stream
      else
        let piece = response_prefix r s @ lit '',`body`:'' @ load_fields s;
            bytes = load_response_bytes (length piece) s
        in if bytes > 65536 \<or> \<not> granted then empty_stream
           else empty_stream\<lparr>ls_piece := piece, ls_adjustments := rsp_adjustments s,
             ls_checksum := fold text_crc (piece # load_parts s) 0, ls_size := bytes\<rparr>)"

text \<open>The next piece of the reply, when the last one is used up; nothing after the end.\<close>

definition next_piece :: "load_stream \<Rightarrow> load_stream option" where
  "next_piece l =
     (let l = l\<lparr>ls_piece := [], ls_piece_offset := 0\<rparr> in
      if ls_next_adjustment l < adjustment_count (ls_adjustments l) then
        Some (l\<lparr>ls_piece := (if ls_next_adjustment l \<noteq> 0 then '','' else []) @
                  adjustment_json (adjustment_at (ls_adjustments l) (ls_next_adjustment l)),
                ls_next_adjustment := ls_next_adjustment l + 1\<rparr>)
      else if \<not> ls_closing l then Some (l\<lparr>ls_piece := lit '']}}'', ls_closing := True\<rparr>)
      else None)"

definition take_piece :: "load_stream \<Rightarrow> load_stream" where
  "take_piece l =
     (let count = min (4096 - length (ls_page l)) (length (ls_piece l) - ls_piece_offset l) in
      l\<lparr>ls_page := ls_page l @ take count (drop (ls_piece_offset l) (ls_piece l)),
        ls_piece_offset := ls_piece_offset l + count\<rparr>)"

text \<open>The loop that fills the page; at the end the loop drops the used piece and stops.\<close>

partial_function (option) fill_page :: "load_stream \<Rightarrow> load_stream option" where
  "fill_page l =
     (if length (ls_page l) < 4096 then
        if ls_piece_offset l = length (ls_piece l) then
          (case next_piece l of
             None \<Rightarrow> Some (l\<lparr>ls_piece := [], ls_piece_offset := 0\<rparr>)
           | Some l' \<Rightarrow> fill_page (take_piece l'))
        else fill_page (take_piece l)
      else Some l)"

definition stream_at :: "load_stream \<Rightarrow> nat \<Rightarrow> (string \<times> load_stream) option" where
  "stream_at l offset =
     (if offset \<ge> ls_size l \<or> offset < ls_page_start l then Some ([], l)
      else if offset \<ge> ls_page_start l + length (ls_page l) then
        if offset \<noteq> ls_page_start l + length (ls_page l) then Some ([], l)
        else Option.bind (fill_page (l\<lparr>ls_page_start := offset, ls_page := []\<rparr>)) (\<lambda>l'.
          Some (drop (offset - ls_page_start l') (ls_page l'), l'))
      else Some (drop (offset - ls_page_start l) (ls_page l), l))"

end
