(* ===== verification/Response_Facts.thy ===== *)
theory Response_Facts
  imports Wtp_Responses Frame_Stream
begin

text \<open>
  The three encodings of a LOAD reply are one document. \<open>load_document\<close> is the reply as a plain text; its size
  is known before it is built, the buffer holds exactly it, the document generated for a browser is a
  \<open>response_document\<close> of it, and the stream of one page hands it out in order.
\<close>

section \<open>Sizes\<close>

lemma decimal_width_length: "decimal_width_from n w + 1 = w + length (decimal n)"
proof (induction n w rule: decimal_width_from.induct)
  case (1 n w)
  then show ?case
    by (cases "n < 10") (simp_all add: decimal_width_from.simps [of n] decimal.simps [of n])
qed

lemma decimal_width_eq: "decimal_width n = length (decimal n)"
  using decimal_width_length [of n 1] by (simp add: decimal_width_def)

lemma decimal_digits: "c \<in> set (decimal n) \<Longrightarrow> quoted_char c = [c]"
proof (induction n rule: decimal.induct)
  case (1 n)
  have "quoted_char (Calibration.digit_char k) = [Calibration.digit_char k]" if "k < 10" for k
    using that
    by (auto simp: quoted_char_def Calibration.digit_char_def byte_of_def dest!: arg_cong [where f = "of_char :: char \<Rightarrow> nat"])
  with 1 show ?case by (cases "n < 10") (auto simp: decimal.simps [of n])
qed

lemma quoted_decimal: "json_quote (decimal n) = [quote_char] @ decimal n @ [quote_char]"
proof -
  have "concat (map quoted_char s) = s" if "\<forall>c \<in> set s. quoted_char c = [c]" for s
    using that by (induction s) auto
  then show ?thesis using decimal_digits by (simp add: json_quote_def)
qed

lemma length_lit [simp]: "length (lit s) = length s"
  by (simp add: lit_def)

lemma adjustment_json_length:
  "length (adjustment_json a) = length adjustment_punctuation + decimal_width (event_index a) +
     decimal_width (unat (requested_frequency_nhz a)) + decimal_width (unat (realized_frequency_nhz a))"
  by (simp add: adjustment_json_def adjustment_punctuation_def ns_text_def quoted_decimal decimal_width_eq)

lemma add_widths_length: "add_widths first as bytes + 3 = bytes + length (concat (adjustment_parts first as))"
  by (induction as arbitrary: first bytes) (simp_all add: adjustment_json_length)

lemma load_response_bytes_eq: "load_response_bytes n s = n + length (concat (load_parts s))"
  using add_widths_length [of True "adjustment_items (rsp_adjustments s)" "n + 3"]
  by (simp add: load_response_bytes_def load_parts_def)

section \<open>The buffer\<close>

definition load_document :: "request \<Rightarrow> response \<Rightarrow> bool \<Rightarrow> string" where
  "load_document r s browser = load_reply_prefix r s browser @ concat (load_parts s)"

lemma load_document_response:
  "rsp_ok s \<Longrightarrow> req_operation r = ''LOAD'' \<Longrightarrow> load_document r s False = encode_response r s cfg device firmware"
  by (simp add: load_document_def load_reply_prefix_def encode_response_def load_body_prefix_def)

lemma append_parts_exact:
  assumes "length (ob_bytes b) + length (concat ps) \<le> ob_capacity b"
  shows "append_parts ps (True, b) = (True, b\<lparr>ob_bytes := ob_bytes b @ concat ps\<rparr>)"
  using assms by (induction ps arbitrary: b) (auto simp: append_output_def)

text \<open>C24: the buffer of a LOAD reply is sized exactly. It holds the same bytes as the plain encoding, for the
  host and for a browser, whenever the reply is one, fits into a frame and memory is there, and otherwise
  it is empty; the size computed beforehand always suffices and never leaves a gap.\<close>

theorem load_buffer_exact:
  "encode_load_response_buffer admitted granted r s browser =
     (let doc = load_document r s browser in
      if rsp_ok s \<and> req_operation r = ''LOAD'' \<and> adjustment_count (rsp_adjustments s) \<le> 512 \<and>
         length doc \<le> 65536 \<and> admitted (length doc + 1024) \<and> granted
      then Some doc else None)"
proof -
  let ?p = "load_reply_prefix r s browser"
  let ?doc = "load_document r s browser"
  have bytes: "load_response_bytes (length ?p) s = length ?doc"
    by (simp add: load_response_bytes_eq load_document_def)
  have pos: "?doc \<noteq> []" by (auto simp: load_document_def load_reply_prefix_def response_prefix_def lit_def)
  have "append_parts (?p # load_parts s) (True, \<lparr>ob_bytes = [], ob_capacity = length ?doc\<rparr>) =
      (True, \<lparr>ob_bytes = ?doc, ob_capacity = length ?doc\<rparr>)"
    using append_parts_exact [of "\<lparr>ob_bytes = [], ob_capacity = length ?doc\<rparr>" "?p # load_parts s"]
    by (simp add: load_document_def)
  with bytes pos show ?thesis
    by (auto simp: encode_load_response_buffer_def reserve_output_def Let_def simp del: append_parts.simps)
qed

section \<open>The document for a browser\<close>

fun piece_texts :: "nat \<Rightarrow> frequency_adjustment list \<Rightarrow> string list" where
  "piece_texts i [] = []"
| "piece_texts i (a # as) = ((if i \<noteq> 0 then '','' else []) @ adjustment_json a) # piece_texts (i + 1) as"

lemma length_piece_texts [simp]: "length (piece_texts i as) = length as"
  by (induction i as rule: piece_texts.induct) simp_all

lemma piece_texts_nth:
  "k < length as \<Longrightarrow> piece_texts i as ! k = (if i + k \<noteq> 0 then '','' else []) @ adjustment_json (as ! k)"
  by (induction i as arbitrary: k rule: piece_texts.induct) (auto simp: nth_Cons split: nat.split)

lemma concat_parts: "concat (adjustment_parts (i = 0) as) = concat (piece_texts i as) @ lit '']}}''"
proof (induction i as rule: piece_texts.induct)
  case (2 i a as)
  have "(i + 1 = 0) = False" by simp
  with 2 show ?case by simp
qed simp

lemma load_parts_text: "concat (load_parts s) = concat (piece_texts 0 (adjustment_items (rsp_adjustments s))) @ lit '']}}''"
  using concat_parts [of 0] by (simp add: load_parts_def)

lemma browser_offsets_exact:
  "length (fst (browser_offsets i as n)) = Suc (length as) \<and>
   (\<forall>k \<le> length as. fst (browser_offsets i as n) ! k = n + length (concat (take k (piece_texts i as)))) \<and>
   snd (browser_offsets i as n) = n + length (concat (piece_texts i as)) + 3"
proof (induction i as n rule: browser_offsets.induct)
  case (2 i a as n)
  then show ?case
    by (auto simp: Let_def adjustment_json_length nth_Cons take_Cons split: nat.split)
qed simp

lemma decimal_short: "n < 10 ^ Suc k \<Longrightarrow> length (decimal n) \<le> Suc k"
proof (induction k arbitrary: n)
  case 0
  then show ?case by (simp add: decimal.simps [of n])
next
  case (Suc k)
  then show ?case
    by (cases "n < 10") (simp_all add: decimal.simps [of n] less_mult_imp_div_less)
qed

definition short_indices :: "response \<Rightarrow> bool" where
  "short_indices s \<longleftrightarrow> list_all (\<lambda>a. event_index a < 2 ^ 32) (adjustment_items (rsp_adjustments s))"

lemma format_text:
  assumes "short_indices s" "i < adjustment_count (rsp_adjustments s)" "bs_adjustments b = rsp_adjustments s"
  shows "format_adjustment b i = piece_texts 0 (adjustment_items (rsp_adjustments s)) ! i"
proof -
  let ?a = "adjustment_at (rsp_adjustments s) i"
  have item: "adjustment_items (rsp_adjustments s) ! i = ?a" "i < length (adjustment_items (rsp_adjustments s))"
    using assms(2) by (simp_all add: adjustment_items_def)
  have index: "event_index ?a < 10 ^ Suc 9"
    using assms(1) item by (auto simp: short_indices_def list_all_length)
  have word: "unat (x :: u64) < 10 ^ Suc 19" for x
    using unat_u64_le [of x] by simp
  have "length (adjustment_json ?a) \<le> 191"
    using decimal_short [OF index] decimal_short [OF word, of "requested_frequency_nhz ?a"]
      decimal_short [OF word, of "realized_frequency_nhz ?a"]
    by (simp add: adjustment_json_length decimal_width_eq adjustment_punctuation_def)
  moreover have "length (if i \<noteq> 0 then '','' else [] :: string) \<le> 1" by simp
  ultimately have "length ((if i \<noteq> 0 then '','' else []) @ adjustment_json ?a) \<le> 192"
    by (simp only: length_append)
  then have "\<not> 192 < length ((if i \<noteq> 0 then '','' else []) @ adjustment_json ?a)" by (simp only: not_less)
  moreover have "(if i \<noteq> 0 then '','' else []) @ lit ''{`event_index`:'' @ decimal (event_index ?a) @
      lit '',`requested_frequency_nhz`:`'' @ decimal (unat (requested_frequency_nhz ?a)) @
      lit ''`,`realized_frequency_nhz`:`'' @ decimal (unat (realized_frequency_nhz ?a)) @ lit ''`}'' =
    (if i \<noteq> 0 then '','' else []) @ adjustment_json ?a"
    by (simp add: adjustment_json_def ns_text_def quoted_decimal lit_def)
  ultimately have "format_adjustment b i = (if i \<noteq> 0 then '','' else []) @ adjustment_json ?a"
    by (simp only: format_adjustment_def Let_def assms(3) if_False)
  then show ?thesis using item by (simp add: piece_texts_nth)
qed

definition offsets_of :: "nat \<Rightarrow> string list \<Rightarrow> nat \<Rightarrow> nat" where
  "offsets_of start pieces k = start + length (concat (take k pieces))"

lemma browser_loop_exact:
  assumes "\<And>k. k < N \<Longrightarrow> format_adjustment b k = pieces ! k" "\<And>k. k \<le> N \<Longrightarrow> bs_offsets b ! k = offsets_of start pieces k"
    "adjustment_count (bs_adjustments b) = N" "length pieces = N" "i \<le> N"
    "offsets_of start pieces i \<le> offset" "if i < N then offset < offsets_of start pieces (Suc i) else offset = offsets_of start pieces N"
    "\<And>k. k < N \<Longrightarrow> pieces ! k \<noteq> []"
  shows "browser_loop b n i (offset, out) =
    (let part = take (n - length out) (drop (offset - start) (concat pieces)) in (offset + length part, out @ part))"
  using assms(5-7)
proof (induction "N - i" arbitrary: i offset out rule: less_induct)
  case less
  show ?case
  proof (cases "length out < n \<and> i < N")
    case False
    then have "n - length out = 0 \<or> offset - start \<ge> length (concat pieces)"
      using less.prems assms(4) by (auto simp: offsets_of_def)
    with False assms(3) show ?thesis by (auto simp: browser_loop.simps [of _ _ i])
  next
    case True
    let ?t = "pieces ! i"
    define k where "k = offset - offsets_of start pieces i"
    have next_offset: "offsets_of start pieces (Suc i) = offsets_of start pieces i + length ?t"
      using True assms(4) by (simp add: offsets_of_def take_Suc_conv_app_nth)
    have k: "offset = offsets_of start pieces i + k" "k < length ?t"
      using less.prems True next_offset by (simp_all add: k_def)
    have "concat pieces = concat (take i pieces) @ ?t @ concat (drop (Suc i) pieces)"
      using True assms(4) by (metis append_take_drop_id concat.simps(2) concat_append Cons_nth_drop_Suc)
    then have rest: "drop (offset - start) (concat pieces) = drop k ?t @ concat (drop (Suc i) pieces)"
      using k by (simp add: offsets_of_def)
    let ?piece = "take (n - length out) (drop k ?t)"
    have step: "browser_loop b n i (offset, out) =
        (if offset + length ?piece \<noteq> offsets_of start pieces (Suc i) then (offset + length ?piece, out @ ?piece)
         else browser_loop b n (Suc i) (offset + length ?piece, out @ ?piece))"
      using True assms(1-3) k
      by (simp add: browser_loop.simps [of _ _ i] copy_text_eq Let_def del: length_take take_drop)
    show ?thesis
    proof (cases "n - length out < length (drop k ?t)")
      case short: True
      then have "offset + length ?piece \<noteq> offsets_of start pieces (Suc i)"
        using next_offset k by auto
      with step short rest show ?thesis by (simp add: Let_def)
    next
      case full: False
      then have piece: "?piece = drop k ?t" by simp
      have reached: "offset + length ?piece = offsets_of start pieces (Suc i)"
        unfolding piece using next_offset k by simp
      have after: "drop (offsets_of start pieces (Suc i) - start) (concat pieces) = concat (drop (Suc i) pieces)"
        using True assms(4)
        by (metis (no_types, lifting) add_diff_cancel_left' append_eq_conv_conj append_take_drop_id concat_append offsets_of_def)
      have bound: "if Suc i < N then offsets_of start pieces (Suc i) < offsets_of start pieces (Suc (Suc i))
          else offsets_of start pieces (Suc i) = offsets_of start pieces N"
        using True assms(4) assms(8) [of "Suc i"] by (auto simp: offsets_of_def take_Suc_conv_app_nth [of "Suc i"] not_less le_Suc_eq)
      have "browser_loop b n (Suc i) (offsets_of start pieces (Suc i), out @ ?piece) =
          (let part = take (n - length (out @ ?piece)) (concat (drop (Suc i) pieces))
           in (offsets_of start pieces (Suc i) + length part, (out @ ?piece) @ part))"
      proof -
        have "N - Suc i < N - i" "Suc i \<le> N" using True by (simp_all add: diff_less_mono2)
        from less.hyps [OF this(1) this(2) order_refl bound, of "out @ ?piece"] show ?thesis by (simp only: after)
      qed
      then show ?thesis
        using step reached rest full piece by (simp add: Let_def)
    qed
  qed
qed

text \<open>The search for the piece that holds an offset, over growing offsets.\<close>

lemma piece_found:
  fixes offset :: nat
  assumes "\<And>k. k \<le> N \<Longrightarrow> os ! k = f k" "length os = Suc N" "\<And>k. k < N \<Longrightarrow> f k < f (Suc k)"
    "f 0 \<le> offset" "offset < f N"
  defines "i \<equiv> length (takeWhile (\<lambda>o'. o' \<le> offset) os) - 1"
  shows "i < N \<and> f i \<le> offset \<and> offset < f (Suc i)"
proof -
  let ?t = "takeWhile (\<lambda>o'. o' \<le> offset) os"
  have "length ?t \<noteq> 0"
    using assms(1) [of 0] assms(2,4) by (cases os) auto
  moreover have "length ?t \<noteq> Suc N"
  proof
    assume "length ?t = Suc N"
    then have "?t = os" using assms(2) by (metis takeWhile_eq_take take_all order_refl)
    then have "\<forall>x \<in> set os. x \<le> offset" by (metis set_takeWhileD)
    moreover have "f N \<in> set os" using assms(1) [of N] assms(2) by (metis lessI nth_mem order_refl)
    ultimately show False using assms(5) by auto
  qed
  moreover have "length ?t \<le> Suc N"
    using assms(2) length_takeWhile_le by metis
  ultimately have i: "length ?t = Suc i" "i < N" unfolding i_def by linarith+
  have "os ! i \<le> offset"
    using i by (metis lessI nth_mem set_takeWhileD takeWhile_nth)
  moreover have "\<not> os ! Suc i \<le> offset"
    using nth_length_takeWhile [of "\<lambda>o'. o' \<le> offset" os] i assms(2) by simp
  ultimately show ?thesis
    using i assms(1) [of i] assms(1) [of "Suc i"] by simp
qed

lemma browser_copy_joined:
  assumes "short_indices s"
  shows "browser_copy (new_browser_source r s) start n =
    take n (drop start (load_document r s True))"
proof -
  let ?as = "adjustment_items (rsp_adjustments s)"
  let ?ps = "piece_texts 0 ?as"
  let ?p = "load_reply_prefix r s True"
  let ?b = "new_browser_source r s"
  let ?N = "length ?as"
  have b: "bs_prefix ?b = ?p" "bs_adjustments ?b = rsp_adjustments s"
    by (simp_all add: new_browser_source_def Let_def load_reply_prefix_def)
  have offsets: "bs_offsets ?b = fst (browser_offsets 0 ?as (length ?p))"
    by (simp add: new_browser_source_def Let_def load_reply_prefix_def)
  have os: "length (bs_offsets ?b) = Suc ?N" "\<And>k. k \<le> ?N \<Longrightarrow> bs_offsets ?b ! k = offsets_of (length ?p) ?ps k"
    using browser_offsets_exact [of 0 ?as "length ?p"] by (simp_all add: offsets offsets_of_def)
  have count: "adjustment_count (rsp_adjustments s) = ?N" by (simp add: adjustment_items_def)
  have filled: "k < ?N \<Longrightarrow> ?ps ! k \<noteq> []" for k
    by (simp add: piece_texts_nth adjustment_json_def lit_def)
  have growing: "k < ?N \<Longrightarrow> offsets_of (length ?p) ?ps k < offsets_of (length ?p) ?ps (Suc k)" for k
    using filled by (simp add: offsets_of_def take_Suc_conv_app_nth)
  have ends: "offsets_of (length ?p) ?ps ?N = length ?p + length (concat ?ps)" "offsets_of (length ?p) ?ps 0 = length ?p"
    by (simp_all add: offsets_of_def)
  have pieces: "format_adjustment ?b k = ?ps ! k" if "k < ?N" for k
    using assms that b count by (intro format_text) simp_all
  have loop: "browser_loop ?b n (length (takeWhile (\<lambda>o'. o' \<le> offset) (bs_offsets ?b)) - 1) (offset, out) =
      (let part = take (n - length out) (drop (offset - length ?p) (concat ?ps)) in (offset + length part, out @ part))"
    if "length ?p \<le> offset" "offset < length ?p + length (concat ?ps)" for offset :: nat and out
  proof -
    have "length (takeWhile (\<lambda>o'. o' \<le> offset) (bs_offsets ?b)) - 1 < ?N \<and>
        offsets_of (length ?p) ?ps (length (takeWhile (\<lambda>o'. o' \<le> offset) (bs_offsets ?b)) - 1) \<le> offset \<and>
        offset < offsets_of (length ?p) ?ps (Suc (length (takeWhile (\<lambda>o'. o' \<le> offset) (bs_offsets ?b)) - 1))"
      by (rule piece_found [OF os(2,1) growing]) (simp_all add: ends that)
    then show ?thesis
      by (intro browser_loop_exact [where N = ?N]) (simp_all add: pieces os b count filled)
  qed
  have "browser_copy ?b start n = joined_copy ?p (text_source (concat ?ps)) (lit '']}}'') start n"
  proof -
    define first where "first = (if start < length ?p then copy_text ?p start n else [])"
    let ?D = "concat ?ps"
    let ?offset = "start + length first"
    have ending: "bs_offsets ?b ! (length (bs_offsets ?b) - 1) = length ?p + length ?D"
      using os(1) os(2) [of ?N] ends by simp
    show ?thesis
    proof (cases "length first < n")
      case False
      have "browser_loop ?b n i (?offset, first) = (?offset, first)" for i
        using False by (simp add: browser_loop.simps [of _ _ i])
      with False show ?thesis
        unfolding browser_copy_def joined_copy_def Let_def b first_def [symmetric] by simp
    next
      case True
      then have past: "length ?p \<le> ?offset" by (auto simp: first_def copy_text_eq split: if_splits)
      define part where "part = take (n - length first) (drop (?offset - length ?p) ?D)"
      have looped: "(if ?offset < length ?p + length ?D then browser_loop ?b n
            (length (takeWhile (\<lambda>o'. o' \<le> ?offset) (bs_offsets ?b)) - 1) (?offset, first) else (?offset, first)) =
          (?offset + length part, first @ part)"
      proof (cases "?offset < length ?p + length ?D")
        case True
        with loop [OF past True, of first] show ?thesis by (simp add: part_def [symmetric] Let_def)
      next
        case False
        then have "part = []" by (simp add: part_def)
        with False show ?thesis by simp
      qed
      have second: "(if length first < n \<and> ?offset \<ge> length ?p \<and> ?offset - length ?p < rs_size (text_source ?D)
          then rs_copy (text_source ?D) (?offset - length ?p) (n - length first) else []) = part"
        using True past by (auto simp: part_def text_source_def copy_text_eq)
      have "browser_copy ?b start n = (if length (first @ part) < n \<and> ?offset + length part \<ge> length ?p + length ?D
          then (first @ part) @ copy_text (lit '']}}'') (?offset + length part - (length ?p + length ?D)) (n - length (first @ part))
          else first @ part)"
        unfolding browser_copy_def Let_def b ending first_def [symmetric] looped by simp
      moreover have "joined_copy ?p (text_source ?D) (lit '']}}'') start n =
          (if length (first @ part) < n \<and> ?offset + length part \<ge> length ?p + rs_size (text_source ?D)
          then (first @ part) @ copy_text (lit '']}}'') (?offset + length part - length ?p - rs_size (text_source ?D))
            (n - length (first @ part)) else first @ part)"
        unfolding joined_copy_def Let_def first_def [symmetric] second by (rule refl)
      ultimately show ?thesis by (simp add: text_source_def)
    qed
  qed
  then show ?thesis
    using joined_copy_exact [of "text_source (concat ?ps)" "concat ?ps" ?p "lit '']}}''" start n]
    by (simp add: text_source_def copy_text_eq load_document_def load_parts_text)
qed

text \<open>C25: the document for a browser is never held in memory as a whole, and yet it is exact. A source is
  given out precisely when the reply is one, fits into a frame and memory is there; its size is the size of
  the document, and whatever part is asked for, in whatever order and with whatever room, the bytes
  generated for it are those of the document. An event index is a number of 32 bits.\<close>

theorem browser_document_exact:
  assumes "short_indices s"
  shows "map_option (\<lambda>src. (rs_size src, rs_copy src start n)) (load_response_source admitted granted r s) =
     (let doc = load_document r s True in
      if rsp_ok s \<and> req_operation r = ''LOAD'' \<and> adjustment_count (rsp_adjustments s) \<le> 512 \<and>
         length doc \<le> 65536 \<and> admitted 8192 \<and> granted
      then Some (length doc, take n (drop start doc)) else None)"
proof -
  have "bs_size (new_browser_source r s) = length (load_document r s True)"
    using browser_offsets_exact [of 0 "adjustment_items (rsp_adjustments s)" "length (load_reply_prefix r s True)"]
    by (simp add: new_browser_source_def Let_def load_document_def load_parts_text load_reply_prefix_def)
  with browser_copy_joined [OF assms] show ?thesis
    by (simp add: load_response_source_def browser_response_def Let_def)
qed

definition sample_load :: request where
  "sample_load = \<lparr>req_protocol = ''wtp/1'', req_session_id = ''s'', req_request_id = ''r1'', req_principal = ''p'',
     req_operation = ''LOAD'', req_payload_digest = [], req_body = NoBody, req_body_valid = True\<rparr>"

definition sample_loaded :: response where
  "sample_loaded = blank_response\<lparr>rsp_ok := True, rsp_state := Loaded, rsp_job_id := ''job'',
     rsp_adjustments := no_adjustments\<lparr>adjustment_values := Some
       [\<lparr>event_index = 0, requested_frequency_nhz = 14097100000000000, realized_frequency_nhz = 14097100000000123\<rparr>,
        \<lparr>event_index = 7, requested_frequency_nhz = 14097101464800000, realized_frequency_nhz = 14097101464799990\<rparr>]\<rparr>\<rparr>"

theorem browser_document_exact_witness:
  "map_option (\<lambda>src. (rs_size src, rs_copy src 40 900))
     (load_response_source (\<lambda>bytes. bytes \<le> 10000) True sample_load sample_loaded) =
   (let doc = load_document sample_load sample_loaded True in
    if rsp_ok sample_loaded \<and> req_operation sample_load = ''LOAD'' \<and>
       adjustment_count (rsp_adjustments sample_loaded) \<le> 512 \<and> length doc \<le> 65536 \<and> (8192 :: nat) \<le> 10000 \<and> True
    then Some (length doc, take 900 (drop 40 doc)) else None)"
  by (rule browser_document_exact)
    (simp add: short_indices_def sample_loaded_def adjustment_items_def adjustment_count_def adjustment_at_def
      no_adjustments_def upt_rec)

section \<open>The stream of one page\<close>

definition stream_pending :: "load_stream \<Rightarrow> string" where
  "stream_pending l = drop (ls_piece_offset l) (ls_piece l) @
     concat (drop (ls_next_adjustment l) (piece_texts 0 (adjustment_items (ls_adjustments l)))) @
     (if ls_closing l then [] else lit '']}}'')"

definition stream_work :: "load_stream \<Rightarrow> nat" where
  "stream_work l = 2 * (adjustment_count (ls_adjustments l) - ls_next_adjustment l + of_bool (\<not> ls_closing l)) +
     of_bool (ls_piece_offset l \<noteq> length (ls_piece l)) + (4096 - length (ls_page l))"

definition same_stream :: "load_stream \<Rightarrow> load_stream \<Rightarrow> bool" where
  "same_stream l l' \<longleftrightarrow> ls_adjustments l' = ls_adjustments l \<and> ls_page_start l' = ls_page_start l \<and> ls_size l' = ls_size l"

lemma next_piece_some:
  assumes "ls_piece_offset l = length (ls_piece l)" "next_piece l = Some l'"
  shows "stream_pending l' = stream_pending l \<and> ls_piece_offset l' = 0 \<and> ls_page l' = ls_page l \<and> same_stream l l' \<and>
    stream_work l' < stream_work l"
proof (cases "ls_next_adjustment l < adjustment_count (ls_adjustments l)")
  case True
  let ?as = "adjustment_items (ls_adjustments l)"
  let ?k = "ls_next_adjustment l"
  have k: "?k < length ?as" using True by (simp add: adjustment_items_def)
  then have "drop ?k (piece_texts 0 ?as) = piece_texts 0 ?as ! ?k # drop (Suc ?k) (piece_texts 0 ?as)"
    by (simp add: Cons_nth_drop_Suc)
  moreover have "piece_texts 0 ?as ! ?k =
      (if ?k \<noteq> 0 then '','' else []) @ adjustment_json (adjustment_at (ls_adjustments l) ?k)"
    using k by (simp add: piece_texts_nth adjustment_items_def)
  ultimately show ?thesis
    using assms True by (auto simp: next_piece_def Let_def stream_pending_def stream_work_def same_stream_def)
next
  case False
  with assms show ?thesis
    by (auto simp: next_piece_def Let_def stream_pending_def stream_work_def same_stream_def adjustment_items_def
        split: if_splits)
qed

lemma next_piece_none:
  "ls_piece_offset l = length (ls_piece l) \<Longrightarrow> next_piece l = None \<Longrightarrow> stream_pending l = []"
  by (auto simp: next_piece_def Let_def stream_pending_def adjustment_items_def split: if_splits)

lemma take_piece_moves:
  assumes "ls_piece_offset l \<le> length (ls_piece l)" "length (ls_page l) < 4096"
  shows "\<exists>c. c \<le> 4096 - length (ls_page l) \<and> ls_page (take_piece l) = ls_page l @ take c (stream_pending l) \<and>
    stream_pending (take_piece l) = drop c (stream_pending l) \<and> c \<le> length (stream_pending l) \<and>
    ls_piece_offset (take_piece l) \<le> length (ls_piece (take_piece l)) \<and> same_stream l (take_piece l) \<and>
    stream_work (take_piece l) \<le> stream_work l \<and>
    (ls_piece_offset l \<noteq> length (ls_piece l) \<longrightarrow> stream_work (take_piece l) < stream_work l)"
proof -
  define c where "c = min (4096 - length (ls_page l)) (length (ls_piece l) - ls_piece_offset l)"
  have c: "c \<le> 4096 - length (ls_page l)" "c \<le> length (ls_piece l) - ls_piece_offset l" by (simp_all add: c_def)
  have t: "take_piece l = l\<lparr>ls_page := ls_page l @ take c (drop (ls_piece_offset l) (ls_piece l)),
      ls_piece_offset := ls_piece_offset l + c\<rparr>"
    by (simp add: take_piece_def Let_def c_def)
  have moved: "c = 0 \<Longrightarrow> ls_piece_offset l = length (ls_piece l)"
    using assms by (auto simp: c_def)
  have "drop (c - (length (ls_piece l) - ls_piece_offset l)) xs = xs" for xs :: string using c(2) by simp
  with c moved assms show ?thesis
    by (intro exI [where x = c])
      (auto simp: t stream_pending_def stream_work_def same_stream_def add.commute of_bool_def)
qed

lemma take_take_drop: "c \<le> n \<Longrightarrow> take c xs @ take (n - c) (drop c xs) = take n xs"
  by (metis le_add_diff_inverse take_add)

lemma fill_page_exact:
  assumes "ls_piece_offset l \<le> length (ls_piece l)" "length (ls_page l) \<le> 4096"
  shows "\<exists>l'. fill_page l = Some l' \<and> ls_page l' = ls_page l @ take (4096 - length (ls_page l)) (stream_pending l) \<and>
    stream_pending l' = drop (4096 - length (ls_page l)) (stream_pending l) \<and>
    ls_piece_offset l' \<le> length (ls_piece l') \<and> same_stream l l'"
  using assms
proof (induction "stream_work l" arbitrary: l rule: less_induct)
  case less
  show ?case
  proof (cases "length (ls_page l) < 4096")
    case False
    with less.prems show ?thesis by (simp add: fill_page.simps [of l] same_stream_def)
  next
    case True
    have step: "\<exists>l'. fill_page (take_piece m) = Some l' \<and>
        ls_page l' = ls_page l @ take (4096 - length (ls_page l)) (stream_pending l) \<and>
        stream_pending l' = drop (4096 - length (ls_page l)) (stream_pending l) \<and>
        ls_piece_offset l' \<le> length (ls_piece l') \<and> same_stream l l'"
      if m: "ls_piece_offset m \<le> length (ls_piece m)" "ls_page m = ls_page l" "stream_pending m = stream_pending l"
        "same_stream l m" "stream_work (take_piece m) < stream_work l" for m
    proof -
      from take_piece_moves [of m] m True obtain c where c: "c \<le> 4096 - length (ls_page l)"
        "ls_page (take_piece m) = ls_page l @ take c (stream_pending l)" "c \<le> length (stream_pending l)"
        "stream_pending (take_piece m) = drop c (stream_pending l)"
        "ls_piece_offset (take_piece m) \<le> length (ls_piece (take_piece m))" "same_stream m (take_piece m)"
        by auto
      have room: "length (ls_page (take_piece m)) \<le> 4096" using c True by simp
      obtain l' where l': "fill_page (take_piece m) = Some l'"
        "ls_page l' = ls_page (take_piece m) @ take (4096 - length (ls_page (take_piece m))) (stream_pending (take_piece m))"
        "stream_pending l' = drop (4096 - length (ls_page (take_piece m))) (stream_pending (take_piece m))"
        "ls_piece_offset l' \<le> length (ls_piece l')" "same_stream (take_piece m) l'"
        using less.hyps [OF m(5) c(5) room] by blast
      have rest: "4096 - length (ls_page (take_piece m)) = 4096 - length (ls_page l) - c" using c by simp
      have "ls_page l' = ls_page l @ take (4096 - length (ls_page l)) (stream_pending l)"
        unfolding l'(2) rest unfolding c(2,4)
        by (simp only: append_assoc take_take_drop [OF c(1)])
      moreover have "stream_pending l' = drop (4096 - length (ls_page l)) (stream_pending l)"
        unfolding l'(3) rest unfolding c(4) using c(1) by (simp only: drop_drop le_add_diff_inverse2)
      moreover have "same_stream l l'" using m(4) c(6) l'(5) by (simp add: same_stream_def)
      ultimately show ?thesis using l' by blast
    qed
    show ?thesis
    proof (cases "ls_piece_offset l = length (ls_piece l)")
      case used: True
      show ?thesis
      proof (cases "next_piece l")
        case None
        then have "stream_pending l = []" using used next_piece_none by blast
        moreover have "stream_pending (l\<lparr>ls_piece := [], ls_piece_offset := 0\<rparr>) = stream_pending l"
          using used by (simp add: stream_pending_def)
        ultimately show ?thesis
          using True used None by (simp add: fill_page.simps [of l] same_stream_def)
      next
        case (Some l1)
        have "fill_page l = fill_page (take_piece l1)" using True used Some by (simp add: fill_page.simps [of l])
        with next_piece_some [OF used Some] take_piece_moves [of l1] True step [of l1] show ?thesis
          by (metis le0 le_less_trans)
      qed
    next
      case False
      then have "fill_page l = fill_page (take_piece l)" using True by (simp add: fill_page.simps [of l])
      with take_piece_moves [OF less.prems(1) True] False step [of l] less.prems(1) show ?thesis
        by (metis same_stream_def)
    qed
  qed
qed

text \<open>What the stream has handed out and what is left make up the document.\<close>

definition stream_ok :: "string \<Rightarrow> load_stream \<Rightarrow> bool" where
  "stream_ok doc l \<longleftrightarrow> ls_piece_offset l \<le> length (ls_piece l) \<and> length (ls_page l) \<le> 4096 \<and> ls_size l = length doc \<and>
     ls_page_start l \<le> length doc \<and> drop (ls_page_start l) doc = ls_page l @ stream_pending l"

lemma stream_at_exact:
  assumes "stream_ok doc l"
  shows "\<exists>out l'. stream_at l offset = Some (out, l') \<and> stream_ok doc l' \<and> out = take (length out) (drop offset doc) \<and>
    (offset = ls_page_start l + length (ls_page l) \<and> offset < length doc \<longrightarrow>
       out = take 4096 (drop offset doc) \<and> ls_page_start l' = offset \<and> ls_page l' = out)"
proof -
  note ok = assms [unfolded stream_ok_def]
  let ?stop = "ls_page_start l + length (ls_page l)"
  consider (outside) "offset \<ge> length doc \<or> offset < ls_page_start l"
    | (gap) "offset < length doc" "offset > ?stop"
    | (held) "offset < length doc" "ls_page_start l \<le> offset" "offset < ?stop"
    | (fresh) "offset < length doc" "offset = ?stop" by linarith
  then show ?thesis
  proof cases
    case outside
    with assms show ?thesis by (auto simp: stream_at_def ok)
  next
    case gap
    with assms show ?thesis by (simp add: stream_at_def ok)
  next
    case held
    let ?out = "drop (offset - ls_page_start l) (ls_page l)"
    have "drop offset doc = drop (offset - ls_page_start l) (drop (ls_page_start l) doc)"
      using held by simp
    also have "\<dots> = ?out @ stream_pending l"
      using ok held by (metis add_diff_cancel_left' diff_is_0_eq diff_less_mono drop_0 drop_append less_imp_le)
    finally have "?out = take (length ?out) (drop offset doc)" by simp
    moreover have "stream_at l offset = Some (?out, l)" using held by (simp add: stream_at_def ok)
    ultimately show ?thesis
      using held assms by (intro exI [of _ ?out] exI [of _ l]) (simp del: length_drop)
  next
    case fresh
    let ?l = "l\<lparr>ls_page_start := offset, ls_page := []\<rparr>"
    have pending: "stream_pending ?l = drop offset doc"
    proof -
      have "drop offset doc = drop (length (ls_page l)) (drop (ls_page_start l) doc)" using fresh by (simp add: add.commute)
      with ok show ?thesis by (simp add: stream_pending_def)
    qed
    obtain l' where l': "fill_page ?l = Some l'" "ls_page l' = take 4096 (drop offset doc)"
      "stream_pending l' = drop 4096 (drop offset doc)" "ls_piece_offset l' \<le> length (ls_piece l')" "same_stream ?l l'"
      using fill_page_exact [of ?l] ok pending by auto
    have "stream_at l offset = Some (ls_page l', l')"
      using fresh ok l' by (simp add: stream_at_def same_stream_def)
    moreover have "drop offset doc = ls_page l' @ stream_pending l'"
      unfolding l'(2,3) by (rule append_take_drop_id [symmetric])
    with l' ok fresh have "stream_ok doc l'"
      by (simp add: stream_ok_def same_stream_def del: drop_drop)
    moreover have "take 4096 (drop offset doc) = take (length (take 4096 (drop offset doc))) (drop offset doc)"
      by (metis append_eq_conv_conj append_take_drop_id)
    ultimately show ?thesis
      using l' fresh by (intro exI [of _ "ls_page l'"] exI [of _ l']) (simp add: same_stream_def del: length_take)
  qed
qed

fun read_stream :: "load_stream \<Rightarrow> nat list \<Rightarrow> string list option" where
  "read_stream l [] = Some []"
| "read_stream l (offset # os) =
     Option.bind (stream_at l offset) (\<lambda>(out, l'). map_option (\<lambda>outs. out # outs) (read_stream l' os))"

fun read_on :: "nat \<Rightarrow> load_stream \<Rightarrow> nat \<Rightarrow> string option" where
  "read_on 0 l offset = Some []"
| "read_on (Suc k) l offset =
     Option.bind (stream_at l offset) (\<lambda>(out, l'). map_option (\<lambda>outs. out @ outs) (read_on k l' (offset + length out)))"

lemma read_stream_exact:
  "stream_ok doc l \<Longrightarrow> \<exists>outs. read_stream l os = Some outs \<and>
     list_all2 (\<lambda>offset out. out = take (length out) (drop offset doc)) os outs"
proof (induction os arbitrary: l)
  case (Cons offset os)
  from stream_at_exact [OF Cons.prems, of offset] obtain out l' where l': "stream_at l offset = Some (out, l')"
    "stream_ok doc l'" "out = take (length out) (drop offset doc)" by blast
  from Cons.IH [OF l'(2)] l'(1,3) show ?case by auto
qed simp

lemma read_on_exact:
  "stream_ok doc l \<Longrightarrow> ls_page_start l + length (ls_page l) = offset \<Longrightarrow>
   read_on k l offset = Some (take (4096 * k) (drop offset doc))"
proof (induction k arbitrary: l offset)
  case (Suc k)
  show ?case
  proof (cases "offset < length doc")
    case True
    with stream_at_exact [OF Suc.prems(1), of offset] Suc.prems(2) obtain l' where l':
      "stream_at l offset = Some (take 4096 (drop offset doc), l')" "stream_ok doc l'"
      "ls_page_start l' = offset" "ls_page l' = take 4096 (drop offset doc)" by auto
    have rest: "drop (offset + length (take 4096 (drop offset doc))) doc = drop 4096 (drop offset doc)"
      by (simp add: min_def add.commute)
    have "read_on k l' (offset + length (take 4096 (drop offset doc))) =
        Some (take (4096 * k) (drop 4096 (drop offset doc)))"
      unfolding rest [symmetric] by (rule Suc.IH [OF l'(2)]) (simp only: l')
    then show ?thesis
      using l'(1) by (simp add: take_add del: take_drop drop_drop length_take length_drop)
  next
    case False
    then have none: "stream_at l offset = Some ([], l)" "drop offset doc = []"
      using Suc.prems(1) by (simp_all add: stream_at_def stream_ok_def)
    with Suc.IH [OF Suc.prems] show ?thesis by simp
  qed
qed simp

lemma read_nothing:
  assumes "ls_size l = 0"
  shows "read_on k l offset = Some [] \<and> (\<exists>outs. read_stream l os = Some outs \<and>
    list_all2 (\<lambda>offset out. out = take (length out) (drop offset [])) os outs)"
proof -
  have s: "stream_at l o' = Some ([], l)" for o' using assms by (simp add: stream_at_def)
  have "read_on k l offset = Some []" by (induction k arbitrary: offset) (simp_all add: s)
  moreover have "\<exists>outs. read_stream l os = Some outs \<and>
      list_all2 (\<lambda>offset out. out = take (length out) (drop offset [])) os outs"
    by (induction os) (auto simp: s)
  ultimately show ?thesis ..
qed

lemma text_crc_fold: "fold text_crc parts c = text_crc (concat parts) c"
proof (induction parts arbitrary: c)
  case Nil
  show ?case by (simp add: text_crc_def crc32c_def xor.assoc)
next
  case (Cons p ps)
  then show ?case by (simp add: text_crc_def crc32c_append)
qed

text \<open>C26: the stream of a LOAD reply holds one page of 4096 bytes at a time, and hands out the very bytes of the
  plain encoding. Whatever offsets the transport asks for, in whatever order, each answer is there and is a
  part of the document from that offset on, never a skipped or a wrong byte; and a transport that advances by what
  it was given has the whole document after 16 reads. The checksum announced is that of the document.
  When the reply is none, does not fit or memory is short, the document is empty.\<close>

theorem stream_exact:
  "let doc = (if rsp_ok s \<and> req_operation r = ''LOAD'' \<and> adjustment_count (rsp_adjustments s) \<le> 512 \<and>
                 length (load_document r s False) \<le> 65536 \<and> admitted 6144 \<and> granted
              then load_document r s False else []);
       l = new_load_stream admitted granted r s
   in read_on 16 l 0 = Some doc \<and>
     ls_size l = length doc \<and> ls_checksum l = text_crc doc 0 \<and>
     (\<exists>outs. read_stream l offsets = Some outs \<and>
        list_all2 (\<lambda>offset out. out = take (length out) (drop offset doc)) offsets outs)"
proof -
  define doc where "doc = (if rsp_ok s \<and> req_operation r = ''LOAD'' \<and> adjustment_count (rsp_adjustments s) \<le> 512 \<and>
      length (load_document r s False) \<le> 65536 \<and> admitted 6144 \<and> granted then load_document r s False else [])"
  let ?l = "new_load_stream admitted granted r s"
  let ?p = "response_prefix r s @ lit '',`body`:'' @ load_fields s"
  have document: "load_document r s False = ?p @ concat (load_parts s)"
    by (simp add: load_document_def load_reply_prefix_def)
  have bytes: "load_response_bytes (length ?p) s = length (load_document r s False)"
    by (simp only: load_response_bytes_eq document length_append)
  have l: "?l = (if doc = [] then empty_stream
      else empty_stream\<lparr>ls_piece := ?p, ls_adjustments := rsp_adjustments s,
        ls_checksum := fold text_crc (?p # load_parts s) 0, ls_size := length doc\<rparr>)"
  proof -
    have "load_document r s False \<noteq> []" by (simp add: document response_prefix_def lit_def)
    then show ?thesis
      by (auto simp: new_load_stream_def Let_def bytes doc_def simp del: append_assoc length_append)
  qed
  have filled: "doc \<noteq> [] \<Longrightarrow> doc = ?p @ concat (load_parts s)"
    by (simp add: doc_def document split: if_splits)
  have short: "length doc \<le> 65536" by (simp add: doc_def)
  have start: "ls_page_start ?l = 0 \<and> ls_page ?l = [] \<and> ls_size ?l = length doc"
    by (simp add: l empty_stream_def)
  have "read_on 16 ?l 0 = Some doc \<and> ls_checksum ?l = text_crc doc 0 \<and>
      (\<exists>outs. read_stream ?l offsets = Some outs \<and>
        list_all2 (\<lambda>offset out. out = take (length out) (drop offset doc)) offsets outs)"
  proof (cases "doc = []")
    case True
    with read_nothing [of ?l 16 0 offsets] start show ?thesis
      by (simp add: l empty_stream_def text_crc_def crc32c_def)
  next
    case False
    then have "stream_ok doc ?l"
      using filled by (simp add: l stream_ok_def empty_stream_def stream_pending_def load_parts_text)
    moreover have "ls_checksum ?l = text_crc (?p @ concat (load_parts s)) 0"
      using False unfolding l by (simp add: text_crc_fold del: fold.simps)
    then have "ls_checksum ?l = text_crc doc 0" unfolding filled [OF False] .
    ultimately show ?thesis
      using read_stream_exact [of doc ?l offsets] read_on_exact [of doc ?l 0 16] start short by simp
  qed
  with start show ?thesis by (simp add: doc_def [symmetric] Let_def)
qed

end
