(* ===== verification/Job_Transitions.thy ===== *)
theory Job_Transitions
  imports Job_Safety
begin

text \<open>
  What one call does to the public state of the job service. \<open>call\<close> names the operations of the step
  relation, \<open>invoke\<close> performs one, and \<open>after\<close> lists the states it can leave for each state it finds: expiry
  and pruning come first (\<open>tidied\<close>), then the request, the poll or the abort itself. Only requests named
  LOAD, ARM, RELEASE and ABORT have a row of their own, and only polls start a job.
\<close>

section \<open>Calls\<close>

datatype 'd call =
  Handle request | HandleInternal request | Poll | LocalAbort | InhibitOutput | BeginMaintenance | Observe bool
  | EndMaintenance | HoldVerification | FinishVerification | Environment 'd

fun invoke :: "'d environment \<Rightarrow> 'd call \<Rightarrow> 'd service \<Rightarrow> 'd service" where
  "invoke E (Handle r) s = snd (run_state (handle E r) s)"
| "invoke E (HandleInternal r) s = snd (run_state (handle_internal E r) s)"
| "invoke E Poll s = snd (run_state (poll E) s)"
| "invoke E LocalAbort s = snd (run_state (local_abort E) s)"
| "invoke E InhibitOutput s = snd (run_state (local_inhibit_output E) s)"
| "invoke E BeginMaintenance s = snd (run_state (begin_maintenance E) s)"
| "invoke E (Observe history) s = snd (run_state (status E history) s)"
| "invoke E EndMaintenance s = end_maintenance s"
| "invoke E HoldVerification s = hold_update_verification s"
| "invoke E FinishVerification s = finish_update_verification s"
| "invoke E (Environment d) s = s\<lparr>sv_env := d\<rparr>"

lemma step_invoke: "step E s t \<longleftrightarrow> (\<exists>c. t = invoke E c s)"
proof
  assume "step E s t"
  then show "\<exists>c. t = invoke E c s"
    by cases (metis invoke.simps snd_conv)+
next
  assume "\<exists>c. t = invoke E c s"
  then obtain c where "t = invoke E c s" ..
  then show "step E s t"
    by (cases c) (auto intro: steps(1-7) [OF prod.collapse [symmetric]] steps(8-11))
qed

section \<open>States after a call\<close>

definition tidied :: "job_state \<Rightarrow> job_state set" where
  "tidied st = (case st of Loaded \<Rightarrow> {Loaded, Empty, Failed} | Complete \<Rightarrow> {Complete, Empty}
     | Aborted \<Rightarrow> {Aborted, Empty} | Missed \<Rightarrow> {Missed, Empty} | _ \<Rightarrow> {st})"

definition requested :: "string \<Rightarrow> job_state \<Rightarrow> job_state set" where
  "requested op st = {st} \<union>
     (if op = ''LOAD'' \<and> st \<notin> {Armed, Running, Failed} then {Loaded} else {}) \<union>
     (if op = ''ARM'' \<and> st = Loaded then {Armed, Failed} else {}) \<union>
     (if op = ''RELEASE'' \<and> st \<notin> {Armed, Running, Failed} then {Empty} else {}) \<union>
     (if op = ''ABORT'' \<and> st \<in> {Loaded, Armed, Running} then {Aborted, Failed} else {})"

definition polled :: "job_state \<Rightarrow> job_state set" where
  "polled st = (case st of Armed \<Rightarrow> {Armed, Running, Complete, Missed, Failed}
     | Running \<Rightarrow> {Running, Complete, Missed, Failed} | _ \<Rightarrow> {st})"

definition stopped :: "job_state \<Rightarrow> job_state set" where
  "stopped st = (if st \<in> {Loaded, Armed, Running} then {Aborted, Failed} else {st})"



definition keeps_job :: "'d service \<Rightarrow> 'd service \<Rightarrow> bool" where
  "keeps_job s t \<longleftrightarrow> map_option job_id (current_job t) = map_option job_id (current_job s)"

definition cleared :: "'d service \<Rightarrow> bool" where
  "cleared s \<longleftrightarrow> (sv_state s = Empty \<longrightarrow> current_job s = None)"

text \<open>\<open>led f s t\<close>: the state moves by \<open>f\<close>, and with the job it names unless the job is cleared.\<close>

definition led :: "(job_state \<Rightarrow> job_state set) \<Rightarrow> 'd service \<Rightarrow> 'd service \<Rightarrow> bool" where
  "led f s t \<longleftrightarrow> sv_state t \<in> f (sv_state s) \<and>
     (keeps_job s t \<and> (sv_state t = Empty \<longrightarrow> sv_state s = Empty) \<or> sv_state t = Empty \<and> current_job t = None)"


lemma cleared_env [simp]: "cleared (s\<lparr>sv_env := d\<rparr>) = cleared s"
  by (simp add: cleared_def)


lemma keeps_job_simps [simp]:
  "keeps_job s s" "keeps_job s (ended st err now_ns a b t) = keeps_job s t"
  "keeps_job (s\<lparr>sv_env := d\<rparr>) t = keeps_job s t" "keeps_job s (t\<lparr>sv_env := d\<rparr>) = keeps_job s t"
  "keeps_job s (t\<lparr>sv_state := st\<rparr>) = keeps_job s t" "keeps_job s (t\<lparr>current_arm := arm\<rparr>) = keeps_job s t"
  "keeps_job s (t\<lparr>current_owner := own\<rparr>) = keeps_job s t"
  by (simp_all add: keeps_job_def ended_def Let_def split: option.split)

lemma led_env [simp]: "led f (s\<lparr>sv_env := d\<rparr>) t = led f s t" "led f s (t\<lparr>sv_env := d\<rparr>) = led f s t"
  by (simp_all add: led_def)


section \<open>Housekeeping\<close>




section \<open>Requests\<close>


lemma kept_fields [simp]:
  "sv_state (touch_terminal i s) = sv_state s" "keeps_job t (touch_terminal i s) = keeps_job t s"
  "sv_state (remember r rsp n s) = sv_state s" "keeps_job t (remember r rsp n s) = keeps_job t s"
  "sv_state (see_session r n s) = sv_state s" "keeps_job t (see_session r n s) = keeps_job t s"
  "sv_state (release_execution_input E s) = sv_state s" "keeps_job t (release_execution_input E s) = keeps_job t s"
  "sv_state (note_launch rep s) = sv_state s" "keeps_job t (note_launch rep s) = keeps_job t s"
  by (simp_all add: touch_terminal_def remember_def see_session_def release_execution_input_def note_launch_def
      keeps_job_def Let_def split: option.split)






text \<open>A LOAD leaves the service as it was or loads a job, from a state that is not engaged or failed.\<close>

definition loaded_from :: "'d service \<Rightarrow> 'd service \<Rightarrow> bool" where
  "loaded_from s t \<longleftrightarrow> sv_state t \<in> requested ''LOAD'' (sv_state s) \<and> (sv_state t \<notin> {Empty, Loaded} \<longrightarrow> keeps_job s t)"

lemma led_loaded: "led (requested ''LOAD'') s t \<Longrightarrow> loaded_from s t"
  by (auto simp: led_def loaded_from_def)

lemma accept_job_state [simp]: "sv_state (accept_job j d a s) = Loaded"
  by (simp add: accept_job_def split: prod.split)





text \<open>The dispatcher and the request handler around them.\<close>

definition answered :: "request \<Rightarrow> 'd service \<Rightarrow> 'd service \<Rightarrow> bool" where
  "answered r s t \<longleftrightarrow> sv_state t \<in> requested (req_operation r) (sv_state s) \<and>
     (sv_state t \<noteq> Empty \<and> \<not> (req_operation r = ''LOAD'' \<and> sv_state t = Loaded) \<longrightarrow> keeps_job s t)"

lemma answered_env [simp]: "answered r (s\<lparr>sv_env := d\<rparr>) t = answered r s t" "answered r s (t\<lparr>sv_env := d\<rparr>) = answered r s t"
  by (simp_all add: answered_def)











section \<open>Polls and local controls\<close>

definition went :: "job_state set \<Rightarrow> 'd service \<Rightarrow> 'd service \<Rightarrow> bool" where
  "went X s t \<longleftrightarrow> (sv_state t = sv_state s \<or> sv_state t \<in> X) \<and> keeps_job s t"

lemma went_simps [simp]:
  "went X s s" "went X (s\<lparr>sv_env := d\<rparr>) t = went X s t" "went X s (t\<lparr>sv_env := d\<rparr>) = went X s t"
  by (simp_all add: went_def)








text \<open>A local abort polls first, then stops what is engaged. A service that is not ready has failed.\<close>

definition aborting :: "'d service \<Rightarrow> 'd service \<Rightarrow> bool" where
  "aborting s t \<longleftrightarrow> (\<exists>u v. led tidied s u \<and> led polled u v \<and> led stopped v t)"

lemma aborting_env [simp]: "aborting (s\<lparr>sv_env := d\<rparr>) t = aborting s t" "aborting s (t\<lparr>sv_env := d\<rparr>) = aborting s t"
  by (simp_all add: aborting_def)







section \<open>Property\<close>











end
