(* ===== verification/Spec2Isabelle.thy ===== *)
theory Spec2Isabelle
  imports Time_Mapping Sha256 Frame_Stream Wspr_Plan Job_Errors Morse Gatt_Framing Calibration
    Waveform Stream_Progress Utc_Enclosure Codec_Facts Response_Facts Job_Transitions
begin

text \<open>
  Verification development of the WsprryPico firmware: a WSPR and slow-Morse transmitter on a
  microcontroller. All paths below are under \<open>src/src/\<close> of the repository.

  \<^bold>\<open>The program.\<close> A host speaks the WTP protocol over a byte stream. \<open>wtp/frame_parser\<close> cuts the stream
  into checked frames; \<open>wtp/job_service\<close> is the authority over the transmitter: it owns sessions, the
  lease of one owner, the loaded job, the arm record and the public state, and it is the only caller
  of the RF engine (\<open>RfEngine\<close> in \<open>wtp/job_service.hpp\<close>). The clock it consults projects the monotonic
  counter to UTC with \<open>time/mapping.hpp\<close>. Jobs are lists of timed RF events; the device makes them
  itself from a message with \<open>encoding/morse.hpp\<close>, and \<open>encoding/wspr\<close>, \<open>encoding/wspr_plan\<close> produce the
  symbols of the WSPR modes. An engine turns a job into samples: \<open>rf/waveform\<close> plans and renders the
  bits of a numerically controlled oscillator, after \<open>rf/filter_selector\<close> has found the low-pass
  filter, and \<open>rf/stream_engine\<close> streams them to the DMA sink; the amplifier line
  (\<open>rf/amplifier_enable\<close>) is switched around the transmission. Pins are
  allocated by \<open>hardware/pins\<close>; frequency corrections are entered as text (\<open>rf/calibration\<close>), and
  provisioning messages arrive over a framed radio link (\<open>provisioning/gatt_framing\<close>).

  \<^bold>\<open>Theories, in the order of use.\<close>
  \<^item> \<open>Prelude\<close>: machine integers as words, checked and saturating additions, searches.
  \<^item> \<open>Effects\<close>: methods of a class as actions of the state monad over the record of its members, with
    weakest preconditions (\<open>wp_eqs\<close>).
  \<^item> \<open>Time_Mapping\<close> (\<open>time/mapping.hpp\<close>): scaling by rationals, projection and inverse, duration bound.
    \<open>scale\<close> is exact rational scaling; \<open>inverse_utc\<close> gives the first instant that reaches a UTC time.
  \<^item> \<open>Utc_Discipline\<close> (\<open>time/utc_discipline\<close>): the disciplined clock behind the snapshots the service and the
    streaming engine read. \<open>Utc_Enclosure\<close>: a trusted snapshot encloses the true time, for any history of
    true observations, up to one nanosecond after its rate segment (a rounding the uncertainty does not
    count), and does not run backwards.
  \<^item> \<open>Sha256\<close> (\<open>wtp/sha256\<close>): the incremental hash equals the one-pass one for every cut of the input.
  \<^item> \<open>Frame_Codec\<close>, \<open>Frame_Stream\<close> (\<open>wtp/frame_parser\<close>): CRC-32C, encoder, incremental parser; round
    trip for any cut of the stream, and bounds on any input.
  \<^item> \<open>Json\<close> (\<open>wtp/json.cpp\<close>): the validator over the raw payload and the views into it. \<open>Json_Grammar\<close> states
    what a JSON text is; \<open>Json_Accept\<close> shows the validator against it, \<open>Json_Views\<close> that parsing returns and
    accepts exactly the grammar, and that the views are lookups in the members and elements.
  \<^item> \<open>Job_Model\<close> (\<open>wtp/job_service.hpp\<close>): states, events, the paged event container, jobs, their digest,
    the shared adjustment list. The container refines a bounded list; the digest is unambiguous.
  \<^item> \<open>Rf_Engine\<close> (\<open>wtp/job_service.hpp\<close>, \<open>wtp/inhibited_rf_engine\<close>, \<open>wtp/memory_budget.hpp\<close>): the engine,
    clock and identity interfaces as one record of operations on an abstract environment state, and
    the engine of boards without RF output as an instance.
  \<^item> \<open>Job_Service\<close> (\<open>wtp/job_service.cpp\<close>): every operation of the service as an action.
    \<open>Job_Invariants\<close>, \<open>Job_Protocol\<close>, \<open>Job_Control\<close>, \<open>Job_Safety\<close>: the invariant of the service, operation by
    operation, then the step relation over all operations with its safety properties.
    \<open>Job_Transitions\<close>: the public states each kind of call can lead to, and whose job it keeps.
    \<open>Job_Admission\<close>: what the admission of jobs and arms means over the natural numbers.
    \<open>Job_Launch\<close>: who may start the transmitter and on which snapshot of the clock, by logging the calls that
    start it and what the clock showed. \<open>Job_Errors\<close>: a refused request changes nothing.
  \<^item> \<open>Wtp_Codec\<close> (\<open>wtp/codec.cpp\<close>, requests): decoding of the envelope and of every body. \<open>Codec_Facts\<close>: a
    decoded LOAD is legal, or empty and marked where memory was refused, and a retried one may be recognised
    by its digest without changing the answer.
  \<^item> \<open>Response_Source\<close> (\<open>wtp/response_source.hpp\<close>): documents generated while they are sent, with the locale
    \<open>response_document\<close> as their contract; what is sent is the document, all of it given enough writes.
    \<open>Wtp_Responses\<close> (\<open>wtp/codec.cpp\<close>, responses): every encoding of a response. \<open>Response_Facts\<close>: the
    buffer, the browser document and the stream of a LOAD reply are one document.
  \<^item> \<open>Morse\<close> (\<open>encoding/morse.hpp\<close>): measurement and compilation of messages; compiled messages are
    admitted by the service.
  \<^item> \<open>Wspr\<close>, \<open>Wspr_Plan\<close> (\<open>encoding/wspr\<close>, \<open>encoding/wspr_plan.cpp\<close>): packing, convolutional code,
    interleaver, and the plans of the three message types; the symbols determine the message.
  \<^item> \<open>Gatt_Framing\<close>, \<open>Calibration\<close>: round trips and bounds.
  \<^item> \<open>Waveform_Plan\<close>, \<open>Waveform\<close> (\<open>rf/waveform\<close>): the planner with its exact integer arithmetic, the word
    tables, and the renderer, which produces exactly the bits of the oscillator in buffers of any
    sizes.
  \<^item> \<open>Pins\<close> (\<open>hardware/pins\<close>, \<open>hardware/filter_settings\<close>), \<open>Rf_Switching\<close> (\<open>rf/amplifier_enable.hpp\<close>,
    \<open>rf/filter_selector\<close>): allocation of pins, unambiguous filters, the selected filter, and switching
    that never reports an active output as off.
  \<^item> \<open>Stream_Engine\<close> (\<open>rf/stream_engine\<close>): the engine that streams the rendered waveform to a sink in
    numbered blocks and supervises the sink. \<open>Stream_Safety\<close>: for any sink, completion means that
    exactly the bits of the planned job were handed over, in order, and no buffer in use is
    overwritten. \<open>Stream_Launch\<close>: the launch targets it admits. \<open>Stream_Progress\<close>: a poll
    after the timeline ends the transmission whatever the sink answers, as a log of what was asked of the
    sink shows, but for a reported tail of the amplifier.

  \<^bold>\<open>Correspondence.\<close> A class is a record of its members, a method a function on that record (or an
  action); an enumeration is a datatype; unsigned integers are words of their width, with wrap-around;
  \<open>std::optional\<close> and a success flag with an out parameter are \<open>option\<close>; early returns are branches.
  Reading outside an array, undefined in the code, is \<open>None\<close> in the renderer, and shown not to happen.

  \<^bold>\<open>Loops and fuel.\<close> No definition uses fuel. Loops over lists are structural; the parser and the
  eviction loops are functions with a measure; the rendering loop and the loops of the JSON reader, of the
  request decoder and of the page stream are partial functions into \<open>option\<close>, and their properties say that they return.

  \<^bold>\<open>Parameters.\<close> The platform behind the interfaces (engine, sink, clock, identity source, memory, pin
  adapters, the allocators behind containers, parser and replies) is an argument of the definitions.

  \<^bold>\<open>Not modelled.\<close> Status text of the job service (\<open>presentation_json\<close>); the endpoint of
  WTP; the network, USB and board glue (\<open>network/\<close>, \<open>usb/\<close>, every \<open>pico/\<close> directory); the Si5351
  engine, the PIO sink and the worker; the protocols of the time sources; provisioning and standalone scheduling. The manifest
  lists them. Allocation failure is modelled where the code handles it.
\<close>

end
